(* ===== verification/Prelude.thy ===== *)
theory Prelude
  imports Main "HOL-Library.Word"
begin

text \<open>
  Shared vocabulary of the development: the machine types of \<^verbatim>\<open>nfsv4/runtime.h\<close>, the
  result type of a C function call, the combinators the models of the functions are
  written with, a small Hoare logic for them, and the byte orders.

  A C function is a \<open>prog\<close>: a function from the state it works on to an outcome.
  \<^item> \<open>Ok a s\<close>: it returned \<open>a\<close> (or \<^verbatim>\<open>STATUS_OK\<close>) and left the state \<open>s\<close>;
  \<^item> \<open>Err c s\<close>: it returned a \<^verbatim>\<open>status\<close> other than \<^verbatim>\<open>STATUS_OK\<close> with the cause \<open>c\<close>, and
    left the state \<open>s\<close>, whatever it had changed before;
  \<^item> \<open>Crash f\<close>: the process was stopped (\<^verbatim>\<open>panic\<close>, \<^verbatim>\<open>assert\<close>, \<^verbatim>\<open>exit\<close>) or did something C gives no
    meaning to (an access outside an allocation, a read of a byte never written);
  \<^item> no outcome at all (\<open>None\<close>): it never returned.
\<close>

unbundle bit_operations_syntax

section \<open>Machine types\<close>

type_synonym u8 = "8 word"
type_synonym u32 = "32 word"
type_synonym u64 = "64 word"

text \<open>
  A cell of allocated memory holds a byte, or nothing when it was never written since
  \<^verbatim>\<open>malloc\<close> returned it.
\<close>

type_synonym cells = "u8 option list"

section \<open>Outcomes of a call\<close>

datatype fault =
    Panic string
  | Assertion
  | Out_of_bounds
  | Uninitialised
  | Null_pointer
  | Div_by_zero
  | Exit nat

datatype ('s, 'a) out =
    Ok 'a 's
  | Err string 's
  | Crash fault

type_synonym ('s, 'a) prog = "'s \<Rightarrow> ('s, 'a) out option"

named_theorems wp \<open>rules of the Hoare logic, for use as introduction rules\<close>
named_theorems run \<open>equations that run a program one step\<close>

definition ret :: "'a \<Rightarrow> ('s, 'a) prog" where
  "ret a s = Some (Ok a s)"

definition err :: "string \<Rightarrow> ('s, 'a) prog" where
  "err c s = Some (Err c s)"

definition crash :: "fault \<Rightarrow> ('s, 'a) prog" where
  "crash f s = Some (Crash f)"

definition bnd :: "('s, 'a) prog \<Rightarrow> ('a \<Rightarrow> ('s, 'b) prog) \<Rightarrow> ('s, 'b) prog" where
  "bnd m k s = (case m s of
      None \<Rightarrow> None
    | Some (Ok a t) \<Rightarrow> k a t
    | Some (Err c t) \<Rightarrow> Some (Err c t)
    | Some (Crash f) \<Rightarrow> Some (Crash f))"

definition gets :: "('s \<Rightarrow> 'a) \<Rightarrow> ('s, 'a) prog" where
  "gets g s = Some (Ok (g s) s)"

definition modify :: "('s \<Rightarrow> 's) \<Rightarrow> ('s, unit) prog" where
  "modify f s = Some (Ok () (f s))"

text \<open>
  \<open>status_of m\<close> runs \<open>m\<close> and hands its status back as a value, the way
  \<^verbatim>\<open>status st = f(...)\<close> does: \<open>None\<close> is \<^verbatim>\<open>STATUS_OK\<close>. \<open>ignoring m\<close> drops the status,
  as a call whose result is not used does. Both keep what \<open>m\<close> did to the state.
\<close>

definition status_of :: "('s, 'a) prog \<Rightarrow> ('s, string option) prog" where
  "status_of m s = (case m s of
      None \<Rightarrow> None
    | Some (Ok _ t) \<Rightarrow> Some (Ok None t)
    | Some (Err c t) \<Rightarrow> Some (Ok (Some c) t)
    | Some (Crash f) \<Rightarrow> Some (Crash f))"

definition ignoring :: "('s, 'a) prog \<Rightarrow> ('s, unit) prog" where
  "ignoring m = bnd (status_of m) (\<lambda>_. ret ())"

definition of_status :: "string option \<Rightarrow> ('s, unit) prog" where
  "of_status st = (case st of None \<Rightarrow> ret () | Some c \<Rightarrow> err c)"

text \<open>\<open>zoom g p m\<close> runs \<open>m\<close> on the part of the state that \<open>g\<close> reads and \<open>p\<close> writes.\<close>

definition zoom :: "('t \<Rightarrow> 's) \<Rightarrow> ('s \<Rightarrow> 't \<Rightarrow> 't) \<Rightarrow> ('s, 'a) prog \<Rightarrow> ('t, 'a) prog" where
  "zoom g p m t = map_option (map_out (\<lambda>s. p s t) id) (m (g t))"

text \<open>
  \<open>on_local l m\<close> runs \<open>m\<close> on a local object \<open>l\<close>, which is not part of the state, and gives
  back what it returned and the object afterwards.
\<close>

definition on_local :: "'l \<Rightarrow> ('l, 'a) prog \<Rightarrow> ('s, 'a \<times> 'l) prog" where
  "on_local l m s = (case m l of
      None \<Rightarrow> None
    | Some (Ok a l') \<Rightarrow> Some (Ok (a, l') s)
    | Some (Err c l') \<Rightarrow> Some (Err c s)
    | Some (Crash f) \<Rightarrow> Some (Crash f))"

text \<open>
  Statements one after the other. \<open>chain\<close> threads a local object (the \<^verbatim>\<open>rpc\<close> under
  construction) through them.
\<close>

fun seqs :: "('s, unit) prog list \<Rightarrow> ('s, unit) prog" where
  "seqs [] = ret ()"
| "seqs (m # ms) = bnd m (\<lambda>_. seqs ms)"

fun chain :: "('r \<Rightarrow> ('s, 'r) prog) list \<Rightarrow> 'r \<Rightarrow> ('s, 'r) prog" where
  "chain [] r = ret r"
| "chain (f # fs) r = bnd (f r) (chain fs)"

text \<open>\<open>collect n m\<close> runs \<open>m\<close> \<open>n\<close> times and lists what it returned.\<close>

fun collect :: "nat \<Rightarrow> ('s, 'a) prog \<Rightarrow> ('s, 'a list) prog" where
  "collect 0 m = ret []"
| "collect (Suc n) m = bnd m (\<lambda>a. bnd (collect n m) (\<lambda>as. ret (a # as)))"

text \<open>
  Early exits of C: \<open>check c b\<close> is \<^verbatim>\<open>if (!b) return allocate_status(..., c)\<close>;
  \<open>require f b\<close> stops with \<open>f\<close> unless \<open>b\<close>.
\<close>

definition check :: "string \<Rightarrow> bool \<Rightarrow> ('s, unit) prog" where
  "check c b = (if b then ret () else err c)"

definition require :: "fault \<Rightarrow> bool \<Rightarrow> ('s, unit) prog" where
  "require f b = (if b then ret () else crash f)"

lemma ret_run [simp, run]: "ret a s = Some (Ok a s)"
  by (simp add: ret_def)

lemma err_run [simp, run]: "err c s = Some (Err c s)"
  by (simp add: err_def)

lemma crash_run [simp, run]: "crash f s = Some (Crash f)"
  by (simp add: crash_def)

lemma gets_run [simp, run]: "gets g s = Some (Ok (g s) s)"
  by (simp add: gets_def)

lemma modify_run [simp, run]: "modify f s = Some (Ok () (f s))"
  by (simp add: modify_def)

lemma check_run [simp, run]:
  "check c b s = (if b then Some (Ok () s) else Some (Err c s))"
  by (simp add: check_def)

lemma require_run [simp, run]:
  "require f b s = (if b then Some (Ok () s) else Some (Crash f))"
  by (simp add: require_def)

lemma bnd_Ok [run]: "m s = Some (Ok a t) \<Longrightarrow> bnd m k s = k a t"
  by (simp add: bnd_def)

lemma bnd_Err [run]: "m s = Some (Err c t) \<Longrightarrow> bnd m k s = Some (Err c t)"
  by (simp add: bnd_def)

lemma bnd_Crash [run]: "m s = Some (Crash f) \<Longrightarrow> bnd m k s = Some (Crash f)"
  by (simp add: bnd_def)

lemma bnd_None [run]: "m s = None \<Longrightarrow> bnd m k s = None"
  by (simp add: bnd_def)

lemma bnd_ret [simp]: "bnd (ret a) k = k a"
  by (rule ext) (simp add: bnd_def)

lemma bnd_gets [simp]: "bnd (gets g) k s = k (g s) s"
  by (simp add: bnd_def)

lemma bnd_modify [simp]: "bnd (modify f) k s = k () (f s)"
  by (simp add: bnd_def)

lemma bnd_err [simp]: "bnd (err c) k s = Some (Err c s)"
  by (simp add: bnd_def)

lemma bnd_crash [simp]: "bnd (crash f) k s = Some (Crash f)"
  by (simp add: bnd_def)

lemma bnd_check [simp]: "bnd (check c b) k s = (if b then k () s else Some (Err c s))"
  by (simp add: bnd_def)

lemma bnd_require [simp]: "bnd (require f b) k s = (if b then k () s else Some (Crash f))"
  by (simp add: bnd_def)

lemma bnd_assoc: "bnd (bnd m k) h = bnd m (\<lambda>a. bnd (k a) h)"
  by (rule ext) (simp add: bnd_def split: option.split out.split)

lemma status_of_Ok [run]: "m s = Some (Ok a t) \<Longrightarrow> status_of m s = Some (Ok None t)"
  by (simp add: status_of_def)

lemma status_of_Err [run]: "m s = Some (Err c t) \<Longrightarrow> status_of m s = Some (Ok (Some c) t)"
  by (simp add: status_of_def)

lemma status_of_None [run]: "m s = None \<Longrightarrow> status_of m s = None"
  by (simp add: status_of_def)

lemma ignoring_Ok [run]: "m s = Some (Ok a t) \<Longrightarrow> ignoring m s = Some (Ok () t)"
  by (simp add: ignoring_def bnd_def status_of_def)

lemma of_status_simps [simp]: "of_status None = ret ()" "of_status (Some c) = err c"
  by (simp_all add: of_status_def)

lemma zoom_Ok [run]: "m (g t) = Some (Ok a s) \<Longrightarrow> zoom g p m t = Some (Ok a (p s t))"
  by (simp add: zoom_def)

lemma zoom_Err [run]: "m (g t) = Some (Err c s) \<Longrightarrow> zoom g p m t = Some (Err c (p s t))"
  by (simp add: zoom_def)

lemma zoom_Crash [run]: "m (g t) = Some (Crash f) \<Longrightarrow> zoom g p m t = Some (Crash f)"
  by (simp add: zoom_def)

lemma zoom_Ok_iff: "zoom g p m t = Some (Ok a t') \<longleftrightarrow> (\<exists>s. m (g t) = Some (Ok a s) \<and> t' = p s t)"
proof (cases "m (g t)")
  case (Some r)
  then show ?thesis by (cases r) (auto simp: zoom_def)
qed (simp add: zoom_def)

lemma on_local_Ok [run]: "m l = Some (Ok a l') \<Longrightarrow> on_local l m s = Some (Ok (a, l') s)"
  by (simp add: on_local_def)

lemma on_local_Crash [run]: "m l = Some (Crash f) \<Longrightarrow> on_local l m s = Some (Crash f)"
  by (simp add: on_local_def)

lemma on_local_ret [simp]: "on_local l (ret a) s = Some (Ok (a, l) s)"
  by (simp add: on_local_def)

lemma seqs_append: "seqs (ms @ ns) s = bnd (seqs ms) (\<lambda>_. seqs ns) s"
  by (induction ms arbitrary: s) (simp_all add: bnd_def split: option.split out.split)

lemma chain_append: "chain (fs @ gs) r s = bnd (chain fs r) (chain gs) s"
  by (induction fs arbitrary: r s) (simp_all add: bnd_def split: option.split out.split)

section \<open>A Hoare logic\<close>

text \<open>
  \<open>runs P m Q R\<close>: from a state with \<open>P\<close>, \<open>m\<close> returns, and does not crash; \<open>Q\<close> holds of the
  value and state it returns normally, \<open>R\<close> of the cause and state of an error status.
  \<open>keeps P m Q R\<close> says the same of the runs that return, and nothing of the others.
\<close>

definition runs ::
    "('s \<Rightarrow> bool) \<Rightarrow> ('s, 'a) prog \<Rightarrow> ('a \<Rightarrow> 's \<Rightarrow> bool) \<Rightarrow> (string \<Rightarrow> 's \<Rightarrow> bool) \<Rightarrow> bool" where
  "runs P m Q R \<longleftrightarrow> (\<forall>s. P s \<longrightarrow> (case m s of
      Some (Ok a t) \<Rightarrow> Q a t | Some (Err c t) \<Rightarrow> R c t | _ \<Rightarrow> False))"

definition keeps ::
    "('s \<Rightarrow> bool) \<Rightarrow> ('s, 'a) prog \<Rightarrow> ('a \<Rightarrow> 's \<Rightarrow> bool) \<Rightarrow> (string \<Rightarrow> 's \<Rightarrow> bool) \<Rightarrow> bool" where
  "keeps P m Q R \<longleftrightarrow> (\<forall>s. P s \<longrightarrow> (case m s of
      Some (Ok a t) \<Rightarrow> Q a t | Some (Err c t) \<Rightarrow> R c t | _ \<Rightarrow> True))"

lemma runs_keeps: "runs P m Q R \<Longrightarrow> keeps P m Q R"
  unfolding runs_def keeps_def by (force split: option.splits out.splits)

lemma keeps_bnd [wp]:
  assumes "keeps P m Q R" and "\<And>a. keeps (Q a) (k a) Q' R"
  shows "keeps P (bnd m k) Q' R"
  using assms unfolding keeps_def bnd_def
  by (fastforce split: option.splits out.splits)

lemma runs_bnd:
  assumes "runs P m Q R" and "\<And>a. runs (Q a) (k a) Q' R"
  shows "runs P (bnd m k) Q' R"
  using assms unfolding runs_def bnd_def
  by (fastforce split: option.splits out.splits)

lemma keeps_ret [wp]: "keeps (Q a) (ret a) Q R"
  by (simp add: keeps_def)

lemma keeps_err [wp]: "keeps (R c) (err c) Q R"
  by (simp add: keeps_def)

lemma keeps_crash [wp]: "keeps P (crash f) Q R"
  by (simp add: keeps_def)

lemma keeps_gets [wp]: "keeps (\<lambda>s. Q (g s) s) (gets g) Q R"
  by (simp add: keeps_def)

lemma keeps_modify [wp]: "keeps (\<lambda>s. Q () (f s)) (modify f) Q R"
  by (simp add: keeps_def)

lemma keeps_weaken:
  "keeps P m Q R \<Longrightarrow> (\<And>s. P' s \<Longrightarrow> P s) \<Longrightarrow> (\<And>a s. Q a s \<Longrightarrow> Q' a s) \<Longrightarrow>
   (\<And>c s. R c s \<Longrightarrow> R' c s) \<Longrightarrow> keeps P' m Q' R'"
  unfolding keeps_def by (force split: option.splits out.splits)

lemma keepsD_Ok: "keeps P m Q R \<Longrightarrow> P s \<Longrightarrow> m s = Some (Ok a t) \<Longrightarrow> Q a t"
  unfolding keeps_def by force

lemma keepsD_Err: "keeps P m Q R \<Longrightarrow> P s \<Longrightarrow> m s = Some (Err c t) \<Longrightarrow> R c t"
  unfolding keeps_def by force

section \<open>Loops over programs\<close>

text \<open>
  A loop that may not end is a partial function; what the package needs to know is that the
  combinators are monotone in the programs they run.
\<close>

lemma mono_optionI:
  assumes "\<And>f g. (\<And>x. f x = None \<or> f x = g x) \<Longrightarrow> F f = None \<or> F f = F g"
  shows "mono_option F"
  using assms by (simp add: monotone_def fun_ord_def flat_ord_def)

lemma mono_optionD:
  "mono_option F \<Longrightarrow> (\<And>x. f x = None \<or> f x = g x) \<Longrightarrow> F f = None \<or> F f = F g"
  by (simp add: monotone_def fun_ord_def flat_ord_def)

lemma mono_bnd [partial_function_mono]:
  fixes m :: "('x \<Rightarrow> 'y option) \<Rightarrow> ('s, 'a) prog"
  assumes "\<And>s. mono_option (\<lambda>f. m f s)" and "\<And>a s. mono_option (\<lambda>f. k f a s)"
  shows "mono_option (\<lambda>f. bnd (m f) (k f) s)"
proof (rule mono_optionI)
  fix f g :: "'x \<Rightarrow> 'y option" assume fg: "\<And>x. f x = None \<or> f x = g x"
  have m: "m f s = None \<or> m f s = m g s"
    using assms(1)[of s] fg by (rule mono_optionD)
  have k: "k f a t = None \<or> k f a t = k g a t" for a t
    using assms(2)[of a t] fg by (rule mono_optionD)
  show "bnd (m f) (k f) s = None \<or> bnd (m f) (k f) s = bnd (m g) (k g) s"
    using m
  proof
    assume eq: "m f s = m g s"
    show ?thesis
    proof (cases "m g s")
      case (Some r)
      with eq k show ?thesis by (cases r) (simp_all add: bnd_def)
    qed (simp add: bnd_def eq)
  qed (simp add: bnd_def)
qed

lemma mono_status_of [partial_function_mono]:
  fixes m :: "('x \<Rightarrow> 'y option) \<Rightarrow> ('s, 'a) prog"
  assumes "\<And>s. mono_option (\<lambda>f. m f s)"
  shows "mono_option (\<lambda>f. status_of (m f) s)"
proof (rule mono_optionI)
  fix f g :: "'x \<Rightarrow> 'y option" assume fg: "\<And>x. f x = None \<or> f x = g x"
  have "m f s = None \<or> m f s = m g s"
    using assms[of s] fg by (rule mono_optionD)
  then show "status_of (m f) s = None \<or> status_of (m f) s = status_of (m g) s"
    by (auto simp: status_of_def)
qed

lemma mono_if_app [partial_function_mono]:
  assumes "b \<Longrightarrow> mono_option (\<lambda>f. m f s)" and "\<not> b \<Longrightarrow> mono_option (\<lambda>f. n f s)"
  shows "mono_option (\<lambda>f. (if b then m f else n f) s)"
  using assms by (cases b) simp_all

end
