(* ===== verification/Bytes.thy ===== *)
theory Bytes
  imports Prelude
begin

text \<open>
  Byte orders and raw memory. \<open>be32\<close> and \<open>be64\<close> are the bytes \<^verbatim>\<open>htonl\<close> stores (network
  order), \<open>le64\<close> the bytes of a 64-bit object in the memory of the little-endian host the
  code is written for (\<^verbatim>\<open>ticks.h\<close> is x86 assembly). \<open>mem_load\<close> and \<open>mem_store\<close> are
  \<^verbatim>\<open>memcpy\<close> from and to an allocation: \<open>None\<close> when the range leaves it.
\<close>

section \<open>Byte orders\<close>

definition be32 :: "u32 \<Rightarrow> u8 list" where
  "be32 w = [ucast (drop_bit 24 w), ucast (drop_bit 16 w), ucast (drop_bit 8 w), ucast w]"

definition be64 :: "u64 \<Rightarrow> u8 list" where
  "be64 w = be32 (ucast (drop_bit 32 w)) @ be32 (ucast w)"

definition le64 :: "u64 \<Rightarrow> u8 list" where
  "le64 w = rev (be64 w)"

text \<open>The converse reads: \<^verbatim>\<open>ntohl\<close> of a 4-byte load, and the two that make a 64-bit value.\<close>

definition of_be32 :: "u8 list \<Rightarrow> u32" where
  "of_be32 bs = foldl (\<lambda>acc b. push_bit 8 acc OR ucast b) 0 bs"

definition of_be64 :: "u8 list \<Rightarrow> u64" where
  "of_be64 bs = push_bit 32 (ucast (of_be32 (take 4 bs))) OR ucast (of_be32 (drop 4 bs))"

definition of_le64 :: "u8 list \<Rightarrow> u64" where
  "of_le64 bs = of_be64 (rev bs)"

text \<open>What every fixed-width encoding of this library promises.\<close>

locale codec =
  fixes enc :: "'a \<Rightarrow> u8 list" and dec :: "u8 list \<Rightarrow> 'a" and width :: nat
  assumes length_enc: "length (enc a) = width"
    and dec_enc: "dec (enc a) = a"
    and enc_dec: "length bs = width \<Longrightarrow> enc (dec bs) = bs"
begin

lemma enc_inject: "enc a = enc b \<longleftrightarrow> a = b"
  by (metis dec_enc)

lemma dec_inject: "length bs = width \<Longrightarrow> length cs = width \<Longrightarrow> dec bs = dec cs \<longleftrightarrow> bs = cs"
  by (metis enc_dec)

lemma dec_take: "dec (take width (enc a @ rest)) = a"
  by (simp add: length_enc dec_enc)

lemma drop_enc: "drop width (enc a @ rest) = rest"
  by (simp add: length_enc)

end

lemma length_be32 [simp]: "length (be32 w) = 4"
  by (simp add: be32_def)

lemma length_be64 [simp]: "length (be64 w) = 8"
  by (simp add: be64_def)

lemma length_le64 [simp]: "length (le64 w) = 8"
  by (simp add: le64_def)

lemma length_4E:
  assumes "length xs = 4"
  obtains a b c d where "xs = [a, b, c, d]"
proof -
  from assms have "length xs = Suc (Suc (Suc (Suc 0)))" by simp
  with that show thesis by (auto simp: length_Suc_conv)
qed

lemma of_be32_4:
  "of_be32 [a, b, c, d] =
     push_bit 24 (ucast a) OR push_bit 16 (ucast b) OR push_bit 8 (ucast c) OR ucast d"
  by (rule bit_word_eqI) (auto simp: of_be32_def bit_simps)

lemma of_be32_be32: "of_be32 (be32 w) = w"
proof (rule bit_word_eqI)
  fix n assume "n < LENGTH(32)"
  then have n: "n < 32" by simp
  consider "n < 8" | "8 \<le> n \<and> n < 16" | "16 \<le> n \<and> n < 24" | "24 \<le> n" by arith
  then show "bit (of_be32 (be32 w)) n = bit w n"
    by cases (use n in \<open>simp_all add: be32_def of_be32_4 bit_simps, auto dest: bit_imp_le_length\<close>)
qed

lemma be32_of_be32: "length bs = 4 \<Longrightarrow> be32 (of_be32 bs) = bs"
  by (elim length_4E)
    (auto simp: of_be32_4 be32_def intro!: bit_word_eqI, auto simp: bit_simps dest: bit_imp_le_length)

lemma join_halves: "push_bit 32 (ucast (ucast (drop_bit 32 w) :: u32)) OR ucast (ucast w :: u32) = (w :: u64)"
  by (rule bit_word_eqI) (auto simp: bit_simps dest: bit_imp_le_length)

lemma high_half: "ucast (drop_bit 32 (push_bit 32 (ucast (a :: u32)) OR ucast (b :: u32) :: u64)) = a"
  by (rule bit_word_eqI) (auto simp: bit_simps dest: bit_imp_le_length)

lemma low_half: "ucast (push_bit 32 (ucast (a :: u32)) OR ucast (b :: u32) :: u64) = b"
  by (rule bit_word_eqI) (auto simp: bit_simps)

lemma of_be64_be64: "of_be64 (be64 w) = w"
  by (simp add: of_be64_def be64_def of_be32_be32 join_halves)

lemma be64_of_be64: "length bs = 8 \<Longrightarrow> be64 (of_be64 bs) = bs"
  unfolding of_be64_def be64_def high_half low_half by (simp add: be32_of_be32)

interpretation be32: codec be32 of_be32 4
  by unfold_locales (simp_all add: of_be32_be32 be32_of_be32)

interpretation be64: codec be64 of_be64 8
  by unfold_locales (simp_all add: of_be64_be64 be64_of_be64)

interpretation le64: codec le64 of_le64 8
  by unfold_locales
    (simp_all add: le64_def of_le64_def of_be64_be64 be64_of_be64)

lemmas codec_simps = be32.dec_enc be64.dec_enc le64.dec_enc be32.enc_dec be64.enc_dec le64.enc_dec

section \<open>Allocations\<close>

definition mem_load :: "nat \<Rightarrow> nat \<Rightarrow> cells \<Rightarrow> cells option" where
  "mem_load off n m = (if off + n \<le> length m then Some (take n (drop off m)) else None)"

definition mem_store :: "nat \<Rightarrow> cells \<Rightarrow> cells \<Rightarrow> cells option" where
  "mem_store off xs m =
     (if off + length xs \<le> length m then Some (take off m @ xs @ drop (off + length xs) m)
      else None)"

definition fresh_cells :: "nat \<Rightarrow> cells" where
  "fresh_cells n = replicate n None"

text \<open>\<open>cells_of bs\<close> are cells that hold \<open>bs\<close>; \<open>those\<close> of the library reads them back.\<close>

abbreviation cells_of :: "u8 list \<Rightarrow> cells" where
  "cells_of bs \<equiv> map Some bs"

lemma those_cells_of [simp]: "those (cells_of bs) = Some bs"
  by (induction bs) simp_all

lemma those_Some: "those xs = Some bs \<Longrightarrow> xs = cells_of bs"
  by (induction xs arbitrary: bs) (auto split: option.splits)

lemma length_fresh_cells [simp]: "length (fresh_cells n) = n"
  by (simp add: fresh_cells_def)

lemma mem_store_length: "mem_store off xs m = Some m' \<Longrightarrow> length m' = length m"
  by (auto simp: mem_store_def split: if_splits)

lemma mem_load_length: "mem_load off n m = Some xs \<Longrightarrow> length xs = n"
  by (auto simp: mem_load_def split: if_splits)

lemma mem_load_store_same: "mem_store off xs m = Some m' \<Longrightarrow> mem_load off (length xs) m' = Some xs"
  by (auto simp: mem_store_def mem_load_def split: if_splits)

lemma mem_load_store_other:
  assumes "mem_store off xs m = Some m'" and "p + n \<le> off \<or> off + length xs \<le> p"
  shows "mem_load p n m' = mem_load p n m"
proof -
  from assms(1) have len: "off + length xs \<le> length m"
    and m': "m' = take off m @ xs @ drop (off + length xs) m"
    by (auto simp: mem_store_def split: if_splits)
  from assms(2) show ?thesis
  proof
    assume "p + n \<le> off"
    then have "take n (drop p m') = take n (drop p m)" and "p + n \<le> length m"
      using len by (auto simp: m' drop_take min_def)
    moreover have "length m' = length m" using len by (simp add: m')
    ultimately show ?thesis by (simp add: mem_load_def)
  next
    assume after: "off + length xs \<le> p"
    then have "drop p m' = drop p m"
      using len by (simp add: m' min_def)
    with len show ?thesis by (simp add: mem_load_def m')
  qed
qed

end
