(* ===== verification/Buffer.thy ===== *)
theory Buffer
  imports Bytes
begin

text \<open>
  \<^verbatim>\<open>nfsv4/buffer.h\<close>: growable byte buffers. The \<^verbatim>\<open>heap\<close> field is always the null heap, so
  it is left out, and the lifetime of an allocation (\<^verbatim>\<open>deallocate\<close>) is not modelled;
  everything else of the structure is kept, with \<^verbatim>\<open>bytes\<close> as 32-bit words, so that the
  arithmetic on the indices wraps as it does in C.
\<close>

section \<open>The structure and its operations\<close>

record buffer =
  b_start :: u32
  b_end :: u32
  b_capacity :: u32
  b_contents :: cells

definition pad :: "u32 \<Rightarrow> u32 \<Rightarrow> u32" where
  "pad a to = ((a - 1) div to + 1) * to"

definition buffer_length :: "buffer \<Rightarrow> u32" where
  "buffer_length b = b_end b - b_start b"

definition allocate_buffer :: "u32 \<Rightarrow> buffer" where
  "allocate_buffer capacity =
     \<lparr>b_start = 0, b_end = 0, b_capacity = capacity, b_contents = fresh_cells (unat capacity)\<rparr>"

text \<open>\<^verbatim>\<open>memcpy\<close> into and out of the contents, at an offset from their beginning.\<close>

definition buf_store :: "nat \<Rightarrow> cells \<Rightarrow> (buffer, unit) prog" where
  "buf_store off xs b = (case mem_store off xs (b_contents b) of
      None \<Rightarrow> Some (Crash Out_of_bounds)
    | Some m \<Rightarrow> Some (Ok () (b\<lparr>b_contents := m\<rparr>)))"

definition buf_load :: "nat \<Rightarrow> nat \<Rightarrow> (buffer, cells) prog" where
  "buf_load off n b = (case mem_load off n (b_contents b) of
      None \<Rightarrow> Some (Crash Out_of_bounds)
    | Some xs \<Rightarrow> Some (Ok xs b))"

text \<open>A load whose bytes are looked at: one never written is a fault.\<close>

definition buf_bytes :: "nat \<Rightarrow> nat \<Rightarrow> (buffer, u8 list) prog" where
  "buf_bytes off n = bnd (buf_load off n) (\<lambda>xs. case those xs of
      None \<Rightarrow> crash Uninitialised
    | Some bs \<Rightarrow> ret bs)"

definition buffer_extend :: "u32 \<Rightarrow> (buffer, unit) prog" where
  "buffer_extend len b =
     (if b_capacity b < b_end b + len then
        let oldcap = b_capacity b;
            cap = max (2 * oldcap) (oldcap + len);
            new = fresh_cells (unat cap)
        in case mem_load 0 (unat (buffer_length b)) (b_contents b) of
             None \<Rightarrow> Some (Crash Out_of_bounds)
           | Some xs \<Rightarrow> (case mem_store 0 xs new of
               None \<Rightarrow> Some (Crash Out_of_bounds)
             | Some new' \<Rightarrow> Some (Ok ()
                 (b\<lparr>b_capacity := cap, b_end := b_end b - b_start b, b_start := 0,
                    b_contents := new'\<rparr>)))
      else Some (Ok () b))"

definition push_bytes :: "cells \<Rightarrow> (buffer, unit) prog" where
  "push_bytes xs = seqs
     [buffer_extend (word_of_nat (length xs)),
      \<lambda>b. buf_store (unat (b_end b)) xs b,
      modify (\<lambda>b. b\<lparr>b_end := b_end b + word_of_nat (length xs)\<rparr>)]"

definition push_char :: "u8 \<Rightarrow> (buffer, unit) prog" where
  "push_char x = seqs
     [buffer_extend 1,
      \<lambda>b. buf_store (unat (b_end b)) [Some x] b,
      modify (\<lambda>b. b\<lparr>b_end := b_end b + 1\<rparr>)]"

definition buffer_concat :: "buffer \<Rightarrow> (buffer, unit) prog" where
  "buffer_concat source =
     (let len = buffer_length source in seqs
       [buffer_extend len,
        \<lambda>dest. (case mem_load (unat (b_start source)) (unat len) (b_contents source) of
            None \<Rightarrow> Some (Crash Out_of_bounds)
          | Some xs \<Rightarrow> buf_store (unat (b_end dest)) xs dest),
        modify (\<lambda>dest. dest\<lparr>b_end := b_end dest + len\<rparr>)])"

definition nibbles :: "u8 list" where
  "nibbles = map (\<lambda>c. word_of_nat (of_char c)) ''0123456789abcdef''"

text \<open>\<^verbatim>\<open>for (int i = b->start; i < b->end; i++)\<close> of \<^verbatim>\<open>print_buffer_u32\<close>, over the bytes from \<open>i\<close> on.\<close>

fun hex_loop :: "nat \<Rightarrow> nat \<Rightarrow> u8 list \<Rightarrow> (buffer, unit) prog" where
  "hex_loop start i [] = ret ()"
| "hex_loop start i (x # xs) = seqs
     [if start < i \<and> i mod 4 = 0 then push_char 10 else ret (),
      push_char (nibbles ! unat (drop_bit 4 x)),
      push_char (nibbles ! unat (x AND 15)),
      hex_loop start (Suc i) xs]"

definition print_buffer_u32 :: "(buffer, buffer) prog" where
  "print_buffer_u32 b =
     (let len = buffer_length b;
          out = allocate_buffer (len * 2 + len div 4 + 2)
      in bnd (buf_bytes (unat (b_start b)) (unat len)) (\<lambda>xs.
         bnd (on_local out (seqs
           [hex_loop (unat (b_start b)) (unat (b_start b)) xs, push_char 10]))
         (\<lambda>(_, out'). ret out')) b)"

text \<open>\<^verbatim>\<open>forchar(i, b)\<close> visits the bytes from \<^verbatim>\<open>start\<close>, \<^verbatim>\<open>length\<close> of them.\<close>

definition forchar :: "(buffer, u8 list) prog" where
  "forchar b = buf_bytes (unat (b_start b)) (unat (buffer_length b)) b"

section \<open>Well-formed buffers and their data\<close>

definition wf_buf :: "buffer \<Rightarrow> bool" where
  "wf_buf b \<longleftrightarrow> b_start b \<le> b_end b \<and> b_end b \<le> b_capacity b \<and>
     unat (b_capacity b) < 2 ^ 31 \<and> length (b_contents b) = unat (b_capacity b)"

definition data :: "buffer \<Rightarrow> cells" where
  "data b = take (unat (b_end b) - unat (b_start b)) (drop (unat (b_start b)) (b_contents b))"

text \<open>
  \<open>rep b xs\<close>: \<open>b\<close> is well formed, nothing was consumed from it and it holds \<open>xs\<close>. This is
  the state every request is built in (\<^verbatim>\<open>allocate_rpc\<close> resets both indices).
\<close>

definition rep :: "buffer \<Rightarrow> cells \<Rightarrow> bool" where
  "rep b xs \<longleftrightarrow> wf_buf b \<and> b_start b = 0 \<and> data b = xs"

text \<open>
  How far a buffer may be filled: below this no index of it wraps. Some operations reserve
  up to 16 bytes more than they write.
\<close>

definition limit :: nat where
  "limit = 2 ^ 30 - 16"

lemma unat_buffer_length: "b_start b \<le> b_end b \<Longrightarrow> unat (buffer_length b) = unat (b_end b) - unat (b_start b)"
  by (simp add: buffer_length_def unat_sub)

lemma wf_bufD:
  assumes "wf_buf b"
  shows "unat (b_start b) \<le> unat (b_end b)" and "unat (b_end b) \<le> unat (b_capacity b)"
    and "unat (b_capacity b) < 2 ^ 31" and "length (b_contents b) = unat (b_capacity b)"
    and "unat (buffer_length b) = unat (b_end b) - unat (b_start b)"
  using assms by (auto simp: wf_buf_def word_le_nat_alt unat_buffer_length)

lemma length_data: "wf_buf b \<Longrightarrow> length (data b) = unat (b_end b) - unat (b_start b)"
  using wf_bufD[of b] by (simp add: data_def)

lemma repD:
  assumes "rep b xs"
  shows "wf_buf b" and "b_start b = 0" and "data b = xs" and "unat (b_end b) = length xs"
  using assms length_data[of b] by (auto simp: rep_def)

lemma unat_add_small:
  fixes a b :: u32
  assumes "unat a + unat b < 2 ^ 32"
  shows "unat (a + b) = unat a + unat b"
  using assms by (simp add: unat_word_ariths)

lemma unat_double_small:
  fixes a :: u32
  assumes "unat a < 2 ^ 31"
  shows "unat (2 * a) = 2 * unat a"
  using assms by (simp add: unat_word_ariths)

lemma unat_of_nat_small: "n < 2 ^ 32 \<Longrightarrow> unat (word_of_nat n :: u32) = n"
  by (simp add: unat_of_nat)

lemma wf_allocate: "unat c < 2 ^ 31 \<Longrightarrow> wf_buf (allocate_buffer c)"
  by (simp add: wf_buf_def allocate_buffer_def)

lemma rep_allocate: "unat c < 2 ^ 31 \<Longrightarrow> rep (allocate_buffer c) []"
  by (simp add: rep_def wf_allocate data_def) (simp add: allocate_buffer_def)

section \<open>Growing\<close>

text \<open>The new capacity covers the old data and \<open>len\<close> more bytes, and does not wrap.\<close>

lemma grown_capacity:
  fixes c e len :: u32
  assumes "unat e \<le> unat c" and "unat c < 2 ^ 31" and "unat e + unat len \<le> limit + 16"
    and "c < e + len"
  shows "unat (max (2 * c) (c + len)) = max (2 * unat c) (unat c + unat len)"
    and "unat (max (2 * c) (c + len)) < 2 ^ 31"
    and "unat e + unat len \<le> unat (max (2 * c) (c + len))"
proof -
  have el: "unat (e + len) = unat e + unat len"
    using assms(3) by (intro unat_add_small) (simp add: limit_def)
  with assms(4) have lt: "unat c < unat e + unat len" by (simp add: word_less_nat_alt)
  have two: "unat (2 * c) = 2 * unat c" using assms(2) by (rule unat_double_small)
  have add: "unat (c + len) = unat c + unat len"
    using lt assms(3) by (intro unat_add_small) (simp add: limit_def)
  show eq: "unat (max (2 * c) (c + len)) = max (2 * unat c) (unat c + unat len)"
    using two add by (simp add: max_def word_le_nat_alt)
  show "unat (max (2 * c) (c + len)) < 2 ^ 31"
    using lt assms(3) unfolding eq by (simp add: limit_def)
  show "unat e + unat len \<le> unat (max (2 * c) (c + len))"
    using assms(1) unfolding eq by simp
qed

lemma buffer_extend_stays:
  "\<not> b_capacity b < b_end b + len \<Longrightarrow> buffer_extend len b = Some (Ok () b)"
  by (simp add: buffer_extend_def)

text \<open>
  When it grows, the buffer keeps as many bytes as it held, but takes them from the
  beginning of the old contents and not from \<^verbatim>\<open>start\<close>.
\<close>

lemma buffer_extend_grows:
  assumes "wf_buf b" and "unat (b_end b) + unat len \<le> limit + 16" and "b_capacity b < b_end b + len"
  obtains b' where "buffer_extend len b = Some (Ok () b')" and "wf_buf b'" and "b_start b' = 0"
    and "b_end b' = b_end b - b_start b"
    and "data b' = take (unat (buffer_length b)) (b_contents b)"
    and "unat (b_end b) + unat len \<le> unat (b_capacity b')"
    and "b_capacity b' = max (2 * b_capacity b) (b_capacity b + len)"
proof -
  note b = wf_bufD[OF assms(1)]
  let ?c = "max (2 * b_capacity b) (b_capacity b + len)"
  note c = grown_capacity[OF b(2,3) assms(2,3)]
  let ?n = "unat (buffer_length b)"
  let ?xs = "take ?n (b_contents b)"
  let ?b' = "b\<lparr>b_capacity := ?c, b_end := b_end b - b_start b, b_start := 0,
    b_contents := ?xs @ drop ?n (fresh_cells (unat ?c))\<rparr>"
  have n: "?n \<le> unat (b_capacity b)" "?n \<le> unat ?c" using b c(1) by auto
  have "buffer_extend len b = Some (Ok () ?b')"
    using n b(4) assms(3) by (simp add: buffer_extend_def mem_load_def mem_store_def Let_def)
  moreover have "wf_buf ?b'"
    using n c(2) b(4) by (simp add: wf_buf_def word_le_nat_alt buffer_length_def)
  moreover have "data ?b' = ?xs" using n b(4) by (simp add: data_def buffer_length_def)
  ultimately show thesis using that c(3) by simp
qed

lemma buffer_extend_rep:
  assumes "rep b xs" and "length xs + unat len \<le> limit + 16"
  obtains b' where "buffer_extend len b = Some (Ok () b')" and "rep b' xs"
    and "length xs + unat len \<le> unat (b_capacity b')" and "b_capacity b \<le> b_capacity b'"
proof (cases "b_capacity b < b_end b + len")
  case True
  note r = repD[OF assms(1)]
  from r assms(2) True obtain b' where
    b': "buffer_extend len b = Some (Ok () b')" "wf_buf b'" "b_start b' = 0"
      "data b' = take (unat (buffer_length b)) (b_contents b)"
      "unat (b_end b) + unat len \<le> unat (b_capacity b')"
    by (metis buffer_extend_grows)
  have "unat (b_end b + len) = unat (b_end b) + unat len"
    using r(4) assms(2) by (intro unat_add_small) (simp add: limit_def)
  with True b'(5) have "b_capacity b \<le> b_capacity b'"
    by (simp add: word_less_nat_alt word_le_nat_alt)
  moreover have "data b' = xs" using b'(4) r by (simp add: data_def buffer_length_def)
  ultimately show thesis using b' r(4) that by (simp add: rep_def)
next
  case False
  note r = repD[OF assms(1)]
  have "unat (b_end b + len) = unat (b_end b) + unat len"
    using r(4) assms(2) by (intro unat_add_small) (simp add: limit_def)
  with False r(4) have "length xs + unat len \<le> unat (b_capacity b)"
    by (simp add: word_less_nat_alt not_less)
  with that assms(1) buffer_extend_stays[OF False] show thesis by blast
qed

section \<open>Appending\<close>

text \<open>Storing at the end and moving \<^verbatim>\<open>end\<close>: the tail of every push.\<close>

definition put_end :: "cells \<Rightarrow> (buffer, unit) prog" where
  "put_end ys = seqs [\<lambda>b. buf_store (unat (b_end b)) ys b,
     modify (\<lambda>b. b\<lparr>b_end := b_end b + word_of_nat (length ys)\<rparr>)]"

lemma put_end_data:
  assumes "wf_buf b" and "unat (b_end b) + length ys \<le> unat (b_capacity b)"
  obtains b' where "put_end ys b = Some (Ok () b')" and "wf_buf b'" and "data b' = data b @ ys"
    and "b_start b' = b_start b" and "b_capacity b' = b_capacity b" and "unat (b_end b') = unat (b_end b) + length ys"
proof -
  note w = wf_bufD[OF assms(1)]
  let ?m = "take (unat (b_end b)) (b_contents b) @ ys @ drop (unat (b_end b) + length ys) (b_contents b)"
  let ?b' = "b\<lparr>b_contents := ?m, b_end := b_end b + word_of_nat (length ys)\<rparr>"
  have e: "unat (b_end b + word_of_nat (length ys)) = unat (b_end b) + length ys"
    using assms(2) w(3) by (subst unat_add_small) (simp_all add: unat_of_nat_small)
  have "put_end ys b = Some (Ok () ?b')"
    using assms(2) w(4) by (simp add: put_end_def bnd_def buf_store_def mem_store_def)
  moreover have "wf_buf ?b'"
    using assms(2) w e by (simp add: wf_buf_def word_le_nat_alt)
  moreover have "data ?b' = data b @ ys"
    using assms(2) w e by (simp add: data_def flip: drop_take)
  ultimately show thesis using that e by simp
qed

lemma put_end_rep:
  assumes "rep b xs" and "length xs + length ys \<le> unat (b_capacity b)"
  obtains b' where "put_end ys b = Some (Ok () b')" and "rep b' (xs @ ys)"
    and "b_capacity b' = b_capacity b"
  using put_end_data[of b ys] assms repD[OF assms(1)] by (metis rep_def)

lemma put_end_writes:
  assumes "rep b xs" and "length xs + length ys \<le> limit"
    and "unat len = length ys"
  obtains b' where "bnd (buffer_extend len) (\<lambda>_. put_end ys) b = Some (Ok () b')"
    and "rep b' (xs @ ys)" and "b_capacity b \<le> b_capacity b'"
proof -
  from assms obtain b1 where b1: "buffer_extend len b = Some (Ok () b1)" "rep b1 xs"
      "length xs + length ys \<le> unat (b_capacity b1)" "b_capacity b \<le> b_capacity b1"
    by (metis buffer_extend_rep trans_le_add1)
  from b1(2,3) obtain b2 where "put_end ys b1 = Some (Ok () b2)" "rep b2 (xs @ ys)"
      "b_capacity b2 = b_capacity b1"
    by (metis put_end_rep)
  with that b1(1,4) show thesis by (simp add: bnd_Ok)
qed

text \<open>
  \<open>writes m ys\<close>: on a request buffer below the limit, \<open>m\<close> returns and appends \<open>ys\<close>.
\<close>

definition writes :: "(buffer, unit) prog \<Rightarrow> cells \<Rightarrow> bool" where
  "writes m ys \<longleftrightarrow> (\<forall>b xs. rep b xs \<longrightarrow> length xs + length ys \<le> limit \<longrightarrow>
     (\<exists>b'. m b = Some (Ok () b') \<and> rep b' (xs @ ys) \<and> b_capacity b \<le> b_capacity b'))"

named_theorems emit \<open>what the operations on a request append\<close>

lemma writesD:
  assumes "writes m ys" and "rep b xs" and "length xs + length ys \<le> limit"
  obtains b' where "m b = Some (Ok () b')" and "rep b' (xs @ ys)" and "b_capacity b \<le> b_capacity b'"
  using assms by (auto simp: writes_def)

lemma writes_ret [emit]: "writes (ret ()) []"
  by (simp add: writes_def)

lemma writes_bnd:
  assumes "writes m ys" and "writes k zs"
  shows "writes (bnd m (\<lambda>_. k)) (ys @ zs)"
  unfolding writes_def
proof (intro allI impI)
  fix b xs assume b: "rep b xs" "length xs + length (ys @ zs) \<le> limit"
  then obtain b1 where b1: "m b = Some (Ok () b1)" "rep b1 (xs @ ys)" "b_capacity b \<le> b_capacity b1"
    using assms(1) by (metis writesD length_append add_leD1 add.assoc)
  then obtain b2 where "k b1 = Some (Ok () b2)" "rep b2 ((xs @ ys) @ zs)" "b_capacity b1 \<le> b_capacity b2"
    using assms(2) b(2) by (metis writesD length_append add.assoc)
  with b1 show "\<exists>b'. bnd m (\<lambda>_. k) b = Some (Ok () b') \<and> rep b' (xs @ ys @ zs) \<and>
      b_capacity b \<le> b_capacity b'"
    by (auto simp: bnd_Ok)
qed

lemma writes_seqs_Nil [emit]: "writes (seqs []) []"
  by (simp add: writes_ret)

lemma writes_seqs_Cons [emit]:
  "writes m ys \<Longrightarrow> writes (seqs ms) zs \<Longrightarrow> writes (seqs (m # ms)) (ys @ zs)"
  by (simp add: writes_bnd)

lemma writes_cong: "writes m ys \<Longrightarrow> ys = zs \<Longrightarrow> writes m zs"
  by simp

lemma writes_extend_put:
  "unat len = length ys \<Longrightarrow> writes (bnd (buffer_extend len) (\<lambda>_. put_end ys)) ys"
  unfolding writes_def by (metis put_end_writes)

text \<open>
  \<open>fits m ys\<close>: where there is room already, \<open>m\<close> appends \<open>ys\<close> without growing the buffer. An
  operation that reserves first and then stores piece by piece is made of such steps.
\<close>

definition fits :: "(buffer, unit) prog \<Rightarrow> cells \<Rightarrow> bool" where
  "fits m ys \<longleftrightarrow> (\<forall>b xs. rep b xs \<longrightarrow> length xs + length ys \<le> unat (b_capacity b) \<longrightarrow>
     length xs + length ys \<le> limit \<longrightarrow>
     (\<exists>b'. m b = Some (Ok () b') \<and> rep b' (xs @ ys) \<and> b_capacity b' = b_capacity b))"

named_theorems emit_fits \<open>what the steps after a reservation append\<close>

lemma fits_ret [emit_fits]: "fits (ret ()) []"
  by (simp add: fits_def)

lemma fits_put_end [emit_fits]: "fits (put_end ys) ys"
  unfolding fits_def by (metis put_end_rep)

lemma fits_bnd:
  assumes "fits m ys" and "fits k zs"
  shows "fits (bnd m (\<lambda>_. k)) (ys @ zs)"
  unfolding fits_def
proof (intro allI impI)
  fix b xs assume b: "rep b xs" "length xs + length (ys @ zs) \<le> unat (b_capacity b)"
    "length xs + length (ys @ zs) \<le> limit"
  then obtain b1 where b1: "m b = Some (Ok () b1)" "rep b1 (xs @ ys)" "b_capacity b1 = b_capacity b"
    using assms(1)[unfolded fits_def, rule_format, of b xs] by auto
  then obtain b2 where "k b1 = Some (Ok () b2)" "rep b2 ((xs @ ys) @ zs)" "b_capacity b2 = b_capacity b"
    using assms(2)[unfolded fits_def, rule_format, of b1 "xs @ ys"] b(2,3) by auto
  with b1 show "\<exists>b'. bnd m (\<lambda>_. k) b = Some (Ok () b') \<and> rep b' (xs @ ys @ zs) \<and>
      b_capacity b' = b_capacity b"
    by (simp add: bnd_Ok)
qed

lemma fits_seqs_Nil [emit_fits]: "fits (seqs []) []"
  by (simp add: fits_def)

lemma fits_seqs_Cons [emit_fits]:
  "fits m ys \<Longrightarrow> fits (seqs ms) zs \<Longrightarrow> fits (seqs (m # ms)) (ys @ zs)"
  by (simp add: fits_bnd)

lemma fits_extend:
  assumes "fits k ys" and "unat len \<le> length ys"
  shows "fits (bnd (buffer_extend len) (\<lambda>_. k)) ys"
  unfolding fits_def
proof (intro allI impI)
  fix b xs assume b: "rep b xs" "length xs + length ys \<le> unat (b_capacity b)"
    "length xs + length ys \<le> limit"
  have "unat (b_end b + len) = unat (b_end b) + unat len"
    using repD(4)[OF b(1)] b(3) assms(2) by (intro unat_add_small) (simp add: limit_def)
  then have "\<not> b_capacity b < b_end b + len"
    using repD(4)[OF b(1)] b(2) assms(2) by (simp add: word_less_nat_alt)
  then have "buffer_extend len b = Some (Ok () b)" by (rule buffer_extend_stays)
  with b assms(1) show "\<exists>b'. bnd (buffer_extend len) (\<lambda>_. k) b = Some (Ok () b') \<and>
      rep b' (xs @ ys) \<and> b_capacity b' = b_capacity b"
    by (simp add: bnd_Ok fits_def)
qed

lemma writes_extend_fits:
  assumes "fits k ys" and "length ys \<le> unat len" and "unat len \<le> length ys + 16"
  shows "writes (bnd (buffer_extend len) (\<lambda>_. k)) ys"
  unfolding writes_def
proof (intro allI impI)
  fix b xs assume b: "rep b xs" "length xs + length ys \<le> limit"
  then have "length xs + unat len \<le> limit + 16" using assms(3) by simp
  with b(1) obtain b1 where "buffer_extend len b = Some (Ok () b1)" "rep b1 xs"
      "length xs + unat len \<le> unat (b_capacity b1)" "b_capacity b \<le> b_capacity b1"
    by (rule buffer_extend_rep)
  moreover from this(3) have "length xs + length ys \<le> unat (b_capacity b1)"
    using assms(2) by simp
  ultimately show "\<exists>b'. bnd (buffer_extend len) (\<lambda>_. k) b = Some (Ok () b') \<and> rep b' (xs @ ys) \<and>
      b_capacity b \<le> b_capacity b'"
    using assms(1)[unfolded fits_def, rule_format, of b1 xs] b(2) by (auto simp: bnd_Ok)
qed

lemma push_bytes_alt:
  "push_bytes ys = bnd (buffer_extend (word_of_nat (length ys))) (\<lambda>_. put_end ys)"
  by (simp add: push_bytes_def put_end_def)

text \<open>The bytes that a push keeps: all of them unless the buffer was partly consumed and has to grow.\<close>

lemma push_bytes_data:
  assumes "wf_buf b" and "unat (b_end b) + length ys \<le> limit"
  obtains b' where "push_bytes ys b = Some (Ok () b')" and "wf_buf b'"
    and "data b' = (if b_start b = 0 \<or> unat (b_end b) + length ys \<le> unat (b_capacity b) then data b
      else take (length (data b)) (b_contents b)) @ ys"
    and "b_start b' = (if unat (b_end b) + length ys \<le> unat (b_capacity b) then b_start b else 0)"
    and "b_capacity b \<le> b_capacity b'"
proof -
  note w = wf_bufD[OF assms(1)]
  have u: "unat (word_of_nat (length ys) :: u32) = length ys"
    using assms(2) by (simp add: unat_of_nat_small limit_def)
  have sum: "unat (b_end b + word_of_nat (length ys)) = unat (b_end b) + length ys"
    using assms(2) u by (subst unat_add_small) (simp_all add: limit_def)
  have n: "length (data b) = unat (buffer_length b)" using length_data[OF assms(1)] w(5) by simp
  show thesis
  proof (cases "b_capacity b < b_end b + word_of_nat (length ys)")
    case True
    obtain b1 where b1: "buffer_extend (word_of_nat (length ys)) b = Some (Ok () b1)" "wf_buf b1"
        "b_start b1 = 0" "b_end b1 = b_end b - b_start b" "data b1 = take (unat (buffer_length b)) (b_contents b)"
        "unat (b_end b) + unat (word_of_nat (length ys) :: u32) \<le> unat (b_capacity b1)"
        "b_capacity b1 = max (2 * b_capacity b) (b_capacity b + word_of_nat (length ys))"
      by (rule buffer_extend_grows[OF assms(1) _ True]) (use assms(2) u in simp)
    have "unat (b_end b1) + length ys \<le> unat (b_capacity b1)"
      using b1(4,6) u w(1) by (simp add: unat_sub word_le_nat_alt)
    from put_end_data[OF b1(2) this] obtain b2 where b2: "put_end ys b1 = Some (Ok () b2)" "wf_buf b2" "data b2 = data b1 @ ys"
        "b_start b2 = b_start b1" "b_capacity b2 = b_capacity b1"
      by metis
    have "data b = take (length (data b)) (b_contents b)" if "b_start b = 0"
      using that w n by (simp add: data_def)
    then have "data b2 = (if b_start b = 0 \<or> unat (b_end b) + length ys \<le> unat (b_capacity b) then data b
        else take (length (data b)) (b_contents b)) @ ys"
      using b2(3) b1(5) n True sum by (auto simp: word_less_nat_alt)
    moreover have "b_start b2 = (if unat (b_end b) + length ys \<le> unat (b_capacity b) then b_start b else 0)"
      using b1(3) b2(4) True sum by (simp add: word_less_nat_alt)
    moreover have "b_capacity b \<le> b_capacity b2"
      using b1(6) b2(5) True sum u by (simp add: word_less_nat_alt word_le_nat_alt)
    moreover have "push_bytes ys b = Some (Ok () b2)" using b1(1) b2(1) by (simp add: push_bytes_alt bnd_Ok)
    ultimately show thesis using that b2(2) by blast
  next
    case False
    then have "unat (b_end b) + length ys \<le> unat (b_capacity b)" using sum by (simp add: word_less_nat_alt)
    from put_end_data[OF assms(1) this] obtain b2 where b2: "put_end ys b = Some (Ok () b2)" "wf_buf b2" "data b2 = data b @ ys"
        "b_start b2 = b_start b" "b_capacity b2 = b_capacity b"
      by metis
    moreover have "push_bytes ys b = Some (Ok () b2)"
      using b2(1) buffer_extend_stays[OF False] by (simp add: push_bytes_alt bnd_Ok)
    ultimately show thesis using that \<open>unat (b_end b) + length ys \<le> unat (b_capacity b)\<close> by simp
  qed
qed

lemma push_char_alt: "push_char x = push_bytes [Some x]"
  by (simp add: push_char_def push_bytes_def)

lemma writes_push_bytes [emit]: "length ys \<le> limit \<Longrightarrow> writes (push_bytes ys) ys"
  unfolding push_bytes_alt
  by (rule writes_extend_put) (simp add: unat_of_nat_small limit_def)

lemma writes_push_char [emit]: "writes (push_char x) [Some x]"
  unfolding push_char_alt by (rule writes_push_bytes) (simp add: limit_def)

lemma writes_buffer_concat [emit]:
  assumes "wf_buf src"
  shows "writes (buffer_concat src) (data src)"
proof -
  note w = wf_bufD[OF assms]
  have len: "unat (buffer_length src) = length (data src)"
    using w(5) length_data[OF assms] by simp
  have "mem_load (unat (b_start src)) (unat (buffer_length src)) (b_contents src) = Some (data src)"
    using w by (simp add: mem_load_def data_def)
  moreover have "word_of_nat (length (data src)) = buffer_length src"
    by (simp flip: len)
  ultimately have "buffer_concat src =
      bnd (buffer_extend (buffer_length src)) (\<lambda>_. put_end (data src))"
    by (simp add: buffer_concat_def put_end_def Let_def)
  with writes_extend_put[OF len] show ?thesis by simp
qed

end
