(* ===== verification/Vector.thy ===== *)
theory Vector
  imports Buffer
begin

text \<open>
  \<^verbatim>\<open>nfsv4/vector.h\<close>: a vector is a buffer that holds pointers, eight bytes each, in the
  order of the host. The pointers of the program lead to buffers (the components of a
  path), so the heap is the list of the buffers allocated so far and a pointer is the
  position of its buffer counted from 1; 0 is the null pointer.
\<close>

section \<open>The heap of buffers\<close>

type_synonym ptr = u64
type_synonym vector = buffer
type_synonym heap = "buffer list"

definition heap_ptr :: "nat \<Rightarrow> ptr" where
  "heap_ptr k = word_of_nat (Suc k)"

definition heap_alloc :: "buffer \<Rightarrow> (heap, ptr) prog" where
  "heap_alloc b H = Some (Ok (heap_ptr (length H)) (H @ [b]))"

definition deref :: "ptr \<Rightarrow> (heap, buffer) prog" where
  "deref p H = (if p = 0 then Some (Crash Null_pointer)
     else if unat p \<le> length H then Some (Ok (H ! (unat p - 1)) H)
     else Some (Crash Out_of_bounds))"

definition heap_modify :: "ptr \<Rightarrow> (buffer, 'a) prog \<Rightarrow> (heap, 'a) prog" where
  "heap_modify p m = bnd (deref p) (\<lambda>_.
     zoom (\<lambda>H. H ! (unat p - 1)) (\<lambda>b H. H[unat p - 1 := b]) m)"

section \<open>Vectors of pointers\<close>

definition vector_get :: "u32 \<Rightarrow> (vector, ptr) prog" where
  "vector_get offset v =
     (let base = b_start v + offset * 8 in
      if unat base + 8 > unat (b_end v) then
        Some (Crash (Panic ''out of bounds vector reference''))
      else bnd (buf_bytes (unat base) 8) (\<lambda>bs. ret (of_le64 bs)) v)"

definition vector_length :: "vector \<Rightarrow> u32" where
  "vector_length v = buffer_length v div 8"

definition allocate_vector :: "u32 \<Rightarrow> vector" where
  "allocate_vector len = allocate_buffer (len * 8)"

definition vector_push :: "ptr \<Rightarrow> (vector, unit) prog" where
  "vector_push i = seqs
     [buffer_extend 8,
      \<lambda>v. buf_store (unat (b_end v)) (cells_of (le64 i)) v,
      modify (\<lambda>v. v\<lparr>b_end := b_end v + 8\<rparr>)]"

definition vector_pop :: "(vector, ptr) prog" where
  "vector_pop v =
     (if b_end v - b_start v < 8 then
        Some (Crash (Panic ''out of bounds vector reference''))
      else bnd (buf_bytes (unat (b_start v)) 8) (\<lambda>bs.
             bnd (modify (\<lambda>v. v\<lparr>b_start := b_start v + 8\<rparr>)) (\<lambda>_. ret (of_le64 bs))) v)"

text \<open>\<^verbatim>\<open>vector_foreach(i, v)\<close>: the elements from the first to the last, read one by one.\<close>

fun vector_elems :: "vector \<Rightarrow> nat \<Rightarrow> nat \<Rightarrow> ('s, ptr list) prog" where
  "vector_elems v i 0 = ret []"
| "vector_elems v i (Suc n) =
     bnd (on_local v (vector_get (word_of_nat i))) (\<lambda>(p, _).
     bnd (vector_elems v (Suc i) n) (\<lambda>ps. ret (p # ps)))"

definition vector_foreach :: "vector \<Rightarrow> ('s, ptr list) prog" where
  "vector_foreach v = vector_elems v 0 (unat (vector_length v))"

section \<open>Splitting and joining\<close>

text \<open>
  \<^verbatim>\<open>split\<close>: the body of its loop over the bytes; \<open>result\<close> and \<open>each\<close> are the two locals.
\<close>

fun split_loop :: "u8 \<Rightarrow> u8 list \<Rightarrow> vector \<Rightarrow> ptr \<Rightarrow> (heap, vector \<times> ptr) prog" where
  "split_loop divider [] result each = ret (result, each)"
| "split_loop divider (i # is) result each =
     (if i = divider then
        bnd (on_local result (vector_push each)) (\<lambda>(_, result').
        bnd (heap_alloc (allocate_buffer 10)) (\<lambda>each'.
        split_loop divider is result' each'))
      else
        bnd (heap_modify each (push_char i)) (\<lambda>_.
        split_loop divider is result each))"

definition split :: "buffer \<Rightarrow> u8 \<Rightarrow> (heap, vector) prog" where
  "split source divider =
     bnd (on_local source forchar) (\<lambda>(is, _).
     bnd (heap_alloc (allocate_buffer 10)) (\<lambda>each0.
     bnd (split_loop divider is (allocate_vector 10) each0) (\<lambda>(result, each).
     bnd (deref each) (\<lambda>b.
       if buffer_length b > 0 then
         bnd (on_local result (vector_push each)) (\<lambda>(_, result'). ret result')
       else ret result))))"

text \<open>\<^verbatim>\<open>join\<close>: \<open>out\<close> is the local buffer, \<open>i\<close> the loop counter.\<close>

fun join_loop :: "vector \<Rightarrow> u8 \<Rightarrow> nat \<Rightarrow> nat \<Rightarrow> buffer \<Rightarrow> (heap, buffer) prog" where
  "join_loop source between i 0 out = ret out"
| "join_loop source between i (Suc n) out =
     bnd (on_local out (if i \<noteq> 0 then push_char between else ret ())) (\<lambda>(_, out1).
     bnd (on_local source (vector_get (word_of_nat i))) (\<lambda>(p, _).
     bnd (deref p) (\<lambda>b.
     bnd (on_local out1 (buffer_concat b)) (\<lambda>(_, out2).
     join_loop source between (Suc i) n out2))))"

definition join :: "vector \<Rightarrow> u8 \<Rightarrow> (heap, buffer) prog" where
  "join source between =
     join_loop source between 0 (unat (vector_length source)) (allocate_buffer 100)"

section \<open>What a vector holds\<close>

text \<open>\<open>vrep v ps\<close>: \<open>v\<close> holds the pointers \<open>ps\<close>.\<close>

definition vrep :: "vector \<Rightarrow> ptr list \<Rightarrow> bool" where
  "vrep v ps \<longleftrightarrow> wf_buf v \<and> data v = cells_of (concat (map le64 ps))"

text \<open>
  \<open>vspace v n\<close>: \<open>n\<close> more pointers fit below the limit, and either nothing was popped or they fit
  without growing the vector, which would bring popped ones back. \<open>vroom v n\<close>: nothing was popped
  and \<open>n\<close> more pointers fit below the limit.
\<close>

definition vspace :: "vector \<Rightarrow> nat \<Rightarrow> bool" where
  "vspace v n \<longleftrightarrow> unat (b_end v) + 8 * n \<le> limit \<and> (b_start v = 0 \<or> unat (b_end v) + 8 * n \<le> unat (b_capacity v))"

definition vroom :: "vector \<Rightarrow> nat \<Rightarrow> bool" where
  "vroom v n \<longleftrightarrow> b_start v = 0 \<and> unat (b_end v) + 8 * n \<le> limit"

lemma length_concat_le64 [simp]: "length (concat (map le64 ps)) = 8 * length ps"
  by (induction ps) simp_all

lemma concat_le64_nth:
  "i < length ps \<Longrightarrow> take 8 (drop (8 * i) (concat (map le64 ps))) = le64 (ps ! i)"
proof (induction ps arbitrary: i)
  case Nil
  then show ?case by simp
next
  case (Cons p ps)
  then show ?case by (cases i) simp_all
qed

lemma vrepD:
  assumes "vrep v ps"
  shows "wf_buf v" and "data v = cells_of (concat (map le64 ps))"
    and "unat (b_end v) = unat (b_start v) + 8 * length ps"
    and "unat (buffer_length v) = 8 * length ps"
proof -
  show w: "wf_buf v" and d: "data v = cells_of (concat (map le64 ps))"
    using assms by (simp_all add: vrep_def)
  have "length (data v) = 8 * length ps" by (simp add: d)
  with length_data[OF w] wf_bufD[OF w]
  show "unat (b_end v) = unat (b_start v) + 8 * length ps"
    and "unat (buffer_length v) = 8 * length ps" by simp_all
qed

text \<open>Eight bytes of the live data, read at their offset in the contents.\<close>

lemma buf_bytes_data:
  assumes "wf_buf b" and "data b = cells_of bs" and "k + n \<le> length bs"
  shows "buf_bytes (unat (b_start b) + k) n b = Some (Ok (take n (drop k bs)) b)"
proof -
  note w = wf_bufD[OF assms(1)]
  have len: "length bs = unat (b_end b) - unat (b_start b)"
    using length_data[OF assms(1)] assms(2) by simp
  have "take n (drop (unat (b_start b) + k) (b_contents b)) = take n (drop k (data b))"
    using assms(3) len by (simp add: data_def drop_take add.commute)
  then have "take n (drop (unat (b_start b) + k) (b_contents b)) = cells_of (take n (drop k bs))"
    using assms(2) by (simp add: take_map drop_map)
  moreover have "unat (b_start b) + k + n \<le> length (b_contents b)"
    using assms(3) len w by simp
  ultimately show ?thesis
    by (simp add: buf_bytes_def buf_load_def mem_load_def bnd_def)
qed

lemma unat_vector_length: "vrep v ps \<Longrightarrow> unat (vector_length v) = length ps"
  using vrepD(4)[of v ps] by (simp add: vector_length_def unat_div_distrib)

lemma unat_mult8_small: "n < 2 ^ 28 \<Longrightarrow> unat (word_of_nat n * 8 :: u32) = 8 * n"
  by (simp add: unat_word_ariths unat_of_nat)

lemma vrep_length_bound: "vrep v ps \<Longrightarrow> unat (b_start v) + 8 * length ps < 2 ^ 31"
  using vrepD(3)[of v ps] wf_bufD[of v] vrepD(1)[of v ps] by simp

lemma unat_elem_offset:
  assumes "vrep v ps" and "i \<le> length ps"
  shows "unat (b_start v + word_of_nat i * 8) = unat (b_start v) + 8 * i"
proof -
  have b: "unat (b_start v) + 8 * length ps < 2 ^ 31" using assms(1) by (rule vrep_length_bound)
  then have "unat (word_of_nat i * 8 :: u32) = 8 * i"
    using assms(2) by (intro unat_mult8_small) simp
  with b assms(2) show ?thesis by (subst unat_add_small) simp_all
qed

lemma vector_get_ok:
  assumes "vrep v ps" and "i < length ps"
  shows "vector_get (word_of_nat i) v = Some (Ok (ps ! i) v)"
proof -
  note v = vrepD[OF assms(1)]
  have off: "unat (b_start v + word_of_nat i * 8) = unat (b_start v) + 8 * i"
    using assms by (intro unat_elem_offset) auto
  have "buf_bytes (unat (b_start v) + 8 * i) 8 v = Some (Ok (le64 (ps ! i)) v)"
    using buf_bytes_data[OF v(1,2), of "8 * i" 8] assms(2) by (simp add: concat_le64_nth)
  with off v(3) assms(2) show ?thesis
    by (simp add: vector_get_def Let_def bnd_def le64.dec_enc)
qed

lemma vector_get_end:
  assumes "vrep v ps"
  shows "vector_get (word_of_nat (length ps)) v =
    Some (Crash (Panic ''out of bounds vector reference''))"
  using unat_elem_offset[OF assms order_refl] vrepD(3)[OF assms]
  by (simp add: vector_get_def Let_def)

lemma vrep_empty: "unat n < 2 ^ 20 \<Longrightarrow> vrep (allocate_vector n) []"
proof -
  assume "unat n < 2 ^ 20"
  then have "unat (n * 8) < 2 ^ 31" by (simp add: unat_word_ariths)
  then show ?thesis using rep_allocate[of "n * 8"] by (simp add: vrep_def allocate_vector_def rep_def)
qed

lemma vector_push_space:
  assumes "vrep v ps" and "vspace v (Suc n)"
  obtains v' where "vector_push p v = Some (Ok () v')" and "vrep v' (ps @ [p])" and "vspace v' n"
    and "b_start v = 0 \<Longrightarrow> b_start v' = 0"
proof -
  note v = vrepD[OF assms(1)]
  have push: "vector_push p = push_bytes (cells_of (le64 p))"
    by (simp add: vector_push_def push_bytes_def)
  have b: "unat (b_end v) + length (cells_of (le64 p)) \<le> limit" using assms(2) by (simp add: vspace_def)
  have c: "b_start v = 0 \<or> unat (b_end v) + length (cells_of (le64 p)) \<le> unat (b_capacity v)"
    using assms(2) by (auto simp: vspace_def)
  obtain v' where v': "push_bytes (cells_of (le64 p)) v = Some (Ok () v')" "wf_buf v'"
      "data v' = (if b_start v = 0 \<or> unat (b_end v) + length (cells_of (le64 p)) \<le> unat (b_capacity v) then data v
        else take (length (data v)) (b_contents v)) @ cells_of (le64 p)" 
      "b_start v' = (if unat (b_end v) + length (cells_of (le64 p)) \<le> unat (b_capacity v) then b_start v else 0)"
      "b_capacity v \<le> b_capacity v'"
    by (rule push_bytes_data[OF v(1) b])
  have rep: "vrep v' (ps @ [p])" using v'(2,3) c v(2) by (simp add: vrep_def)
  moreover have "vspace v' n"
    using assms(2) vrepD(3)[OF assms(1)] vrepD(3)[OF rep] v'(4,5)
    by (auto simp: vspace_def word_le_nat_alt split: if_splits)
  ultimately show thesis using that v'(1,4) push by simp
qed

lemma vector_push_ok:
  assumes "vrep v ps" and "vroom v (Suc n)"
  obtains v' where "vector_push p v = Some (Ok () v')" and "vrep v' (ps @ [p])" and "vroom v' n"
proof -
  have "vspace v (Suc n)" "b_start v = 0" using assms(2) by (simp_all add: vroom_def vspace_def)
  with vector_push_space[OF assms(1) this(1)] that show thesis by (metis vroom_def vspace_def)
qed

lemma vector_pop_ok:
  assumes "vrep v (p # ps)"
  obtains v' where "vector_pop v = Some (Ok p v')" and "vrep v' ps"
    and "b_start v' = b_start v + 8" and "b_contents v' = b_contents v"
proof -
  note v = vrepD[OF assms] and w = wf_bufD[OF vrepD(1)[OF assms]]
  let ?v' = "v\<lparr>b_start := b_start v + 8\<rparr>"
  have "buf_bytes (unat (b_start v)) 8 v = Some (Ok (le64 p) v)"
    using buf_bytes_data[OF v(1,2), of 0 8] by simp
  moreover have "\<not> b_end v - b_start v < 8"
    using v(4) by (simp add: buffer_length_def word_less_nat_alt)
  ultimately have "vector_pop v = Some (Ok p ?v')"
    by (simp add: vector_pop_def bnd_def le64.dec_enc)
  moreover have s: "unat (b_start v + 8) = unat (b_start v) + 8"
    using w v(3) by (subst unat_add_small) simp_all
  moreover have "vrep ?v' ps"
  proof -
    have "data ?v' = drop 8 (data v)"
      using s by (simp add: data_def drop_take add.commute)
    with v(1,3) w s show ?thesis
      by (simp add: vrep_def wf_buf_def v(2) word_le_nat_alt)
  qed
  ultimately show thesis using that by simp
qed

lemma vector_pop_empty:
  "vrep v [] \<Longrightarrow> vector_pop v = Some (Crash (Panic ''out of bounds vector reference''))"
  using vrepD(4)[of v "[]"] by (simp add: vector_pop_def buffer_length_def unat_eq_0)

section \<open>First in, first out\<close>

text \<open>
  The contract the users of a vector rely on: \<^verbatim>\<open>vector_push\<close> adds behind, \<^verbatim>\<open>vector_pop\<close>
  takes the oldest, both only while there is room and something to take.
\<close>

locale fifo =
  fixes holds :: "'v \<Rightarrow> 'p list \<Rightarrow> bool"
    and room :: "'v \<Rightarrow> nat \<Rightarrow> bool"
    and push :: "'p \<Rightarrow> ('v, unit) prog"
    and pop :: "('v, 'p) prog"
  assumes push: "holds v ps \<Longrightarrow> room v (Suc n) \<Longrightarrow>
      \<exists>v'. push p v = Some (Ok () v') \<and> holds v' (ps @ [p]) \<and> room v' n"
    and pop: "holds v (p # ps) \<Longrightarrow> \<exists>v'. pop v = Some (Ok p v') \<and> holds v' ps"
    and pop_empty: "holds v [] \<Longrightarrow> \<exists>m. pop v = Some (Crash (Panic m))"
begin

lemma push_all:
  "holds v ps \<Longrightarrow> room v (length qs + n) \<Longrightarrow>
   \<exists>v'. seqs (map push qs) v = Some (Ok () v') \<and> holds v' (ps @ qs) \<and> room v' n"
proof (induction qs arbitrary: v ps)
  case Nil
  then show ?case by simp
next
  case (Cons q qs)
  then obtain v1 where v1: "push q v = Some (Ok () v1)" "holds v1 (ps @ [q])"
      "room v1 (length qs + n)"
    using push[of v ps "length qs + n" q] by auto
  from Cons.IH[OF v1(2,3)] v1(1) show ?case by (auto simp: bnd_Ok)
qed

lemma collect_pop:
  "holds v (ps @ qs) \<Longrightarrow> \<exists>v'. collect (length ps) pop v = Some (Ok ps v') \<and> holds v' qs"
proof (induction ps arbitrary: v)
  case Nil
  then show ?case by simp
next
  case (Cons p ps)
  then obtain v1 where v1: "pop v = Some (Ok p v1)" "holds v1 (ps @ qs)"
    using pop[of v p "ps @ qs"] by auto
  from Cons.IH[OF v1(2)] v1(1) show ?case by (auto simp: bnd_Ok)
qed

lemma push_then_pop:
  assumes "holds v ps" and "room v (length qs)"
  shows "\<exists>v' v''. seqs (map push qs) v = Some (Ok () v') \<and>
    collect (length (ps @ qs)) pop v' = Some (Ok (ps @ qs) v'') \<and> (\<exists>m. pop v'' = Some (Crash (Panic m)))"
proof -
  obtain v' where v': "seqs (map push qs) v = Some (Ok () v')" "holds v' (ps @ qs)"
    using push_all[of v ps qs 0] assms by auto
  obtain v'' where "collect (length (ps @ qs)) pop v' = Some (Ok (ps @ qs) v'')" "holds v'' []"
    using collect_pop[of v' "ps @ qs" "[]"] v'(2) by auto
  with v'(1) pop_empty show ?thesis by blast
qed

end

interpretation vq: fifo vrep vspace vector_push vector_pop
proof unfold_locales
  fix v ps n p
  assume "vrep v ps" and "vspace v (Suc n)"
  then show "\<exists>v'. vector_push p v = Some (Ok () v') \<and> vrep v' (ps @ [p]) \<and> vspace v' n"
    by (metis vector_push_space)
qed (metis vector_pop_ok, metis vector_pop_empty)

lemma vector_elems_ok:
  assumes "vrep v ps"
  shows "i + n \<le> length ps \<Longrightarrow> vector_elems v i n s = Some (Ok (take n (drop i ps)) s)"
proof (induction n arbitrary: i s)
  case 0
  then show ?case by simp
next
  case (Suc n)
  then have i: "i < length ps" and n: "Suc i + n \<le> length ps" by simp_all
  have "vector_get (word_of_nat i) v = Some (Ok (ps ! i) v)"
    using assms i by (rule vector_get_ok)
  moreover have "take (Suc n) (drop i ps) = ps ! i # take n (drop (Suc i) ps)"
    using i by (simp add: Cons_nth_drop_Suc[symmetric])
  ultimately show ?case
    using Suc.IH[OF n] by (simp add: bnd_def on_local_def)
qed

lemma vector_foreach_ok: "vrep v ps \<Longrightarrow> vector_foreach v s = Some (Ok ps s)"
  by (simp add: vector_foreach_def unat_vector_length vector_elems_ok)

end
