(* ===== verification/Paths.thy ===== *)
theory Paths
  imports Vector
begin

text \<open>
  What \<^verbatim>\<open>split\<close> and \<^verbatim>\<open>join\<close> of \<^verbatim>\<open>nfsv4/vector.h\<close> compute, as functions on byte lists, and
  the proofs that they do. A path of the client is a vector of pointers to its
  components: \<open>path_of H v comps\<close>.
\<close>

section \<open>Specification\<close>

text \<open>
  The components between the dividers. Empty ones are kept, except that nothing follows a
  divider at the very end.
\<close>

function split_spec :: "u8 \<Rightarrow> u8 list \<Rightarrow> u8 list list" where
  "split_spec d xs =
     (if xs = [] then []
      else takeWhile (\<lambda>x. x \<noteq> d) xs # split_spec d (drop 1 (dropWhile (\<lambda>x. x \<noteq> d) xs)))"
  by pat_completeness auto
termination
proof (relation "measure (\<lambda>(d, xs). length xs)", goal_cases)
  case 1
  show ?case by simp
next
  case (2 d xs)
  then have "length (drop 1 (dropWhile (\<lambda>x. x \<noteq> d) xs)) < length xs"
    using length_dropWhile_le[of "\<lambda>x. x \<noteq> d" xs] by (cases xs) auto
  then show ?case by simp
qed

declare split_spec.simps [simp del]

fun join_spec :: "u8 \<Rightarrow> u8 list list \<Rightarrow> u8 list" where
  "join_spec d [] = []"
| "join_spec d [x] = x"
| "join_spec d (x # y # ys) = x @ d # join_spec d (y # ys)"

text \<open>The loop of \<^verbatim>\<open>split\<close>: the finished components and the one being read.\<close>

fun fields :: "u8 \<Rightarrow> u8 list \<Rightarrow> u8 list \<Rightarrow> u8 list list" where
  "fields d acc [] = [acc]"
| "fields d acc (x # xs) = (if x = d then acc # fields d [] xs else fields d (acc @ [x]) xs)"

definition drop_last_empty :: "'a list list \<Rightarrow> 'a list list" where
  "drop_last_empty xs = (if last xs = [] then butlast xs else xs)"

lemma fields_not_Nil [simp]: "fields d acc xs \<noteq> []"
  by (induction d acc xs rule: fields.induct) simp_all

lemma fields_split_spec:
  "drop_last_empty (fields d acc xs) =
     (if acc @ xs = [] then []
      else (acc @ takeWhile (\<lambda>x. x \<noteq> d) xs) # split_spec d (drop 1 (dropWhile (\<lambda>x. x \<noteq> d) xs)))"
proof (induction d acc xs rule: fields.induct)
  case (1 d acc)
  then show ?case by (simp add: drop_last_empty_def split_spec.simps)
next
  case (2 d acc x xs)
  show ?case
  proof (cases "x = d")
    case True
    have "drop_last_empty (acc # fields d [] xs) = acc # drop_last_empty (fields d [] xs)"
      by (simp add: drop_last_empty_def)
    with 2(1)[OF True] True show ?thesis by (simp add: split_spec.simps[of d xs])
  next
    case False
    with 2(2) show ?thesis by simp
  qed
qed

lemma fields_eq_split_spec: "drop_last_empty (fields d [] xs) = split_spec d xs"
  by (simp add: fields_split_spec split_spec.simps[of d xs])

lemma join_fields: "join_spec d (fields d acc xs) = acc @ xs"
proof (induction d acc xs rule: fields.induct)
  case (1 d acc)
  then show ?case by simp
next
  case (2 d acc x xs)
  then show ?case
    by (cases "fields d [] xs") (auto simp: neq_Nil_conv)
qed

lemma fields_last_nonempty: "acc @ xs \<noteq> [] \<Longrightarrow> last (acc @ xs) \<noteq> d \<Longrightarrow> last (fields d acc xs) \<noteq> []"
proof (induction d acc xs rule: fields.induct)
  case (1 d acc)
  then show ?case by simp
next
  case (2 d acc x xs)
  then show ?case by (cases "xs = []") auto
qed

lemma fields_snoc: "fields d acc (ys @ [d]) = fields d acc ys @ [[]]"
  by (induction d acc ys rule: fields.induct) simp_all

lemma join_split_spec:
  "join_spec d (split_spec d xs) = (if xs \<noteq> [] \<and> last xs = d then butlast xs else xs)"
proof (cases xs rule: rev_cases)
  case (snoc ys x)
  show ?thesis
  proof (cases "x = d")
    case True
    then have "drop_last_empty (fields d [] xs) = fields d [] ys"
      using snoc fields_snoc[of d "[]" ys] by (simp add: drop_last_empty_def)
    then show ?thesis using snoc True fields_eq_split_spec[of d xs] join_fields[of d "[]" ys] by simp
  next
    case False
    then have "drop_last_empty (fields d [] xs) = fields d [] xs"
      using fields_last_nonempty[of "[]" xs d] snoc by (simp add: drop_last_empty_def)
    then show ?thesis using snoc False fields_eq_split_spec[of d xs] join_fields[of d "[]" xs] by simp
  qed
qed (simp add: split_spec.simps)

section \<open>Paths in the heap\<close>

abbreviation holds_bytes :: "buffer \<Rightarrow> u8 list \<Rightarrow> bool" where
  "holds_bytes b bs \<equiv> wf_buf b \<and> data b = cells_of bs"

definition path_of :: "heap \<Rightarrow> vector \<Rightarrow> u8 list list \<Rightarrow> bool" where
  "path_of H v comps \<longleftrightarrow> (\<exists>ps. vrep v ps \<and>
     list_all2 (\<lambda>p bs. \<exists>b. deref p H = Some (Ok b H) \<and> holds_bytes b bs) ps comps)"

lemma unat_heap_ptr: "Suc k < 2 ^ 64 \<Longrightarrow> unat (heap_ptr k) = Suc k"
  by (simp add: heap_ptr_def unat_of_nat del: of_nat_Suc)

lemma heap_ptr_not_null: "Suc k < 2 ^ 64 \<Longrightarrow> heap_ptr k \<noteq> 0"
  using unat_heap_ptr[of k] by auto

lemma deref_heap_ptr:
  "k < length H \<Longrightarrow> Suc k < 2 ^ 64 \<Longrightarrow> deref (heap_ptr k) H = Some (Ok (H ! k) H)"
  by (simp add: deref_def heap_ptr_not_null unat_heap_ptr)

lemma heap_modify_last:
  assumes "m e = Some (Ok a e')" and "Suc (length H) < 2 ^ 64"
  shows "heap_modify (heap_ptr (length H)) m (H @ [e]) = Some (Ok a (H @ [e']))"
proof -
  have "deref (heap_ptr (length H)) (H @ [e]) = Some (Ok e (H @ [e]))"
    using deref_heap_ptr[of "length H" "H @ [e]"] assms(2) by simp
  with assms show ?thesis
    by (simp add: heap_modify_def bnd_def zoom_def unat_heap_ptr)
qed

text \<open>
  The invariant of the loop: the component being read is the last buffer allocated, the
  finished ones stand before it in order, and \<open>result\<close> points to them.
\<close>

lemma split_loop_ok:
  assumes "vrep result ps" and "vroom result (length is + n)" and "rep e (cells_of acc)"
    and "length acc + length is \<le> limit" and "Suc (length H + length is) < 2 ^ 64"
  shows "\<exists>result' Bs. split_loop d is result (heap_ptr (length H)) (H @ [e]) =
        Some (Ok (result', heap_ptr (length H + length Bs - 1)) (H @ Bs)) \<and>
      list_all2 (\<lambda>b seg. rep b (cells_of seg)) Bs (fields d acc is) \<and>
      vrep result' (ps @ map heap_ptr [length H ..< length H + length Bs - 1]) \<and> vroom result' n"
  using assms
proof (induction "is" arbitrary: result ps e acc H)
  case Nil
  then show ?case by (intro exI[of _ result] exI[of _ "[e]"]) simp
next
  case (Cons i "is")
  show ?case
  proof (cases "i = d")
    case True
    let ?H = "H @ [e]"
    obtain r1 where r1: "vector_push (heap_ptr (length H)) result = Some (Ok () r1)"
        "vrep r1 (ps @ [heap_ptr (length H)])" "vroom r1 (length is + n)"
      using Cons.prems(1,2) by (metis vector_push_ok length_Cons add_Suc)
    have "rep (allocate_buffer 10) (cells_of [])" using rep_allocate[of 10] by simp
    then obtain r' Bs where IH: "split_loop d is r1 (heap_ptr (length ?H)) (?H @ [allocate_buffer 10]) =
          Some (Ok (r', heap_ptr (length ?H + length Bs - 1)) (?H @ Bs))"
        "list_all2 (\<lambda>b seg. rep b (cells_of seg)) Bs (fields d [] is)"
        "vrep r' ((ps @ [heap_ptr (length H)]) @ map heap_ptr [length ?H ..< length ?H + length Bs - 1])"
        "vroom r' n"
      using Cons.IH[OF r1(2,3), of "allocate_buffer 10" "[]" ?H] Cons.prems(4,5) by auto
    have "split_loop d (i # is) result (heap_ptr (length H)) ?H =
        Some (Ok (r', heap_ptr (length H + length (e # Bs) - 1)) (H @ e # Bs))"
      using r1(1) IH(1) True by (simp add: bnd_def on_local_def heap_alloc_def)
    moreover have "Bs \<noteq> []" using IH(2) by auto
    then have "heap_ptr (length H) # map heap_ptr [length ?H ..< length ?H + length Bs - 1] =
        map heap_ptr [length H ..< length H + length (e # Bs) - 1]"
      by (simp add: upt_rec[of "length H"])
    ultimately show ?thesis
      using IH(2,3,4) Cons.prems(3) True
      by (intro exI[of _ r'] exI[of _ "e # Bs"]) simp
  next
    case False
    obtain e' where e': "push_char i e = Some (Ok () e')" "rep e' (cells_of (acc @ [i]))"
      using writesD[OF writes_push_char Cons.prems(3), of i] Cons.prems(4) by auto
    have "heap_modify (heap_ptr (length H)) (push_char i) (H @ [e]) = Some (Ok () (H @ [e']))"
      using e'(1) Cons.prems(5) by (intro heap_modify_last) simp_all
    moreover have "vroom result (length is + n)"
      using Cons.prems(2) by (simp add: vroom_def)
    ultimately show ?thesis
      using Cons.IH[OF Cons.prems(1), of e' "acc @ [i]" H] e'(2) Cons.prems(4,5) False
      by (simp add: bnd_def)
  qed
qed

lemma list_all2_heap_ptrs:
  assumes "list_all2 (\<lambda>b seg. rep b (cells_of seg)) Bs segs" and "Suc (length H + length Bs) < 2 ^ 64"
  shows "list_all2 (\<lambda>p bs. \<exists>b. deref p (H @ Bs) = Some (Ok b (H @ Bs)) \<and> rep b (cells_of bs))
    (map heap_ptr [length H ..< length H + length Bs]) segs"
proof (rule list_all2_all_nthI)
  show "length (map heap_ptr [length H ..< length H + length Bs]) = length segs"
    using assms(1) by (simp add: list_all2_lengthD)
  fix k assume k: "k < length (map heap_ptr [length H ..< length H + length Bs])"
  then have "deref (heap_ptr (length H + k)) (H @ Bs) = Some (Ok (Bs ! k) (H @ Bs))"
    using deref_heap_ptr[of "length H + k" "H @ Bs"] assms(2) by simp
  moreover have "rep (Bs ! k) (cells_of (segs ! k))"
    using assms(1) k by (auto dest: list_all2_nthD)
  ultimately show "\<exists>b. deref (map heap_ptr [length H ..< length H + length Bs] ! k) (H @ Bs) =
      Some (Ok b (H @ Bs)) \<and> rep b (cells_of (segs ! k))"
    using k by auto
qed

lemma forchar_ok: "holds_bytes b bs \<Longrightarrow> forchar b = Some (Ok bs b)"
  using buf_bytes_data[of b bs 0 "length bs"] length_data[of b] wf_bufD(5)[of b]
  by (simp add: forchar_def)

lemma rep_nonempty: "rep b (cells_of bs) \<Longrightarrow> buffer_length b > 0 \<longleftrightarrow> bs \<noteq> []"
  using repD[of b "cells_of bs"] by (auto simp: buffer_length_def word_less_nat_alt)

text \<open>The components are new buffers, one for each pointer, in the order they were made.\<close>

definition fresh_path :: "heap \<Rightarrow> heap \<Rightarrow> vector \<Rightarrow> u8 list list \<Rightarrow> bool" where
  "fresh_path H H' v comps \<longleftrightarrow> vrep v (map heap_ptr [length H ..< length H + length comps]) \<and>
     list_all2 (\<lambda>p bs. \<exists>b. deref p (H @ H') = Some (Ok b (H @ H')) \<and> rep b (cells_of bs))
       (map heap_ptr [length H ..< length H + length comps]) comps"

lemma fresh_path_of: "fresh_path H H' v comps \<Longrightarrow> path_of (H @ H') v comps"
  unfolding fresh_path_def path_of_def by (fastforce elim: list_all2_mono dest: repD)

lemma split_fresh:
  assumes "forchar source = Some (Ok bs source)" and "8 * (length bs + 1) \<le> limit"
    and "length H + length bs + 2 < 2 ^ 64"
  shows "\<exists>v H'. split source d H = Some (Ok v (H @ H')) \<and> b_start v = 0 \<and>
    length (split_spec d bs) \<le> length H' \<and> fresh_path H H' v (split_spec d bs)"
proof -
  let ?a = "allocate_vector 10"
  have a: "vrep ?a []" "vroom ?a (length bs + 1)"
    by (rule vrep_empty, simp) (use assms(2) in \<open>simp add: vroom_def allocate_vector_def allocate_buffer_def\<close>)
  have e: "rep (allocate_buffer 10) (cells_of [])" using rep_allocate[of 10] by simp
  obtain r Bs where r: "split_loop d bs ?a (heap_ptr (length H)) (H @ [allocate_buffer 10]) =
        Some (Ok (r, heap_ptr (length H + length Bs - 1)) (H @ Bs))"
      "list_all2 (\<lambda>b seg. rep b (cells_of seg)) Bs (fields d [] bs)"
      "vrep r (map heap_ptr [length H ..< length H + length Bs - 1])" "vroom r (Suc 0)"
    using split_loop_ok[OF a e, of H d] assms(2,3) by auto
  have n: "Bs \<noteq> []" "length Bs = length (fields d [] bs)"
    using r(2) by (auto dest: list_all2_lengthD)
  have "length (fields d acc xs) \<le> Suc (length xs)" for acc xs
    by (induction d acc xs rule: fields.induct) auto
  then have small: "Suc (length H + length Bs) < 2 ^ 64" using n(2) assms(3)
    by (metis add_Suc_right add_le_cancel_left add_2_eq_Suc' le_less_trans Suc_le_mono)
  let ?ptrs = "map heap_ptr [length H ..< length H + length Bs]"
  let ?last = "heap_ptr (length H + length Bs - 1)"
  have ptrs: "?ptrs = map heap_ptr [length H ..< length H + length Bs - 1] @ [?last]"
    using n(1) by (cases Bs rule: rev_cases) simp_all
  note all = list_all2_heap_ptrs[OF r(2) small]
  have lst: "deref ?last (H @ Bs) = Some (Ok (last Bs) (H @ Bs))"
    using deref_heap_ptr[of "length H + length Bs - 1" "H @ Bs"] small n(1)
    by (cases Bs rule: rev_cases) (simp_all add: nth_append)
  have "rep (last Bs) (cells_of (last (fields d [] bs)))"
    using r(2) n by (metis fields_not_Nil last_conv_nth length_greater_0_conv list_all2_nthD diff_less zero_less_one)
  note last_len = rep_nonempty[OF this]
  have run: "split source d H = bnd (deref ?last) (\<lambda>b.
       if buffer_length b > 0 then
         bnd (on_local r (vector_push ?last)) (\<lambda>(_, result'). ret result')
       else ret r) (H @ Bs)"
    using assms(1) r(1)
    by (simp add: split_def bnd_def on_local_def heap_alloc_def del: One_nat_def)
  show ?thesis
  proof (cases "last (fields d [] bs) = []")
    case True
    have l: "length H + length (butlast (fields d [] bs)) = length H + length Bs - 1"
      using n(1) by (simp add: n(2)[symmetric] Suc_le_eq)
    have "fresh_path H Bs r (butlast (fields d [] bs))"
      unfolding fresh_path_def l using r(3) list_all2_takeI[OF all, of "length Bs - 1"] n(2) ptrs
      by (simp add: butlast_conv_take)
    with run lst last_len True r(4) n(2) show ?thesis
      by (intro exI[of _ r] exI[of _ Bs])
        (simp add: bnd_Ok vroom_def drop_last_empty_def flip: fields_eq_split_spec)
  next
    case False
    obtain r' where r': "vector_push ?last r = Some (Ok () r')" "vrep r' ?ptrs" "vroom r' 0"
      using r(3,4) ptrs by (metis vector_push_ok)
    have "fresh_path H Bs r' (fields d [] bs)"
      unfolding fresh_path_def using r'(2) all n(2) by simp
    with run lst last_len False r' n(2) show ?thesis
      by (intro exI[of _ r'] exI[of _ Bs])
        (simp add: bnd_def on_local_def vroom_def drop_last_empty_def flip: fields_eq_split_spec)
  qed
qed

lemma split_ok:
  assumes "holds_bytes source bs" and "8 * (length bs + 1) \<le> limit"
    and "length H + length bs + 2 < 2 ^ 64"
  shows "\<exists>v H'. split source d H = Some (Ok v (H @ H')) \<and> b_start v = 0 \<and>
    path_of (H @ H') v (split_spec d bs)"
  using split_fresh[OF forchar_ok[OF assms(1)] assms(2,3), of d] fresh_path_of by blast

section \<open>Joining\<close>

lemma join_spec_Cons: "join_spec d (x # xs) = x @ concat (map ((#) d) xs)"
  by (induction xs arbitrary: x) simp_all

definition join_from :: "u8 \<Rightarrow> nat \<Rightarrow> u8 list list \<Rightarrow> u8 list" where
  "join_from d i cs = (if i = 0 then join_spec d cs else concat (map ((#) d) cs))"

lemma join_from_simps:
  "join_from d i [] = []"
  "join_from d i (c # cs) = (if i = 0 then [] else [d]) @ c @ join_from d (Suc i) cs"
  by (simp_all add: join_from_def join_spec_Cons)

lemma join_loop_ok:
  assumes "vrep v ps"
  shows "list_all2 (\<lambda>p bs. \<exists>b. deref p H = Some (Ok b H) \<and> holds_bytes b bs) (drop i ps) cs \<Longrightarrow>
    rep out xs \<Longrightarrow> length xs + length (join_from d i cs) \<le> limit \<Longrightarrow>
    \<exists>out'. join_loop v d i (length cs) out H = Some (Ok out' H) \<and>
      rep out' (xs @ cells_of (join_from d i cs))"
proof (induction cs arbitrary: i out xs)
  case Nil
  then show ?case by (simp add: join_from_simps)
next
  case (Cons c cs)
  from Cons.prems(1) have "length ps - i = Suc (length cs)" by (auto dest: list_all2_lengthD)
  then have i: "i < length ps" by simp
  then have dr: "drop i ps = ps ! i # drop (Suc i) ps" by (simp add: Cons_nth_drop_Suc)
  from Cons.prems(1) dr obtain b where b: "deref (ps ! i) H = Some (Ok b H)" "holds_bytes b c"
    and rest: "list_all2 (\<lambda>p bs. \<exists>b. deref p H = Some (Ok b H) \<and> holds_bytes b bs)
      (drop (Suc i) ps) cs" by auto
  let ?sep = "if i = 0 then [] else [d]"
  have len: "length xs + length ?sep + length c + length (join_from d (Suc i) cs) \<le> limit"
    using Cons.prems(3) by (simp add: join_from_simps)
  have "writes (if i \<noteq> 0 then push_char d else ret ()) (cells_of ?sep)"
    by (simp add: writes_push_char writes_ret)
  then obtain o1 where o1: "(if i \<noteq> 0 then push_char d else ret ()) out = Some (Ok () o1)"
      "rep o1 (xs @ cells_of ?sep)"
    by (rule writesD[OF _ Cons.prems(2)]) (use len in auto)
  obtain o2 where o2: "buffer_concat b o1 = Some (Ok () o2)" "rep o2 ((xs @ cells_of ?sep) @ data b)"
    using writesD[OF writes_buffer_concat[of b] o1(2)] b(2) len by auto
  have "vector_get (word_of_nat i) v = Some (Ok (ps ! i) v)"
    using assms(1) i by (rule vector_get_ok)
  moreover obtain out' where "join_loop v d (Suc i) (length cs) o2 H = Some (Ok out' H)"
      "rep out' (((xs @ cells_of ?sep) @ data b) @ cells_of (join_from d (Suc i) cs))"
    using Cons.IH[OF rest o2(2)] len b(2) by auto
  ultimately show ?case
    using o1 o2(1) b by (auto simp: bnd_def on_local_def join_from_simps)
qed

lemma join_ok:
  assumes "path_of H v comps" and "length (join_spec d comps) \<le> limit"
  shows "\<exists>out. join v d H = Some (Ok out H) \<and> rep out (cells_of (join_spec d comps))"
proof -
  from assms(1) obtain ps where ps: "vrep v ps"
    "list_all2 (\<lambda>p bs. \<exists>b. deref p H = Some (Ok b H) \<and> holds_bytes b bs) ps comps"
    by (auto simp: path_of_def)
  have "unat (vector_length v) = length comps"
    using ps by (simp add: unat_vector_length list_all2_lengthD)
  with join_loop_ok[OF ps(1), where i = 0 and cs = comps and out = "allocate_buffer 100" and xs = "[]"]
    ps(2) rep_allocate[of 100] assms(2)
  show ?thesis by (simp add: join_def join_from_def)
qed

lemma path_of_foreach:
  assumes "path_of H v comps"
  obtains ps where "vrep v ps" and "length ps = length comps"
    and "\<And>s. vector_foreach v s = Some (Ok ps s)"
    and "list_all2 (\<lambda>p bs. \<exists>b. deref p H = Some (Ok b H) \<and> holds_bytes b bs) ps comps"
proof -
  from assms obtain ps where ps: "vrep v ps"
    "list_all2 (\<lambda>p bs. \<exists>b. deref p H = Some (Ok b H) \<and> holds_bytes b bs) ps comps"
    by (auto simp: path_of_def)
  show thesis
    by (rule that[OF ps(1) list_all2_lengthD[OF ps(2)] vector_foreach_ok[OF ps(1)] ps(2)])
qed

end
