(* ===== verification/Runtime.thy ===== *)
theory Runtime
  imports Paths
begin

text \<open>
  The small tools of \<^verbatim>\<open>nfsv4/runtime.h\<close>, \<^verbatim>\<open>config.h\<close>, \<^verbatim>\<open>codepoint.h\<close> and \<^verbatim>\<open>ticks.h\<close>: reading
  and printing of decimal numbers, configuration values from the environment, and tables
  of named codes. A \<^verbatim>\<open>char\<close> is a signed byte, so a digit \<^verbatim>\<open>i - '0'\<close> is sign-extended to the
  64 bits of the sum it is added to.
\<close>

section \<open>Decimal numbers\<close>

definition char_val :: "u8 \<Rightarrow> u64" where
  "char_val c = scast c - 48"

fun parse_digits :: "u64 \<Rightarrow> u8 list \<Rightarrow> u64" where
  "parse_digits result [] = result"
| "parse_digits result (i # is) = parse_digits (result * 10 + char_val i) is"

definition parse_u64 :: "(buffer, u64) prog" where
  "parse_u64 = bnd forchar (\<lambda>is. ret (parse_digits 0 is))"

text \<open>
  \<^verbatim>\<open>print_u64\<close>: the first loop looks for a scale, the second prints. Whether the first one
  stops is not obvious from its text, so it is a partial function; \<open>None\<close> is a loop that
  never ends.
\<close>

partial_function (option) scale_loop :: "u64 \<Rightarrow> u32 \<Rightarrow> 's \<Rightarrow> ('s, u32) out option" where
  "scale_loop b log s =
     (if b = 0 then Some (Ok log s)
      else if log = 0 then Some (Crash Div_by_zero)
      else scale_loop (b div ucast log) (log * 10) s)"

function digit_loop :: "u64 \<Rightarrow> u32 \<Rightarrow> (buffer, unit) prog" where
  "digit_loop b log =
     (if b = 0 then ret ()
      else if log = 0 then crash Div_by_zero
      else bnd (push_char (48 + ucast (b div ucast log)))
             (\<lambda>_. digit_loop (b - b div ucast log) (log div 10)))"
  by pat_completeness auto
termination
proof (relation "measure (\<lambda>(b, log). unat log)", goal_cases)
  case 1
  show ?case by simp
next
  case (2 b log x)
  then have "0 < unat log" by (simp add: unat_gt_0)
  then show ?case by (simp add: unat_div_distrib)
qed

declare digit_loop.simps [simp del]

definition print_u64 :: "u64 \<Rightarrow> (buffer, unit) prog" where
  "print_u64 s =
     (if s = 0 then push_char 48
      else bnd (scale_loop s 1) (\<lambda>log. digit_loop s log))"

text \<open>
  The clocks: \<open>a\<close> and \<open>d\<close> are the registers after the instruction \<^verbatim>\<open>rdtsc\<close>, \<open>tv_sec\<close> and \<open>tv_usec\<close>
  the answer of \<^verbatim>\<open>gettimeofday\<close>.
\<close>

definition rdtsc :: "u32 \<Rightarrow> u32 \<Rightarrow> u64" where
  "rdtsc a d = ucast a OR push_bit 32 (ucast d)"

definition ktime :: "u64 \<Rightarrow> u64 \<Rightarrow> u64" where
  "ktime tv_sec tv_usec = push_bit 32 tv_sec OR tv_usec * 4294967296 div 1000000"

text \<open>
  \<^verbatim>\<open>print_ticks\<close>: a fixed-point number with 32 bits after the point.
\<close>

function fraction_loop :: "u32 \<Rightarrow> u32 \<Rightarrow> (buffer, unit) prog" where
  "fraction_loop log fraction =
     (if log = 0 \<or> fraction = 0 then ret ()
      else let digit = fraction div log in
           bnd (push_char (48 + ucast digit))
             (\<lambda>_. fraction_loop (log div 10) (fraction - digit * log)))"
  by pat_completeness auto
termination
proof (relation "measure (\<lambda>(log, fraction). unat log)", goal_cases)
  case 1
  show ?case by simp
next
  case (2 log fraction digit x)
  then have "0 < unat log" by (simp add: unat_gt_0)
  then show ?case by (simp add: unat_div_distrib)
qed

declare fraction_loop.simps [simp del]

definition print_ticks :: "u64 \<Rightarrow> (buffer, unit) prog" where
  "print_ticks t =
     bnd (print_u64 (drop_bit 32 t)) (\<lambda>_.
       let fraction = ucast (t AND (push_bit 32 1 - 1)) in
       if fraction \<noteq> 0 then
         bnd (push_char 46) (\<lambda>_. fraction_loop (ucast (push_bit 32 1 div 10 :: u64)) fraction)
       else ret ())"

section \<open>Configuration\<close>

text \<open>The environment gives each variable a string, or nothing.\<close>

type_synonym env = "string \<Rightarrow> u8 list option"

definition config_boolean :: "env \<Rightarrow> string \<Rightarrow> bool \<Rightarrow> bool" where
  "config_boolean getenv name def = (case getenv name of Some _ \<Rightarrow> True | None \<Rightarrow> def)"

fun config_digits :: "u64 \<Rightarrow> u8 list \<Rightarrow> u64" where
  "config_digits result [] = result"
| "config_digits result (i # is) = config_digits (result + 10 * char_val i) is"

definition config_u64 :: "env \<Rightarrow> string \<Rightarrow> u64 \<Rightarrow> u64" where
  "config_u64 getenv name def = (case getenv name of
      None \<Rightarrow> def
    | Some x \<Rightarrow> config_digits 0 x)"

section \<open>Tables of codes\<close>

text \<open>
  A table ends with an entry whose description is empty; a search that finds no end reads
  past it (\<open>None\<close>). Descriptions are compared with the empty literal by address in the
  code, which holds because the compiler keeps one copy of it.
\<close>

type_synonym codepoint = "string \<times> u32"

fun codestring :: "codepoint list \<Rightarrow> u32 \<Rightarrow> string option" where
  "codestring [] v = None"
| "codestring ((description, value) # tbl) v =
     (if description \<noteq> '''' \<and> value \<noteq> v then codestring tbl v
      else if description = '''' then Some ''unknown error''
      else Some description)"

text \<open>
  \<^verbatim>\<open>codepoint_set_string\<close> writes into a static array of 1024 bytes: \<open>acc\<close> is what it wrote
  so far.
\<close>

fun set_string_loop :: "codepoint list \<Rightarrow> u64 \<Rightarrow> string \<Rightarrow> fault + string" where
  "set_string_loop [] flags acc = Inl Out_of_bounds"
| "set_string_loop ((description, value) # tbl) flags acc =
     (if description = '''' then
        (if length acc < 1024 then Inr acc else Inl Out_of_bounds)
      else if flags AND ucast value \<noteq> 0 then
        (let acc' = (if acc \<noteq> [] then acc @ ''|'' else acc) @ description in
         if length acc' \<le> 1024 then set_string_loop tbl flags acc' else Inl Out_of_bounds)
      else set_string_loop tbl flags acc)"

definition codepoint_set_string :: "codepoint list \<Rightarrow> u64 \<Rightarrow> fault + string" where
  "codepoint_set_string tbl flags = set_string_loop tbl flags []"

section \<open>Decimal numbers read and printed\<close>

text \<open>The decimal notation of a number, as ASCII characters.\<close>

fun decimal :: "nat \<Rightarrow> u8 list" where
  "decimal n = (if n < 10 then [48 + word_of_nat n]
     else decimal (n div 10) @ [48 + word_of_nat (n mod 10)])"

declare decimal.simps [simp del]

lemma char_val_digit: "d < 10 \<Longrightarrow> char_val (48 + word_of_nat d) = word_of_nat d"
proof -
  assume "d < 10"
  then have "d \<in> {0, 1, 2, 3, 4, 5, 6, 7, 8, 9}" by auto
  then show ?thesis by (auto simp: char_val_def)
qed

lemma parse_digits_append: "parse_digits r (xs @ ys) = parse_digits (parse_digits r xs) ys"
  by (induction r xs rule: parse_digits.induct) simp_all

lemma parse_decimal: "parse_digits 0 (decimal n) = word_of_nat n"
proof (induction n rule: decimal.induct)
  case (1 n)
  show ?case
  proof (cases "n < 10")
    case True
    then show ?thesis by (simp add: decimal.simps[of n] char_val_digit)
  next
    case False
    have "(word_of_nat (n div 10 * 10 + n mod 10) :: u64) = word_of_nat n"
      by (simp only: div_mult_mod_eq)
    then have "(word_of_nat (n div 10) * 10 + word_of_nat (n mod 10) :: u64) = word_of_nat n"
      by (simp only: of_nat_add of_nat_mult of_nat_numeral)
    with False 1 show ?thesis
      by (simp add: decimal.simps[of n] parse_digits_append char_val_digit)
  qed
qed

text \<open>
  The loop of \<^verbatim>\<open>config_u64\<close> adds ten times every digit: it yields ten times the digit sum.
\<close>

lemma config_digits_sum: "config_digits r cs = r + 10 * sum_list (map char_val cs)"
  by (induction r cs rule: config_digits.induct) (simp_all add: algebra_simps)

lemma config_digits_append: "config_digits r (xs @ ys) = config_digits (config_digits r xs) ys"
  by (induction r xs rule: config_digits.induct) simp_all

fun digit_sum :: "nat \<Rightarrow> nat" where
  "digit_sum n = (if n < 10 then n else digit_sum (n div 10) + n mod 10)"

declare digit_sum.simps [simp del]

lemma config_decimal: "config_digits 0 (decimal n) = word_of_nat (10 * digit_sum n)"
proof (induction n rule: decimal.induct)
  case (1 n)
  show ?case
  proof (cases "n < 10")
    case True
    then show ?thesis by (simp add: decimal.simps[of n] digit_sum.simps[of n] char_val_digit)
  next
    case False
    with 1 show ?thesis
      by (simp add: decimal.simps[of n] digit_sum.simps[of n] config_digits_append char_val_digit algebra_simps)
  qed
qed

text \<open>
  The scale \<^verbatim>\<open>print_u64\<close> looks for is divided by 1, 10, 100, ... in turn, so seven rounds
  exhaust 64 bits and the scale stays a power of ten below \<open>10 ^ 8\<close>.
\<close>

lemma unat_u64: "unat (x :: u64) < 2 ^ 64"
  by (rule order_less_le_trans[OF unsigned_less]) simp

lemma scale_loop_0: "scale_loop 0 p = ret p"
  by (rule ext) (simp add: scale_loop.simps)

lemma scale_loop_step: "b \<noteq> 0 \<Longrightarrow> p \<noteq> 0 \<Longrightarrow> scale_loop b p = scale_loop (b div ucast p) (p * 10)"
  by (rule ext, subst scale_loop.simps) simp

lemma scale_step:
  assumes "\<And>b. unat b < B \<Longrightarrow> \<exists>l\<in>L. (scale_loop b q :: ('s, u32) prog) = ret l"
    and "q = p * 10" and "p \<noteq> 0" and "unat (ucast p :: u64) = P" and "unat b < B * P"
  shows "\<exists>l\<in>insert p L. (scale_loop b p :: ('s, u32) prog) = ret l"
proof (cases "b = 0")
  case True
  then show ?thesis using scale_loop_0[of p] by blast
next
  case False
  have "unat (b div ucast p) < B"
    using assms(4,5) by (simp add: unat_div_distrib less_mult_imp_div_less)
  from assms(1)[OF this] show ?thesis
    unfolding scale_loop_step[OF False assms(3)] assms(2) by blast
qed

lemma scale_loop_ok:
  assumes "s \<noteq> 0"
  shows "\<exists>j\<in>{1..7}. (scale_loop s 1 :: ('s, u32) prog) = ret (10 ^ j)"
proof -
  let ?ok = "\<lambda>L s p. \<exists>l\<in>L. (scale_loop s p :: ('s, u32) prog) = ret l"
  have 7: "?ok {10000000} s 10000000" if "unat s < 1" for s
    using that scale_loop_0[of 10000000] by (simp add: unat_eq_0 del: ret_run)
  have 6: "?ok {1000000, 10000000} s 1000000" if "unat s < 10 ^ 6" for s
    by (rule scale_step[where B = "1" and P = "10 ^ 6", OF 7]) (use that in simp_all)
  have 5: "?ok {100000, 1000000, 10000000} s 100000" if "unat s < 10 ^ 11" for s
    by (rule scale_step[where B = "10 ^ 6" and P = "10 ^ 5", OF 6]) (use that in simp_all)
  have 4: "?ok {10000, 100000, 1000000, 10000000} s 10000" if "unat s < 10 ^ 15" for s
    by (rule scale_step[where B = "10 ^ 11" and P = "10 ^ 4", OF 5]) (use that in simp_all)
  have 3: "?ok {1000, 10000, 100000, 1000000, 10000000} s 1000" if "unat s < 10 ^ 18" for s
    by (rule scale_step[where B = "10 ^ 15" and P = "10 ^ 3", OF 4]) (use that in simp_all)
  have 2: "?ok {100, 1000, 10000, 100000, 1000000, 10000000} s 100" if "unat s < 10 ^ 20" for s
    by (rule scale_step[where B = "10 ^ 18" and P = "10 ^ 2", OF 3]) (use that in simp_all)
  have 1: "?ok {10, 100, 1000, 10000, 100000, 1000000, 10000000} s 10" for s
    by (rule scale_step[where B = "10 ^ 20" and P = 10, OF 2]) (use unat_u64[of s] in simp_all)
  have pows: "{10, 100, 1000, 10000, 100000, 1000000, 10000000} = (\<lambda>j. 10 ^ j :: u32) ` {1..7}"
    by (simp add: atLeastAtMost_insertL[symmetric] numeral_eq_Suc)
  show ?thesis
    using 1[of s] unfolding pows by (simp add: scale_loop_step[OF assms, of 1] del: ret_run)
qed

text \<open>The digits printed from a scale of \<open>10 ^ j\<close> on.\<close>

fun digits_from :: "nat \<Rightarrow> nat \<Rightarrow> u8 list" where
  "digits_from 0 b = (if b = 0 then [] else [48 + word_of_nat b])"
| "digits_from (Suc j) b =
     (if b = 0 then []
      else (48 + word_of_nat (b div 10 ^ Suc j)) # digits_from j (b - b div 10 ^ Suc j))"

lemma length_digits_from: "length (digits_from j b) \<le> Suc j"
  by (induction j b rule: digits_from.induct) simp_all

lemma digits_from_not_Nil: "0 < b \<Longrightarrow> digits_from j b \<noteq> []"
  by (cases j) simp_all

lemma unat_pow10: "j \<le> 7 \<Longrightarrow> unat (ucast (10 ^ j :: u32) :: u64) = 10 ^ j \<and> unat (10 ^ j :: u32) = 10 ^ j"
proof -
  assume "j \<le> 7"
  then have "j \<in> {0, 1, 2, 3, 4, 5, 6, 7}" by auto
  then show ?thesis by auto
qed

lemma ucast_div: "(ucast (b div (w :: u64)) :: u8) = word_of_nat (unat b div unat w)"
  by (simp flip: unat_div_distrib)

lemma digit_loop_0: "digit_loop 0 l = ret ()"
  by (simp add: digit_loop.simps)

lemma writes_digit_loop:
  "j \<le> 7 \<Longrightarrow> writes (digit_loop b (10 ^ j)) (cells_of (digits_from j (unat b)))"
proof (induction j arbitrary: b)
  case 0
  show ?case
  proof (cases "b = 0")
    case False
    have "writes (bnd (push_char (48 + ucast b)) (\<lambda>_. ret ())) ([Some (48 + ucast b)] @ [])"
      by (intro writes_bnd writes_push_char writes_ret)
    with False show ?thesis
      by (simp add: digit_loop.simps[of b] digit_loop_0 unat_eq_0)
  qed (use digit_loop_0 in \<open>simp add: writes_ret del: ret_run\<close>)
next
  case (Suc j)
  note p = unat_pow10[OF Suc.prems]
  show ?case
  proof (cases "b = 0")
    case False
    let ?w = "10 ^ Suc j :: u32"
    have nz: "?w \<noteq> 0" using p by (metis unat_0 power_not_zero zero_neq_numeral)
    have d: "?w div 10 = 10 ^ j"
      using p unat_pow10[of j] Suc.prems
      by (intro word_unat_eq_iff[THEN iffD2]) (simp add: unat_div_distrib)
    have sub: "unat (b - b div ucast ?w) = unat b - unat b div 10 ^ Suc j"
      using p by (subst unat_sub) (simp_all add: unat_div_distrib word_le_nat_alt)
    have chr: "ucast (b div ucast ?w) = (word_of_nat (unat b div 10 ^ Suc j) :: u8)"
      unfolding ucast_div using p by simp
    have "writes (bnd (push_char (48 + ucast (b div ucast ?w)))
          (\<lambda>_. digit_loop (b - b div ucast ?w) (10 ^ j)))
        ([Some (48 + ucast (b div ucast ?w))] @ cells_of (digits_from j (unat (b - b div ucast ?w))))"
      using Suc.prems by (intro writes_bnd writes_push_char Suc.IH) simp
    then show ?thesis
      unfolding digit_loop.simps[of b ?w] d sub chr using nz False by (simp add: unat_eq_0)
  qed (use digit_loop_0 in \<open>simp add: writes_ret del: ret_run\<close>)
qed

lemma print_u64_ok:
  assumes "s \<noteq> 0"
  obtains j where "j \<in> {1..7}" and "writes (print_u64 s) (cells_of (digits_from j (unat s)))"
proof -
  obtain j where j: "j \<in> {1..7}" "(scale_loop s 1 :: (buffer, u32) prog) = ret (10 ^ j)"
    using scale_loop_ok[OF assms] by blast
  then have "print_u64 s = digit_loop s (10 ^ j)"
    using assms by (simp add: print_u64_def del: ret_run)
  with j(1) that writes_digit_loop[of j s] show thesis by simp
qed
end
