(* ===== verification/Nfs_Const.thy ===== *)
theory Nfs_Const
  imports Runtime
begin

text \<open>
  \<^verbatim>\<open>nfsv4/nfs4xdr.h\<close>: the numbers of the protocol. The three large enumerations are lists
  of their names and values, in the order of the header; the values the client uses have
  names of their own. \<open>nfsstatus\<close> and \<open>nfsops\<close> (of \<^verbatim>\<open>rpc.c\<close>) are the tables of
  descriptions.
\<close>

section \<open>Enumerations\<close>

definition nfs_opnum4 :: "codepoint list" where
  "nfs_opnum4 = [
    (''OP_ACCESS'', 3), (''OP_CLOSE'', 4), (''OP_COMMIT'', 5), (''OP_CREATE'', 6),
    (''OP_DELEGPURGE'', 7), (''OP_DELEGRETURN'', 8), (''OP_GETATTR'', 9), (''OP_GETFH'', 10),
    (''OP_LINK'', 11), (''OP_LOCK'', 12), (''OP_LOCKT'', 13), (''OP_LOCKU'', 14),
    (''OP_LOOKUP'', 15), (''OP_LOOKUPP'', 16), (''OP_NVERIFY'', 17), (''OP_OPEN'', 18),
    (''OP_OPENATTR'', 19), (''OP_OPEN_CONFIRM'', 20), (''OP_OPEN_DOWNGRADE'', 21),
    (''OP_PUTFH'', 22), (''OP_PUTPUBFH'', 23), (''OP_PUTROOTFH'', 24), (''OP_READ'', 25),
    (''OP_READDIR'', 26), (''OP_READLINK'', 27), (''OP_REMOVE'', 28), (''OP_RENAME'', 29),
    (''OP_RENEW'', 30), (''OP_RESTOREFH'', 31), (''OP_SAVEFH'', 32), (''OP_SECINFO'', 33),
    (''OP_SETATTR'', 34), (''OP_SETCLIENTID'', 35), (''OP_SETCLIENTID_CONFIRM'', 36),
    (''OP_VERIFY'', 37), (''OP_WRITE'', 38), (''OP_RELEASE_LOCKOWNER'', 39),
    (''OP_BACKCHANNEL_CTL'', 40), (''OP_BIND_CONN_TO_SESSION'', 41), (''OP_EXCHANGE_ID'', 42),
    (''OP_CREATE_SESSION'', 43), (''OP_DESTROY_SESSION'', 44), (''OP_FREE_STATEID'', 45),
    (''OP_GET_DIR_DELEGATION'', 46), (''OP_GETDEVICEINFO'', 47), (''OP_GETDEVICELIST'', 48),
    (''OP_LAYOUTCOMMIT'', 49), (''OP_LAYOUTGET'', 50), (''OP_LAYOUTRETURN'', 51),
    (''OP_SECINFO_NO_NAME'', 52), (''OP_SEQUENCE'', 53), (''OP_SET_SSV'', 54),
    (''OP_TEST_STATEID'', 55), (''OP_WANT_DELEGATION'', 56), (''OP_DESTROY_CLIENTID'', 57),
    (''OP_RECLAIM_COMPLETE'', 58), (''OP_ALLOCATE'', 59), (''OP_COPY'', 60),
    (''OP_COPY_NOTIFY'', 61), (''OP_DEALLOCATE'', 62), (''OP_IO_ADVISE'', 63),
    (''OP_LAYOUTERROR'', 64), (''OP_LAYOUTSTATS'', 65), (''OP_OFFLOAD_CANCEL'', 66),
    (''OP_OFFLOAD_STATUS'', 67), (''OP_READ_PLUS'', 68), (''OP_SEEK'', 69),
    (''OP_WRITE_SAME'', 70), (''OP_CLONE'', 71), (''OP_ILLEGAL'', 10044)]"

definition nfs4_attrs :: "codepoint list" where
  "nfs4_attrs = [
    (''FATTR4_SUPPORTED_ATTRS'', 0), (''FATTR4_TYPE'', 1), (''FATTR4_FH_EXPIRE_TYPE'', 2),
    (''FATTR4_CHANGE'', 3), (''FATTR4_SIZE'', 4), (''FATTR4_LINK_SUPPORT'', 5),
    (''FATTR4_SYMLINK_SUPPORT'', 6), (''FATTR4_NAMED_ATTR'', 7), (''FATTR4_FSID'', 8),
    (''FATTR4_UNIQUE_HANDLES'', 9), (''FATTR4_LEASE_TIME'', 10), (''FATTR4_RDATTR_ERROR'', 11),
    (''FATTR4_FILEHANDLE'', 19), (''FATTR4_SUPPATTR_EXCLCREAT'', 75), (''FATTR4_ACL'', 12),
    (''FATTR4_ACLSUPPORT'', 13), (''FATTR4_ARCHIVE'', 14), (''FATTR4_CANSETTIME'', 15),
    (''FATTR4_CASE_INSENSITIVE'', 16), (''FATTR4_CASE_PRESERVING'', 17),
    (''FATTR4_CHOWN_RESTRICTED'', 18), (''FATTR4_FILEID'', 20), (''FATTR4_FILES_AVAIL'', 21),
    (''FATTR4_FILES_FREE'', 22), (''FATTR4_FILES_TOTAL'', 23), (''FATTR4_FS_LOCATIONS'', 24),
    (''FATTR4_HIDDEN'', 25), (''FATTR4_HOMOGENEOUS'', 26), (''FATTR4_MAXFILESIZE'', 27),
    (''FATTR4_MAXLINK'', 28), (''FATTR4_MAXNAME'', 29), (''FATTR4_MAXREAD'', 30),
    (''FATTR4_MAXWRITE'', 31), (''FATTR4_MIMETYPE'', 32), (''FATTR4_MODE'', 33),
    (''FATTR4_NO_TRUNC'', 34), (''FATTR4_NUMLINKS'', 35), (''FATTR4_OWNER'', 36),
    (''FATTR4_OWNER_GROUP'', 37), (''FATTR4_QUOTA_AVAIL_HARD'', 38),
    (''FATTR4_QUOTA_AVAIL_SOFT'', 39), (''FATTR4_QUOTA_USED'', 40), (''FATTR4_RAWDEV'', 41),
    (''FATTR4_SPACE_AVAIL'', 42), (''FATTR4_SPACE_FREE'', 43), (''FATTR4_SPACE_TOTAL'', 44),
    (''FATTR4_SPACE_USED'', 45), (''FATTR4_SYSTEM'', 46), (''FATTR4_TIME_ACCESS'', 47),
    (''FATTR4_TIME_ACCESS_SET'', 48), (''FATTR4_TIME_BACKUP'', 49), (''FATTR4_TIME_CREATE'', 50),
    (''FATTR4_TIME_DELTA'', 51), (''FATTR4_TIME_METADATA'', 52), (''FATTR4_TIME_MODIFY'', 53),
    (''FATTR4_TIME_MODIFY_SET'', 54), (''FATTR4_MOUNTED_ON_FILEID'', 55),
    (''FATTR4_DIR_NOTIF_DELAY'', 56), (''FATTR4_DIRENT_NOTIF_DELAY'', 57), (''FATTR4_DACL'', 58),
    (''FATTR4_SACL'', 59), (''FATTR4_CHANGE_POLICY'', 60), (''FATTR4_FS_STATUS'', 61),
    (''FATTR4_FS_LAYOUT_TYPES'', 62), (''FATTR4_LAYOUT_HINT'', 63), (''FATTR4_LAYOUT_TYPES'', 64),
    (''FATTR4_LAYOUT_BLKSIZE'', 65), (''FATTR4_LAYOUT_ALIGNMENT'', 66),
    (''FATTR4_FS_LOCATIONS_INFO'', 67), (''FATTR4_MDSTHRESHOLD'', 68),
    (''FATTR4_RETENTION_GET'', 69), (''FATTR4_RETENTION_SET'', 70),
    (''FATTR4_RETENTEVT_GET'', 71), (''FATTR4_RETENTEVT_SET'', 72),
    (''FATTR4_RETENTION_HOLD'', 73), (''FATTR4_MODE_SET_MASKED'', 74),
    (''FATTR4_FS_CHARSET_CAP'', 76), (''FATTR4_CLONE_BLKSIZE'', 77), (''FATTR4_SPACE_FREED'', 78),
    (''FATTR4_CHANGE_ATTR_TYPE'', 79), (''FATTR4_SEC_LABEL'', 80)]"

definition nfsstat4 :: "codepoint list" where
  "nfsstat4 = [
    (''NFS4_OK'', 0), (''NFS4ERR_PERM'', 1), (''NFS4ERR_NOENT'', 2), (''NFS4ERR_IO'', 5),
    (''NFS4ERR_NXIO'', 6), (''NFS4ERR_ACCESS'', 13), (''NFS4ERR_EXIST'', 17),
    (''NFS4ERR_XDEV'', 18), (''NFS4ERR_NOTDIR'', 20), (''NFS4ERR_ISDIR'', 21),
    (''NFS4ERR_INVAL'', 22), (''NFS4ERR_FBIG'', 27), (''NFS4ERR_NOSPC'', 28),
    (''NFS4ERR_ROFS'', 30), (''NFS4ERR_MLINK'', 31), (''NFS4ERR_NAMETOOLONG'', 63),
    (''NFS4ERR_NOTEMPTY'', 66), (''NFS4ERR_DQUOT'', 69), (''NFS4ERR_STALE'', 70),
    (''NFS4ERR_BADHANDLE'', 10001), (''NFS4ERR_BAD_COOKIE'', 10003), (''NFS4ERR_NOTSUPP'', 10004),
    (''NFS4ERR_TOOSMALL'', 10005), (''NFS4ERR_SERVERFAULT'', 10006), (''NFS4ERR_BADTYPE'', 10007),
    (''NFS4ERR_DELAY'', 10008), (''NFS4ERR_SAME'', 10009), (''NFS4ERR_DENIED'', 10010),
    (''NFS4ERR_EXPIRED'', 10011), (''NFS4ERR_LOCKED'', 10012), (''NFS4ERR_GRACE'', 10013),
    (''NFS4ERR_FHEXPIRED'', 10014), (''NFS4ERR_SHARE_DENIED'', 10015),
    (''NFS4ERR_WRONGSEC'', 10016), (''NFS4ERR_CLID_INUSE'', 10017), (''NFS4ERR_RESOURCE'', 10018),
    (''NFS4ERR_MOVED'', 10019), (''NFS4ERR_NOFILEHANDLE'', 10020),
    (''NFS4ERR_MINOR_VERS_MISMATCH'', 10021), (''NFS4ERR_STALE_CLIENTID'', 10022),
    (''NFS4ERR_STALE_STATEID'', 10023), (''NFS4ERR_OLD_STATEID'', 10024),
    (''NFS4ERR_BAD_STATEID'', 10025), (''NFS4ERR_BAD_SEQID'', 10026),
    (''NFS4ERR_NOT_SAME'', 10027), (''NFS4ERR_LOCK_RANGE'', 10028), (''NFS4ERR_SYMLINK'', 10029),
    (''NFS4ERR_RESTOREFH'', 10030), (''NFS4ERR_LEASE_MOVED'', 10031),
    (''NFS4ERR_ATTRNOTSUPP'', 10032), (''NFS4ERR_NO_GRACE'', 10033),
    (''NFS4ERR_RECLAIM_BAD'', 10034), (''NFS4ERR_RECLAIM_CONFLICT'', 10035),
    (''NFS4ERR_BADXDR'', 10036), (''NFS4ERR_LOCKS_HELD'', 10037), (''NFS4ERR_OPENMODE'', 10038),
    (''NFS4ERR_BADOWNER'', 10039), (''NFS4ERR_BADCHAR'', 10040), (''NFS4ERR_BADNAME'', 10041),
    (''NFS4ERR_BAD_RANGE'', 10042), (''NFS4ERR_LOCK_NOTSUPP'', 10043),
    (''NFS4ERR_OP_ILLEGAL'', 10044), (''NFS4ERR_DEADLOCK'', 10045),
    (''NFS4ERR_FILE_OPEN'', 10046), (''NFS4ERR_ADMIN_REVOKED'', 10047),
    (''NFS4ERR_CB_PATH_DOWN'', 10048), (''NFS4ERR_BADIOMODE'', 10049),
    (''NFS4ERR_BADLAYOUT'', 10050), (''NFS4ERR_BAD_SESSION_DIGEST'', 10051),
    (''NFS4ERR_BADSESSION'', 10052), (''NFS4ERR_BADSLOT'', 10053),
    (''NFS4ERR_COMPLETE_ALREADY'', 10054), (''NFS4ERR_CONN_NOT_BOUND_TO_SESSION'', 10055),
    (''NFS4ERR_DELEG_ALREADY_WANTED'', 10056), (''NFS4ERR_BACK_CHAN_BUSY'', 10057),
    (''NFS4ERR_LAYOUTTRYLATER'', 10058), (''NFS4ERR_LAYOUTUNAVAILABLE'', 10059),
    (''NFS4ERR_NOMATCHING_LAYOUT'', 10060), (''NFS4ERR_RECALLCONFLICT'', 10061),
    (''NFS4ERR_UNKNOWN_LAYOUTTYPE'', 10062), (''NFS4ERR_SEQ_MISORDERED'', 10063),
    (''NFS4ERR_SEQUENCE_POS'', 10064), (''NFS4ERR_REQ_TOO_BIG'', 10065),
    (''NFS4ERR_REP_TOO_BIG'', 10066), (''NFS4ERR_REP_TOO_BIG_TO_CACHE'', 10067),
    (''NFS4ERR_RETRY_UNCACHED_REP'', 10068), (''NFS4ERR_UNSAFE_COMPOUND'', 10069),
    (''NFS4ERR_TOO_MANY_OPS'', 10070), (''NFS4ERR_OP_NOT_IN_SESSION'', 10071),
    (''NFS4ERR_HASH_ALG_UNSUPP'', 10072), (''NFS4ERR_CLIENTID_BUSY'', 10074),
    (''NFS4ERR_PNFS_IO_HOLE'', 10075), (''NFS4ERR_SEQ_FALSE_RETRY'', 10076),
    (''NFS4ERR_BAD_HIGH_SLOT'', 10077), (''NFS4ERR_DEADSESSION'', 10078),
    (''NFS4ERR_ENCR_ALG_UNSUPP'', 10079), (''NFS4ERR_PNFS_NO_LAYOUT'', 10080),
    (''NFS4ERR_NOT_ONLY_OP'', 10081), (''NFS4ERR_WRONG_CRED'', 10082),
    (''NFS4ERR_WRONG_TYPE'', 10083), (''NFS4ERR_DIRDELEG_UNAVAIL'', 10084),
    (''NFS4ERR_REJECT_DELEG'', 10085), (''NFS4ERR_RETURNCONFLICT'', 10086),
    (''NFS4ERR_DELEG_REVOKED'', 10087), (''NFS4ERR_PARTNER_NOTSUPP'', 10088),
    (''NFS4ERR_PARTNER_NO_AUTH'', 10089), (''NFS4ERR_UNION_NOTSUPP'', 10090),
    (''NFS4ERR_OFFLOAD_DENIED'', 10091), (''NFS4ERR_WRONG_LFS'', 10092),
    (''NFS4ERR_BADLABEL'', 10093), (''NFS4ERR_OFFLOAD_NO_REQS'', 10094)]"

definition exchange_id_flags :: "codepoint list" where
  "exchange_id_flags = [
    (''EXCHGID4_FLAG_SUPP_MOVED_REFER'', 0x00000001),
    (''EXCHGID4_FLAG_SUPP_MOVED_MIGR'', 0x00000002),
    (''EXCHGID4_FLAG_SUPP_FENCE_OPS'', 0x00000004),
    (''EXCHGID4_FLAG_BIND_PRINC_STATEID'', 0x00000100),
    (''EXCHGID4_FLAG_USE_NON_PNFS'', 0x00010000), (''EXCHGID4_FLAG_USE_PNFS_MDS'', 0x00020000),
    (''EXCHGID4_FLAG_USE_PNFS_DS'', 0x00040000), (''EXCHGID4_FLAG_MASK_PNFS'', 0x00070000),
    (''EXCHGID4_FLAG_UPD_CONFIRMED_REC_A'', 0x40000000),
    (''EXCHGID4_FLAG_CONFIRMED_R'', 0x80000000)]"

definition stable_how4 :: "codepoint list" where
  "stable_how4 = [
    (''UNSTABLE4'', 0), (''DATA_SYNC4'', 1), (''FILE_SYNC4'', 2)]"

definition opentype4 :: "codepoint list" where
  "opentype4 = [
    (''OPEN4_NOCREATE'', 0), (''OPEN4_CREATE'', 1)]"

definition limit_by4 :: "codepoint list" where
  "limit_by4 = [
    (''NFS_LIMIT_SIZE'', 1), (''NFS_LIMIT_BLOCKS'', 2)]"

definition createmode4 :: "codepoint list" where
  "createmode4 = [
    (''UNCHECKED4'', 0), (''GUARDED4'', 1), (''EXCLUSIVE4'', 2), (''EXCLUSIVE4_1'', 3)]"

definition open_delegation_type4 :: "codepoint list" where
  "open_delegation_type4 = [
    (''OPEN_DELEGATE_NONE'', 0), (''OPEN_DELEGATE_READ'', 1), (''OPEN_DELEGATE_WRITE'', 2),
    (''OPEN_DELEGATE_NONE_EXT'', 3)]"

definition open_claim_type4 :: "codepoint list" where
  "open_claim_type4 = [
    (''CLAIM_NULL'', 0), (''CLAIM_PREVIOUS'', 1), (''CLAIM_DELEGATE_CUR'', 2),
    (''CLAIM_DELEGATE_PREV'', 3), (''CLAIM_FH'', 4), (''CLAIM_DELEG_CUR_FH'', 5),
    (''CLAIM_DELEG_PREV_FH'', 6)]"

definition state_protect_how4 :: "codepoint list" where
  "state_protect_how4 = [
    (''SP4_NONE'', 0), (''SP4_MACH_CRED'', 1), (''SP4_SSV'', 2)]"

definition why_no_delegation4 :: "codepoint list" where
  "why_no_delegation4 = [
    (''WND4_NOT_WANTED'', 0), (''WND4_CONTENTION'', 1), (''WND4_RESOURCE'', 2),
    (''WND4_NOT_SUPP_FTYPE'', 3), (''WND4_WRITE_DELEG_NOT_SUPP_FTYPE'', 4),
    (''WND4_NOT_SUPP_UPGRADE'', 5), (''WND4_NOT_SUPP_DOWNGRADE'', 6), (''WND4_CANCELLED'', 7),
    (''WND4_IS_DIR'', 8)]"

definition share_access_flags :: "codepoint list" where
  "share_access_flags = [
    (''OPEN4_SHARE_ACCESS_READ'', 0x00000001), (''OPEN4_SHARE_ACCESS_WRITE'', 0x00000002),
    (''OPEN4_SHARE_ACCESS_BOTH'', 0x00000003), (''OPEN4_SHARE_DENY_NONE'', 0x00000000),
    (''OPEN4_SHARE_DENY_READ'', 0x00000001), (''OPEN4_SHARE_DENY_WRITE'', 0x00000002),
    (''OPEN4_SHARE_DENY_BOTH'', 0x00000003), (''OPEN4_SHARE_ACCESS_WANT_DELEG_MASK'', 0xFF00),
    (''OPEN4_SHARE_ACCESS_WANT_NO_PREFERENCE'', 0x0000),
    (''OPEN4_SHARE_ACCESS_WANT_READ_DELEG'', 0x0100),
    (''OPEN4_SHARE_ACCESS_WANT_WRITE_DELEG'', 0x0200),
    (''OPEN4_SHARE_ACCESS_WANT_ANY_DELEG'', 0x0300),
    (''OPEN4_SHARE_ACCESS_WANT_NO_DELEG'', 0x0400), (''OPEN4_SHARE_ACCESS_WANT_CANCEL'', 0x0500),
    (''OPEN4_SHARE_ACCESS_WANT_SIGNAL_DELEG_WHEN_RESRC_AVAIL'', 0x10000),
    (''OPEN4_SHARE_ACCESS_WANT_PUSH_DELEG_WHEN_UNCONTENDED'', 0x20000)]"

definition file_synch :: "codepoint list" where
  "file_synch = [(''SYNCH_LOCAL'', 0), (''SYNCH_REMOTE'', 1), (''SYNCH_COMMIT'', 2)]"

definition nfs_lock_type4 :: "codepoint list" where
  "nfs_lock_type4 = [(''READ_LT'', 1), (''WRITE_LT'', 2), (''READW_LT'', 3), (''WRITEW_LT'', 4)]"

section \<open>The values the client uses\<close>

definition OP_GETATTR :: u32 where
  "OP_GETATTR = 9"

definition OP_GETFH :: u32 where
  "OP_GETFH = 10"

definition OP_LOCK :: u32 where
  "OP_LOCK = 12"

definition OP_LOCKU :: u32 where
  "OP_LOCKU = 14"

definition OP_LOOKUP :: u32 where
  "OP_LOOKUP = 15"

definition OP_OPEN :: u32 where
  "OP_OPEN = 18"

definition OP_PUTFH :: u32 where
  "OP_PUTFH = 22"

definition OP_PUTROOTFH :: u32 where
  "OP_PUTROOTFH = 24"

definition OP_READ :: u32 where
  "OP_READ = 25"

definition OP_REMOVE :: u32 where
  "OP_REMOVE = 28"

definition OP_WRITE :: u32 where
  "OP_WRITE = 38"

definition OP_EXCHANGE_ID :: u32 where
  "OP_EXCHANGE_ID = 42"

definition OP_CREATE_SESSION :: u32 where
  "OP_CREATE_SESSION = 43"

definition OP_DESTROY_SESSION :: u32 where
  "OP_DESTROY_SESSION = 44"

definition OP_SEQUENCE :: u32 where
  "OP_SEQUENCE = 53"

definition OP_RECLAIM_COMPLETE :: u32 where
  "OP_RECLAIM_COMPLETE = 58"

definition FATTR4_SIZE :: u32 where
  "FATTR4_SIZE = 4"

definition NFS4_OK :: u32 where
  "NFS4_OK = 0"

definition NFS4ERR_BADSESSION :: u32 where
  "NFS4ERR_BADSESSION = 10052"

definition FILE_SYNC4 :: u32 where
  "FILE_SYNC4 = 2"

definition OPEN4_NOCREATE :: u32 where
  "OPEN4_NOCREATE = 0"

definition OPEN4_CREATE :: u32 where
  "OPEN4_CREATE = 1"

definition UNCHECKED4 :: u32 where
  "UNCHECKED4 = 0"

definition NFS_LIMIT_SIZE :: u32 where
  "NFS_LIMIT_SIZE = 1"

definition NFS_LIMIT_BLOCKS :: u32 where
  "NFS_LIMIT_BLOCKS = 2"

definition OPEN4_SHARE_ACCESS_READ :: u32 where
  "OPEN4_SHARE_ACCESS_READ = 1"

definition OPEN4_SHARE_ACCESS_BOTH :: u32 where
  "OPEN4_SHARE_ACCESS_BOTH = 3"

definition OPEN_DELEGATE_NONE :: u32 where
  "OPEN_DELEGATE_NONE = 0"

definition OPEN_DELEGATE_READ :: u32 where
  "OPEN_DELEGATE_READ = 1"

definition OPEN_DELEGATE_WRITE :: u32 where
  "OPEN_DELEGATE_WRITE = 2"

definition OPEN_DELEGATE_NONE_EXT :: u32 where
  "OPEN_DELEGATE_NONE_EXT = 3"

definition CLAIM_NULL :: u32 where
  "CLAIM_NULL = 0"

definition CLAIM_DELEGATE_CUR :: u32 where
  "CLAIM_DELEGATE_CUR = 2"

definition SP4_NONE :: u32 where
  "SP4_NONE = 0"

definition WND4_CONTENTION :: u32 where
  "WND4_CONTENTION = 1"

definition WND4_RESOURCE :: u32 where
  "WND4_RESOURCE = 2"

definition READ_LT :: u32 where
  "READ_LT = 1"

definition WRITE_LT :: u32 where
  "WRITE_LT = 2"

definition NFS_PROGRAM :: u32 where
  "NFS_PROGRAM = 0x186a3"

definition NFS4_FHSIZE :: nat where
  "NFS4_FHSIZE = 128"

definition NFS4_SESSIONID_SIZE :: nat where
  "NFS4_SESSIONID_SIZE = 16"

definition NFS4_VERIFIER_SIZE :: nat where
  "NFS4_VERIFIER_SIZE = 8"

definition NFS4_OTHER_SIZE :: nat where
  "NFS4_OTHER_SIZE = 12"

lemmas size_defs = NFS4_FHSIZE_def NFS4_SESSIONID_SIZE_def NFS4_VERIFIER_SIZE_def NFS4_OTHER_SIZE_def

lemmas op_defs = OP_GETATTR_def OP_GETFH_def OP_LOCK_def OP_LOCKU_def
  OP_LOOKUP_def OP_OPEN_def OP_PUTFH_def OP_PUTROOTFH_def
  OP_READ_def OP_REMOVE_def OP_WRITE_def OP_EXCHANGE_ID_def
  OP_CREATE_SESSION_def OP_DESTROY_SESSION_def OP_SEQUENCE_def OP_RECLAIM_COMPLETE_def

section \<open>Tables of descriptions\<close>

definition nfsstatus :: "codepoint list" where
  "nfsstatus = [
    (''everything is okay'', 0), (''caller not privileged'', 1), (''no such file/directory'', 2),
    (''hard I/O error'', 5), (''no such device'', 6), (''access denied'', 13),
    (''file already exists'', 17), (''different file systems'', 18),
    (''should be a directory'', 20), (''should not be a directory'', 21),
    (''invalid argument '', 22), (''file exceeds server max'', 27),
    (''no space on file system'', 28), (''read-only file system'', 30),
    (''too many hard links'', 31), (''name exceeds server max'', 63),
    (''directory not empty'', 66), (''hard quota limit reached'', 69),
    (''file no longer exists'', 70), (''illegal filehandle'', 10001),
    (''READDIR cookie is stale'', 10003), (''operation not supported'', 10004),
    (''response limit exceeded'', 10005), (''undefined server error'', 10006),
    (''type invalid for CREATE'', 10007), (''file busy -- retry'', 10008),
    (''nverify says attrs same'', 10009), (''lock unavailable '', 10010),
    (''lock lease expired'', 10011), (''I/O failed due to lock'', 10012),
    (''in grace period  '', 10013), (''filehandle expired'', 10014),
    (''share reserve denied'', 10015), (''wrong security flavor'', 10016),
    (''client ID in use '', 10017), (''resource exhaustion'', 10018),
    (''file system relocated'', 10019), (''current FH is not set'', 10020),
    (''minor vers not supp'', 10021), (''server has rebooted'', 10022),
    (''server has rebooted'', 10023), (''state is out of sync'', 10024),
    (''incorrect stateid'', 10025), (''request is out of seq.'', 10026),
    (''verify -- attrs not same'', 10027), (''overlapping lock range'', 10028),
    (''should be file/directory'', 10029), (''no saved filehandle'', 10030),
    (''some file system moved'', 10031), (''recommended attr not supp'', 10032),
    (''reclaim outside of grace'', 10033), (''reclaim error at server'', 10034),
    (''conflict on reclaim'', 10035), (''XDR decode failed'', 10036),
    (''file locks held at CLOSE'', 10037), (''conflict in OPEN and I/O'', 10038),
    (''owner translation bad'', 10039), (''UTF-8 char not supported'', 10040),
    (''name not supported'', 10041), (''lock range not supported'', 10042),
    (''no atomic up/downgrade'', 10043), (''undefined operation'', 10044),
    (''file-locking deadlock'', 10045), (''open file blocks op'', 10046),
    (''lock-owner state revoked'', 10047), (''callback path down'', 10048),
    (''bad io mode'', 10049), (''bad layout'', 10050), (''bad session digest'', 10051),
    (''bad session'', 10052), (''bad slot'', 10053), (''complete already'', 10054),
    (''conn not bound to session'', 10055), (''deleg aready wanted'', 10056),
    (''backchan reqs outstanding'', 10057), (''layout try later'', 10058),
    (''layout unavailable'', 10059), (''no matching layout'', 10060),
    (''recall conflict'', 10061), (''laytout type'', 10062),
    (''unexpected seq. ID in req'', 10063), (''[CB_]SEQ. op not 1st op'', 10064),
    (''request too big  '', 10065), (''reply too big    '', 10066),
    (''rep. not all cached'', 10067), (''retry + rep. uncached'', 10068),
    (''retry/recovery too hard'', 10069), (''too many ops in [CB_]COMP'', 10070),
    (''op needs [CB_]SEQ. op'', 10071), (''hash alg. not supp'', 10072),
    (''client ID has state'', 10074), (''IO to _SPARSE file hole'', 10075),
    (''retry != original req'', 10076), (''req has bad highest_slot'', 10077),
    (''new req sent to dead sess'', 10078), (''encr alg. not supp'', 10079),
    (''I/O without a layout'', 10080), (''addl ops not allowed'', 10081),
    (''op done by wrong cred'', 10082), (''op on wrong type object'', 10083),
    (''delegation not avail.'', 10084), (''cb rejected delegation'', 10085),
    (''layout get before return'', 10086), (''deleg./layout revoked'', 10087),
    (''s2s not supported'', 10088), (''s2s not authorized'', 10089),
    (''arm of union not supp'', 10090), (''dest not allowing copy'', 10091),
    (''LFS not supported'', 10092), (''incorrect label  '', 10093),
    (''dest not meeting reqs'', 10094), ('''', 0)]"

definition nfsops :: "codepoint list" where
  "nfsops = [
    (''ACCESS'', 3), (''CLOSE'', 4), (''COMMIT'', 5), (''CREATE'', 6), (''DELEGPURGE'', 7),
    (''DELEGRETURN'', 8), (''GETATTR'', 9), (''GETFH'', 10), (''LINK'', 11), (''LOCK'', 12),
    (''LOCKT'', 13), (''LOCKU'', 14), (''LOOKUP'', 15), (''LOOKUPP'', 16), (''NVERIFY'', 17),
    (''OPEN'', 18), (''OPENATTR'', 19), (''OPEN_CONFIRM'', 20), (''OPEN_DOWNGRADE'', 21),
    (''PUTFH'', 22), (''PUTPUBFH'', 23), (''PUTROOTFH'', 24), (''READ'', 25), (''READDIR'', 26),
    (''READLINK'', 27), (''REMOVE'', 28), (''RENAME'', 29), (''RENEW'', 30), (''RESTOREFH'', 31),
    (''SAVEFH'', 32), (''SECINFO'', 33), (''SETATTR'', 34), (''SETCLIENTID'', 35),
    (''SETCLIENTID_CONFIRM'', 36), (''VERIFY'', 37), (''WRITE'', 38), (''RELEASE_LOCKOWNER'', 39),
    (''BACKCHANNEL_CTL'', 40), (''BIND_CONN_TO_SESSION'', 41), (''EXCHANGE_ID'', 42),
    (''CREATE_SESSION'', 43), (''DESTROY_SESSION'', 44), (''FREE_STATEID'', 45),
    (''GET_DIR_DELEGATION'', 46), (''GETDEVICEINFO'', 47), (''GETDEVICELIST'', 48),
    (''LAYOUTCOMMIT'', 49), (''LAYOUTGET'', 50), (''LAYOUTRETURN'', 51),
    (''SECINFO_NO_NAME'', 52), (''SEQUENCE'', 53), (''SET_SSV'', 54), (''TEST_STATEID'', 55),
    (''WANT_DELEGATION'', 56), (''DESTROY_CLIENTID'', 57), (''RECLAIM_COMPLETE'', 58),
    (''ALLOCATE'', 59), (''COPY'', 60), (''COPY_NOTIFY'', 61), (''DEALLOCATE'', 62),
    (''IO_ADVISE'', 63), (''LAYOUTERROR'', 64), (''LAYOUTSTATS'', 65), (''OFFLOAD_CANCEL'', 66),
    (''OFFLOAD_STATUS'', 67), (''READ_PLUS'', 68), (''SEEK'', 69), (''WRITE_SAME'', 70),
    (''CLONE'', 71), (''ILLEGAL'', 10044)]"

section \<open>The tables and the enumerations agree\<close>

text \<open>A table that has an end always answers.\<close>

lemma codestring_terminated:
  "'''' \<in> fst ` set tbl \<Longrightarrow> codestring tbl v \<noteq> None"
  by (induction tbl v rule: codestring.induct) auto

lemma nfsstatus_answers: "codestring nfsstatus v \<noteq> None"
  by (rule codestring_terminated) (simp add: nfsstatus_def)

text \<open>The values the client uses are those of the enumerations.\<close>

lemma ops_in_enum:
  "map_of nfs_opnum4 ''OP_SEQUENCE'' = Some OP_SEQUENCE"
  "map_of nfs_opnum4 ''OP_PUTFH'' = Some OP_PUTFH"
  "map_of nfs_opnum4 ''OP_LOOKUP'' = Some OP_LOOKUP"
  "map_of nfs_opnum4 ''OP_OPEN'' = Some OP_OPEN"
  "map_of nfs_opnum4 ''OP_READ'' = Some OP_READ"
  "map_of nfs_opnum4 ''OP_WRITE'' = Some OP_WRITE"
  "map_of nfs_opnum4 ''OP_LOCK'' = Some OP_LOCK"
  "map_of nfs_opnum4 ''OP_LOCKU'' = Some OP_LOCKU"
  by (simp_all add: nfs_opnum4_def op_defs)

lemma nfsops_enum: "map (\<lambda>(name, v). (drop 3 name, v)) nfs_opnum4 = nfsops"
  by (simp add: nfs_opnum4_def nfsops_def)

lemma nfsstat4_values: "map snd nfsstat4 = map snd (butlast nfsstatus)"
  by (simp add: nfsstat4_def nfsstatus_def)

lemma nfsstat4_distinct: "distinct (map snd nfsstat4)"
  by (simp add: nfsstat4_def)

lemma codestring_hit:
  "distinct (map snd tbl) \<Longrightarrow> '''' \<notin> fst ` set tbl \<Longrightarrow> (d, v) \<in> set tbl \<Longrightarrow>
   codestring (tbl @ rest) v = Some d"
  by (induction tbl) (force simp: image_iff)+

lemma codestring_miss:
  "'''' \<notin> fst ` set tbl \<Longrightarrow> v \<notin> snd ` set tbl \<Longrightarrow>
   codestring (tbl @ [('''', z)]) v = Some ''unknown error''"
  by (induction tbl) (auto simp: image_iff)

lemmas enum_tables = stable_how4_def opentype4_def limit_by4_def createmode4_def open_delegation_type4_def
  open_claim_type4_def state_protect_how4_def why_no_delegation4_def share_access_flags_def nfs4_attrs_def

lemma constants_in_enum:
  "map_of stable_how4 ''FILE_SYNC4'' = Some FILE_SYNC4"
  "map_of opentype4 ''OPEN4_NOCREATE'' = Some OPEN4_NOCREATE"
  "map_of opentype4 ''OPEN4_CREATE'' = Some OPEN4_CREATE"
  "map_of limit_by4 ''NFS_LIMIT_SIZE'' = Some NFS_LIMIT_SIZE"
  "map_of limit_by4 ''NFS_LIMIT_BLOCKS'' = Some NFS_LIMIT_BLOCKS"
  "map_of createmode4 ''UNCHECKED4'' = Some UNCHECKED4"
  "map_of open_delegation_type4 ''OPEN_DELEGATE_WRITE'' = Some OPEN_DELEGATE_WRITE"
  "map_of open_delegation_type4 ''OPEN_DELEGATE_NONE_EXT'' = Some OPEN_DELEGATE_NONE_EXT"
  "map_of open_claim_type4 ''CLAIM_NULL'' = Some CLAIM_NULL"
  "map_of open_claim_type4 ''CLAIM_DELEGATE_CUR'' = Some CLAIM_DELEGATE_CUR"
  "map_of state_protect_how4 ''SP4_NONE'' = Some SP4_NONE"
  "map_of why_no_delegation4 ''WND4_CONTENTION'' = Some WND4_CONTENTION"
  "map_of share_access_flags ''OPEN4_SHARE_ACCESS_BOTH'' = Some OPEN4_SHARE_ACCESS_BOTH"
  by (simp_all add: enum_tables FILE_SYNC4_def OPEN4_NOCREATE_def OPEN4_CREATE_def NFS_LIMIT_SIZE_def
    NFS_LIMIT_BLOCKS_def UNCHECKED4_def OPEN_DELEGATE_WRITE_def OPEN_DELEGATE_NONE_EXT_def CLAIM_NULL_def
    CLAIM_DELEGATE_CUR_def SP4_NONE_def WND4_CONTENTION_def OPEN4_SHARE_ACCESS_BOTH_def)

end
