(* ===== verification/Foundations.thy ===== *)
theory Foundations
  imports Nfs_Const
begin

text \<open>
  What the foundations of the program promise: buffers, vectors, paths, decimal numbers,
  configuration values and the tables of codes.
\<close>

section \<open>Buffers and vectors\<close>

text \<open>C13: \<^verbatim>\<open>push_bytes\<close> on a buffer below the limit returns and appends the new bytes. It loses and
  reorders nothing of what the buffer held if nothing was consumed from it yet, whether it has to
  grow or not, or if the new bytes fit without growing. In the remaining case the buffer is left with
  as many old bytes, but those from the front of its allocation.\<close>

theorem push_bytes_appends:
  assumes "wf_buf b" and "unat (b_end b) + length ys \<le> limit"
  shows "\<exists>b'. push_bytes ys b = Some (Ok () b') \<and> wf_buf b' \<and>
    data b' = (if b_start b = 0 \<or> unat (b_end b) + length ys \<le> unat (b_capacity b) then data b
      else take (length (data b)) (b_contents b)) @ ys"
  using push_bytes_data[OF assms] by metis

lemma push_bytes_appends_witness:
  "\<exists>b'. push_bytes (cells_of [7, 8]) (allocate_buffer 0) = Some (Ok () b') \<and> data b' = cells_of [7, 8]"
  using push_bytes_appends[OF wf_allocate, of 0 "cells_of [7, 8]"]
  by (auto simp: allocate_buffer_def limit_def data_def)

text \<open>C38: When \<^verbatim>\<open>buffer_extend\<close> has to allocate, it keeps as many bytes as were unread, but copies
  them from the beginning of the old allocation and not from \<^verbatim>\<open>start\<close>: a buffer that was
  partly consumed loses its last bytes and gets consumed ones back.\<close>

theorem buffer_extend_copies_from_front:
  assumes "wf_buf b" and "unat (b_end b) + unat len \<le> limit" and "b_capacity b < b_end b + len"
  shows "\<exists>b'. buffer_extend len b = Some (Ok () b') \<and> wf_buf b' \<and> b_start b' = 0 \<and>
    data b' = take (length (data b)) (b_contents b)"
proof -
  have "length (data b) = unat (buffer_length b)"
    using length_data[OF assms(1)] wf_bufD(5)[OF assms(1)] by simp
  with buffer_extend_grows[OF assms(1) _ assms(3)] assms(2) show ?thesis by (metis trans_le_add1)
qed

definition half_read :: buffer where
  "half_read = \<lparr>b_start = 1, b_end = 2, b_capacity = 2, b_contents = cells_of [7, 8]\<rparr>"

lemma buffer_extend_copies_from_front_witness:
  "data half_read = [Some 8] \<and>
   (\<exists>b'. buffer_extend 1 half_read = Some (Ok () b') \<and> wf_buf b' \<and> b_start b' = 0 \<and>
      data b' = [Some 7])"
proof -
  have "wf_buf half_read" and d: "data half_read = [Some 8]"
    by (simp_all add: half_read_def wf_buf_def data_def)
  then have "\<exists>b'. buffer_extend 1 half_read = Some (Ok () b') \<and> wf_buf b' \<and> b_start b' = 0 \<and>
      data b' = take (length (data half_read)) (b_contents half_read)"
    by (intro buffer_extend_copies_from_front) (simp_all add: half_read_def limit_def)
  with d show ?thesis by (simp add: half_read_def)
qed

text \<open>C30: A vector is a queue as long as it does not have to grow after something was popped (\<open>vspace\<close>):
  pointers pushed behind those it holds come out first in, first out, all of them, and the next
  \<^verbatim>\<open>vector_pop\<close> panics instead of returning anything.\<close>

theorem vector_is_queue:
  assumes "vrep v ps" and "vspace v (length qs)"
  shows "\<exists>v' v''. seqs (map vector_push qs) v = Some (Ok () v') \<and>
    collect (length (ps @ qs)) vector_pop v' = Some (Ok (ps @ qs) v'') \<and>
    (\<exists>m. vector_pop v'' = Some (Crash (Panic m)))"
  using assms by (rule vq.push_then_pop)

lemma vector_is_queue_witness:
  "\<exists>v' v''. seqs (map vector_push [3, 1, 2]) (allocate_vector 1) = Some (Ok () v') \<and>
    collect (length ([] @ [3, 1, 2 :: ptr])) vector_pop v' = Some (Ok ([] @ [3, 1, 2]) v'') \<and>
    (\<exists>m. vector_pop v'' = Some (Crash (Panic m)))"
  by (rule vector_is_queue[OF vrep_empty]) (simp_all add: vspace_def allocate_vector_def allocate_buffer_def limit_def)

text \<open>
  The condition is needed: a vector for two pointers that has to grow after one was popped hands out
  that one again and loses the next.
\<close>

lemma grown_vector_repeats:
  "case bnd (seqs [vector_push 3, vector_push 1, bnd vector_pop (\<lambda>_. ret ()), vector_push 2])
      (\<lambda>_. collect 2 vector_pop) (allocate_vector 2) of
     Some (Ok ps v) \<Rightarrow> ps = [3, 2] | _ \<Rightarrow> False"
  by code_simp

text \<open>C31: Taking a path apart with \<^verbatim>\<open>split\<close> and putting it together with \<^verbatim>\<open>join\<close> gives it back, without
  its last byte when that is the divider: \<^verbatim>\<open>a/\<close> and \<^verbatim>\<open>a\<close> have the same components. The buffers that
  were on the heap before do not change.\<close>

theorem join_split:
  assumes "holds_bytes source bs" and "8 * (length bs + 1) \<le> limit" and "length H + length bs + 2 < 2 ^ 64"
  shows "\<exists>v H' out. split source d H = Some (Ok v (H @ H')) \<and>
    join v d (H @ H') = Some (Ok out (H @ H')) \<and>
    rep out (cells_of (if bs \<noteq> [] \<and> last bs = d then butlast bs else bs))"
proof -
  obtain v H' where "split source d H = Some (Ok v (H @ H'))" "path_of (H @ H') v (split_spec d bs)"
    using split_ok[OF assms(1-3)] by blast
  moreover have "length (join_spec d (split_spec d bs)) \<le> limit"
    using assms(2) by (auto simp: join_split_spec)
  ultimately show ?thesis
    using join_ok[of "H @ H'" v "split_spec d bs" d] by (force simp: join_split_spec)
qed

definition a_path :: buffer where
  "a_path = \<lparr>b_start = 0, b_end = 5, b_capacity = 5, b_contents = cells_of [47, 97, 47, 98, 47]\<rparr>"

lemma join_split_witness:
  "\<exists>v H' out. split a_path 47 [] = Some (Ok v ([] @ H')) \<and>
    join v 47 ([] @ H') = Some (Ok out ([] @ H')) \<and> rep out (cells_of [47, 97, 47, 98])"
  using join_split[of a_path "[47, 97, 47, 98, 47]" "[]" 47]
  by (simp add: a_path_def wf_buf_def data_def limit_def)

section \<open>Numbers, configuration, codes\<close>

text \<open>C32: \<^verbatim>\<open>parse_u64\<close> reads back the decimal notation of every number below \<open>2 ^ 64\<close>.\<close>

theorem parse_u64_decimal:
  assumes "holds_bytes s (decimal n)" and "n < 2 ^ 64"
  shows "\<exists>x. parse_u64 s = Some (Ok x s) \<and> unat x = n"
  using forchar_ok[OF assms(1)] parse_decimal[of n] assms(2)
  by (simp add: parse_u64_def bnd_def unat_of_nat)

lemma parse_u64_decimal_witness:
  "\<exists>x. parse_u64 \<lparr>b_start = 0, b_end = 2, b_capacity = 2, b_contents = cells_of [52, 50]\<rparr> =
      Some (Ok x \<lparr>b_start = 0, b_end = 2, b_capacity = 2, b_contents = cells_of [52, 50]\<rparr>) \<and>
    unat x = 42"
  by (rule parse_u64_decimal) (simp_all add: wf_buf_def data_def decimal.simps)

text \<open>C39: \<^verbatim>\<open>config_u64\<close> does not read a number: given the decimal notation of \<open>n\<close> it returns
  ten times the sum of the digits of \<open>n\<close>.\<close>

theorem config_u64_digit_sum:
  assumes "getenv name = Some (decimal n)"
  shows "config_u64 getenv name def = word_of_nat (10 * digit_sum n)"
  using assms by (simp add: config_u64_def config_decimal)

lemma config_u64_digit_sum_witness:
  "config_u64 (\<lambda>_. Some (decimal 32)) ''NFS_REQUESTS_LIMIT'' 16 = 50"
  using config_u64_digit_sum[of "\<lambda>_. Some (decimal 32)" _ 32 16]
  by (simp add: digit_sum.simps)

text \<open>C40: \<^verbatim>\<open>print_u64\<close> always returns: its search for a scale stops and never divides by zero. It
  appends between one and eight characters.\<close>

theorem print_u64_returns:
  assumes "rep d xs" and "length xs + 8 \<le> limit"
  shows "\<exists>d' ys. print_u64 s d = Some (Ok () d') \<and> rep d' (xs @ ys) \<and> 1 \<le> length ys \<and> length ys \<le> 8"
proof (cases "s = 0")
  case True
  have "writes (push_char 48) [Some 48]" by (rule writes_push_char)
  then obtain d' where "push_char 48 d = Some (Ok () d')" "rep d' (xs @ [Some 48])"
    using assms by (auto elim: writesD)
  with True show ?thesis by (auto simp: print_u64_def intro!: exI[of _ d'] exI[of _ "[Some 48]"])
next
  case False
  then obtain j where j: "j \<in> {1..7}" "writes (print_u64 s) (cells_of (digits_from j (unat s)))"
    by (rule print_u64_ok)
  let ?ys = "cells_of (digits_from j (unat s))"
  have n: "1 \<le> length ?ys" "length ?ys \<le> 8"
    using length_digits_from[of j "unat s"] digits_from_not_Nil[of "unat s" j] j(1) False
    by (simp_all add: Suc_le_eq unat_gt_0)
  with assms(2) have "length xs + length ?ys \<le> limit" by simp
  then obtain d' where "print_u64 s d = Some (Ok () d')" "rep d' (xs @ ?ys)"
    using j(2) assms(1) by (blast elim: writesD)
  with n show ?thesis by blast
qed

lemma print_u64_returns_witness:
  "\<exists>d' ys. print_u64 7 (allocate_buffer 0) = Some (Ok () d') \<and> rep d' ([] @ ys) \<and> 1 \<le> length ys \<and> length ys \<le> 8"
  by (rule print_u64_returns[OF rep_allocate]) (simp_all add: limit_def)

text \<open>Every status the server can send has a description: the search in \<^verbatim>\<open>nfsstatus\<close> never
  leaves the table, it finds the name of each code of \<^verbatim>\<open>enum nfsstat4\<close>, and says so of the rest.\<close>

theorem nfsstatus_total:
  "(\<forall>d. (d, v) \<in> set (butlast nfsstatus) \<longrightarrow> codestring nfsstatus v = Some d) \<and>
   (v \<notin> snd ` set nfsstat4 \<longrightarrow> codestring nfsstatus v = Some ''unknown error'')"
proof -
  have split: "nfsstatus = butlast nfsstatus @ [('''', snd (last nfsstatus))]"
    by (simp add: nfsstatus_def)
  have d: "distinct (map snd (butlast nfsstatus))"
    using nfsstat4_distinct nfsstat4_values by metis
  have e: "'''' \<notin> fst ` set (butlast nfsstatus)" by (simp add: nfsstatus_def)
  have s: "snd ` set (butlast nfsstatus) = snd ` set nfsstat4"
    using nfsstat4_values by (metis set_map)
  show ?thesis
    using codestring_hit[OF d e] codestring_miss[OF e] split s by metis
qed

lemma nfsstatus_total_witness:
  "codestring nfsstatus 10052 = Some ''bad session'' \<and> codestring nfsstatus 77777 = Some ''unknown error''"
proof -
  have hit: "(''bad session'', 10052) \<in> set (butlast nfsstatus)"
    by (simp add: nfsstatus_def)
  have miss: "77777 \<notin> snd ` set nfsstat4"
    by (simp add: nfsstat4_def)
  show ?thesis
    using nfsstatus_total[of 10052, THEN conjunct1, rule_format, OF hit]
      nfsstatus_total[of 77777, THEN conjunct2, rule_format, OF miss] ..
qed

end
