(* ===== verification/Internal.thy ===== *)
theory Internal
  imports Nfs_Const
begin

text \<open>
  \<^verbatim>\<open>nfsv4/nfs4_internal.h\<close>: the client, the open file and the request under construction,
  and the helpers that write to and read from a message buffer.

  The state \<open>'w st\<close> of an operation is the client, the file it works on, the heap of path
  components, the boolean behind the parameter \<^verbatim>\<open>badsession\<close>, the caller's memory that data
  is read into or written from, and the world outside (\<open>'w\<close>: sockets, server, clock), which
  only the calls of the operating system touch. Those calls are the parameter \<open>'w os\<close>.
\<close>

section \<open>Client, file, request\<close>

record client =
  c_fd :: int
  c_xid :: u32
  c_address :: cells
  c_clientid :: u64
  c_session :: cells
  c_sequence :: u32
  c_server_sequence :: u32
  c_lock_sequence :: u32
  c_instance_verifier :: "u8 list"
  c_forward :: buffer
  c_reverse :: buffer
  c_maxreq :: u32
  c_maxresp :: u32
  c_maxops :: u32
  c_maxreqs :: u32
  c_hostname :: buffer
  c_root_filehandle_len :: u8
  c_root_filehandle :: cells

record stateid =
  sid_sequence :: u32
  sid_opaque :: cells

record nfs_file =
  f_path :: vector
  f_filehandle_len :: u8
  f_filehandle :: cells
  f_latest_sid :: stateid
  f_open_sid :: stateid

text \<open>
  A \<^verbatim>\<open>buffer\<close> pointer inside a request is one of the two buffers of its client. The field
  \<^verbatim>\<open>completions\<close> is never used.
\<close>

datatype bufref = Forward | Reverse

record rpc =
  r_opcountloc :: u32
  r_opcount :: u32
  r_b :: bufref

record 'w st =
  s_client :: client
  s_file :: nfs_file
  s_heap :: heap
  s_bad :: bool
  s_mem :: cells
  s_world :: 'w

text \<open>
  The operating system. \<open>os_read fd n\<close> is \<^verbatim>\<open>read\<close> of at most \<open>n\<close> bytes (\<open>None\<close> is -1),
  \<open>os_write fd xs\<close> the result of \<^verbatim>\<open>write\<close>. \<open>os_gethostbyname\<close> gives \<^verbatim>\<open>h_addr\<close>, or nothing
  where the call returns a null pointer. \<open>os_rand\<close> is \<^verbatim>\<open>rand()\<close>.
\<close>

record 'w os =
  os_getenv :: env
  os_gethostbyname :: "u8 list \<Rightarrow> 'w \<Rightarrow> u8 list option \<times> 'w"
  os_socket :: "'w \<Rightarrow> int \<times> 'w"
  os_setsockopt :: "int \<Rightarrow> nat \<Rightarrow> nat \<Rightarrow> 'w \<Rightarrow> 'w"
  os_connect :: "int \<Rightarrow> cells \<Rightarrow> nat \<Rightarrow> 'w \<Rightarrow> int \<times> 'w"
  os_write :: "int \<Rightarrow> cells \<Rightarrow> 'w \<Rightarrow> int \<times> 'w"
  os_read :: "int \<Rightarrow> nat \<Rightarrow> 'w \<Rightarrow> u8 list option \<times> 'w"
  os_rand :: "'w \<Rightarrow> nat \<times> 'w"
  os_clock :: "'w \<Rightarrow> (u64 \<times> u64) \<times> 'w"

fun get_buf :: "bufref \<Rightarrow> client \<Rightarrow> buffer" where
  "get_buf Forward c = c_forward c"
| "get_buf Reverse c = c_reverse c"

fun set_buf :: "bufref \<Rightarrow> buffer \<Rightarrow> client \<Rightarrow> client" where
  "set_buf Forward b c = c\<lparr>c_forward := b\<rparr>"
| "set_buf Reverse b c = c\<lparr>c_reverse := b\<rparr>"

definition on_client :: "(client, 'a) prog \<Rightarrow> ('w st, 'a) prog" where
  "on_client = zoom s_client (\<lambda>c s. s\<lparr>s_client := c\<rparr>)"

definition on_buf :: "bufref \<Rightarrow> (buffer, 'a) prog \<Rightarrow> ('w st, 'a) prog" where
  "on_buf w m = on_client (zoom (get_buf w) (set_buf w) m)"

definition on_heap :: "(heap, 'a) prog \<Rightarrow> ('w st, 'a) prog" where
  "on_heap = zoom s_heap (\<lambda>H s. s\<lparr>s_heap := H\<rparr>)"

definition on_file :: "(nfs_file, 'a) prog \<Rightarrow> ('w st, 'a) prog" where
  "on_file = zoom s_file (\<lambda>f s. s\<lparr>s_file := f\<rparr>)"

definition on_world :: "('w \<Rightarrow> 'a \<times> 'w) \<Rightarrow> ('w st, 'a) prog" where
  "on_world f s = (case f (s_world s) of (a, w) \<Rightarrow> Some (Ok a (s\<lparr>s_world := w\<rparr>)))"

text \<open>
  A function with a \<^verbatim>\<open>boolean\<close> of its own that it passes as \<^verbatim>\<open>badsession\<close>: the boolean lives
  as long as the call.
\<close>

definition with_flag :: "bool \<Rightarrow> ('w st, 'a) prog \<Rightarrow> ('w st, 'a) prog" where
  "with_flag b m s = map_option (map_out (\<lambda>t. t\<lparr>s_bad := s_bad s\<rparr>) id) (m (s\<lparr>s_bad := b\<rparr>))"

section \<open>Writing to a message\<close>

definition push_be32 :: "u32 \<Rightarrow> (buffer, unit) prog" where
  "push_be32 w = seqs
     [buffer_extend 4,
      \<lambda>b. buf_store (unat (b_end b)) (cells_of (be32 w)) b,
      modify (\<lambda>b. b\<lparr>b_end := b_end b + 4\<rparr>)]"

definition push_boolean :: "bool \<Rightarrow> (buffer, unit) prog" where
  "push_boolean x = seqs
     [buffer_extend 4,
      \<lambda>b. buf_store (unat (b_end b)) (cells_of (if x then be32 1 else [0, 0, 0, 0])) b,
      modify (\<lambda>b. b\<lparr>b_end := b_end b + 4\<rparr>)]"

definition push_be64 :: "u64 \<Rightarrow> (buffer, unit) prog" where
  "push_be64 w = seqs
     [buffer_extend 8,
      \<lambda>b. buf_store (unat (b_end b)) (cells_of (be32 (ucast (drop_bit 32 w)))) b,
      \<lambda>b. buf_store (unat (b_end b) + 4) (cells_of (be32 (ucast (w AND 0xffffffff)))) b,
      modify (\<lambda>b. b\<lparr>b_end := b_end b + 8\<rparr>)]"

text \<open>
  \<open>memcpy_end x n\<close> is \<^verbatim>\<open>memcpy(b->contents + b->end, x, n)\<close>, where \<open>x\<close> is the memory the
  source pointer leads to; \<open>bump n\<close> is \<^verbatim>\<open>b->end += n\<close>.
\<close>

definition memcpy_end :: "cells \<Rightarrow> nat \<Rightarrow> (buffer, unit) prog" where
  "memcpy_end x n b = (case mem_load 0 n x of
      None \<Rightarrow> Some (Crash Out_of_bounds)
    | Some xs \<Rightarrow> buf_store (unat (b_end b)) xs b)"

definition bump :: "u32 \<Rightarrow> (buffer, unit) prog" where
  "bump n = modify (\<lambda>b. b\<lparr>b_end := b_end b + n\<rparr>)"

text \<open>
  The steps that build a request: \<open>on_b\<close> writes to the buffer of the request, \<open>from_client\<close>
  looks at the client first.
\<close>

type_synonym 'w push = "rpc \<Rightarrow> ('w st, rpc) prog"

definition on_b :: "(buffer, unit) prog \<Rightarrow> 'w push" where
  "on_b m r = bnd (on_buf (r_b r) m) (\<lambda>_. ret r)"

definition from_client :: "(client \<Rightarrow> 'w push) \<Rightarrow> 'w push" where
  "from_client k r s = k (s_client s) r s"

definition update_client :: "(client \<Rightarrow> client) \<Rightarrow> 'w push" where
  "update_client f r = bnd (modify (\<lambda>s. s\<lparr>s_client := f (s_client s)\<rparr>)) (\<lambda>_. ret r)"

definition push_op :: "u32 \<Rightarrow> 'w push" where
  "push_op op r = bnd (on_buf (r_b r) (push_be32 op)) (\<lambda>_. ret (r\<lparr>r_opcount := r_opcount r + 1\<rparr>))"

section \<open>Reading from a message\<close>

definition read_beu32 :: "(buffer, u32) prog" where
  "read_beu32 b =
     (if b_end b - b_start b < 4 then Some (Err ''out of data'' b)
      else bnd (buf_bytes (unat (b_start b)) 4) (\<lambda>bs.
           bnd (modify (\<lambda>b. b\<lparr>b_start := b_start b + 4\<rparr>)) (\<lambda>_. ret (of_be32 bs))) b)"

definition read_beu64 :: "(buffer, u64) prog" where
  "read_beu64 b =
     (if b_end b - b_start b < 8 then Some (Err ''out of data'' b)
      else bnd (buf_bytes (unat (b_start b)) 4) (\<lambda>hi.
           bnd (buf_bytes (unat (b_start b) + 4) 4) (\<lambda>lo.
           bnd (modify (\<lambda>b. b\<lparr>b_start := b_start b + 8\<rparr>)) (\<lambda>_.
           ret (push_bit 32 (ucast (of_be32 hi)) OR ucast (of_be32 lo))))) b)"

definition verify_and_adv :: "u32 \<Rightarrow> (buffer, unit) prog" where
  "verify_and_adv v = bnd read_beu32 (\<lambda>v2. check ''encoding mismatch'' (v = v2))"

text \<open>
  \<^verbatim>\<open>read_buffer\<close> copies \<open>len\<close> bytes and moves past them; with a null destination it only
  moves (\<open>skip_buffer\<close>).
\<close>

definition skip_buffer :: "u32 \<Rightarrow> (buffer, unit) prog" where
  "skip_buffer len b =
     (if buffer_length b < len then Some (Err ''out of data'' b)
      else Some (Ok () (b\<lparr>b_start := b_start b + len\<rparr>)))"

definition read_buffer :: "u32 \<Rightarrow> (buffer, cells) prog" where
  "read_buffer len b =
     (if buffer_length b < len then Some (Err ''out of data'' b)
      else bnd (buf_load (unat (b_start b)) (unat len)) (\<lambda>xs.
           bnd (modify (\<lambda>b. b\<lparr>b_start := b_start b + len\<rparr>)) (\<lambda>_. ret xs)) b)"

text \<open>\<^verbatim>\<open>allocate_status(c, codestring(nfsstatus, v))\<close>.\<close>

definition nfs_error :: "u32 \<Rightarrow> ('s, 'a) prog" where
  "nfs_error v = (case codestring nfsstatus v of
      None \<Rightarrow> crash Out_of_bounds
    | Some c \<Rightarrow> err c)"

section \<open>Random bytes\<close>

definition ascii :: "string \<Rightarrow> u8 list" where
  "ascii = map (\<lambda>c. word_of_nat (of_char c))"

definition charset :: "u8 list" where
  "charset = ascii
     (''-_0123456789'' @ ''abcdefghijklmnopqrstuvwxyz'' @ ''ABCDEFGHIJKLMNOPQRSTUVWXYZ'')"

lemma length_ascii [simp]: "length (ascii cs) = length cs"
  by (simp add: ascii_def)

text \<open>The array has a terminating zero, the index is \<^verbatim>\<open>rand() % len\<close>.\<close>

definition fill_random :: "'w os \<Rightarrow> nat \<Rightarrow> ('w st, u8 list) prog" where
  "fill_random os len = collect len
     (bnd (on_world (os_rand os)) (\<lambda>n.
        if n mod len < length (charset @ [0]) then ret ((charset @ [0]) ! (n mod len))
        else crash Out_of_bounds))"

section \<open>Lifting\<close>

lemma get_set_buf [simp]: "get_buf w (set_buf w b c) = b"
  by (cases w) simp_all

lemma set_set_buf [simp]: "set_buf w b (set_buf w b' c) = set_buf w b c"
  by (cases w) simp_all

lemma set_get_buf [simp]: "set_buf w (get_buf w c) c = c"
  by (cases w) simp_all

lemma get_set_buf_other: "w \<noteq> w' \<Longrightarrow> get_buf w (set_buf w' b c) = get_buf w c"
  by (cases w; cases w') simp_all

lemma on_client_Ok [run]:
  "m (s_client s) = Some (Ok a c) \<Longrightarrow> on_client m s = Some (Ok a (s\<lparr>s_client := c\<rparr>))"
  by (simp add: on_client_def zoom_def)

lemma on_buf_Ok [run]:
  "m (get_buf w (s_client s)) = Some (Ok a b) \<Longrightarrow>
   on_buf w m s = Some (Ok a (s\<lparr>s_client := set_buf w b (s_client s)\<rparr>))"
  by (simp add: on_buf_def on_client_def zoom_def)

lemma on_buf_Err [run]:
  "m (get_buf w (s_client s)) = Some (Err a b) \<Longrightarrow>
   on_buf w m s = Some (Err a (s\<lparr>s_client := set_buf w b (s_client s)\<rparr>))"
  by (simp add: on_buf_def on_client_def zoom_def)

lemma on_buf_Crash [run]:
  "m (get_buf w (s_client s)) = Some (Crash f) \<Longrightarrow> on_buf w m s = Some (Crash f)"
  by (simp add: on_buf_def on_client_def zoom_def)

lemma client_fields_set_buf [simp]:
  "c_fd (set_buf w b c) = c_fd c" "c_xid (set_buf w b c) = c_xid c"
  "c_address (set_buf w b c) = c_address c" "c_clientid (set_buf w b c) = c_clientid c"
  "c_session (set_buf w b c) = c_session c" "c_sequence (set_buf w b c) = c_sequence c"
  "c_server_sequence (set_buf w b c) = c_server_sequence c"
  "c_lock_sequence (set_buf w b c) = c_lock_sequence c"
  "c_instance_verifier (set_buf w b c) = c_instance_verifier c"
  "c_maxreq (set_buf w b c) = c_maxreq c" "c_maxresp (set_buf w b c) = c_maxresp c"
  "c_maxops (set_buf w b c) = c_maxops c" "c_maxreqs (set_buf w b c) = c_maxreqs c"
  "c_hostname (set_buf w b c) = c_hostname c"
  "c_root_filehandle_len (set_buf w b c) = c_root_filehandle_len c"
  "c_root_filehandle (set_buf w b c) = c_root_filehandle c"
  by (cases w; simp)+

section \<open>What the writers append\<close>

lemma memcpy_end_put:
  "length x = n \<Longrightarrow> memcpy_end x n = (\<lambda>b. buf_store (unat (b_end b)) x b)"
  by (rule ext) (simp add: memcpy_end_def mem_load_def)

lemma push_be32_alt: "push_be32 w = push_bytes (cells_of (be32 w))"
  by (simp add: push_be32_def push_bytes_def)

lemma writes_push_be32: "writes (push_be32 w) (cells_of (be32 w))"
  unfolding push_be32_alt by (rule writes_push_bytes) (simp add: limit_def)

definition be_bool :: "bool \<Rightarrow> u8 list" where
  "be_bool x = be32 (if x then 1 else 0)"

lemma be32_0: "be32 0 = [0, 0, 0, 0]"
  by (simp add: be32_def)

lemma length_be_bool [simp]: "length (be_bool x) = 4"
  by (simp add: be_bool_def)

lemma writes_push_boolean: "writes (push_boolean x) (cells_of (be_bool x))"
proof -
  have "push_boolean x = push_bytes (cells_of (be_bool x))"
    by (cases x) (simp_all add: push_boolean_def push_bytes_def be_bool_def be32_0)
  then show ?thesis by (simp add: writes_push_bytes limit_def)
qed

lemma mem_store_twice:
  "mem_store off (xs @ ys) m =
     (case mem_store off xs m of None \<Rightarrow> None | Some m' \<Rightarrow> mem_store (off + length xs) ys m')"
proof (cases "off + length xs \<le> length m")
  case True
  let ?m' = "take off m @ xs @ drop (off + length xs) m"
  have 1: "take (off + length xs) ?m' = take off m @ xs"
    using True by (cases xs) (simp_all add: min_def)
  have 2: "drop (off + length xs + length ys) ?m' = drop (off + length xs + length ys) m"
    using True by (auto simp: min_def ac_simps not_le)
  have 3: "length ?m' = length m" using True by simp
  have 4: "mem_store off xs m = Some ?m'" using True by (simp add: mem_store_def)
  show ?thesis unfolding 4 option.case unfolding mem_store_def 1 2 3 by (simp add: add.assoc)
qed (simp add: mem_store_def)

lemma store_twice:
  "bnd (\<lambda>b. buf_store (unat (b_end b)) xs b) (\<lambda>_. bnd (\<lambda>b. buf_store (unat (b_end b) + length xs) ys b) k)
     = bnd (\<lambda>b. buf_store (unat (b_end b)) (xs @ ys) b) k"
  for k :: "unit \<Rightarrow> (buffer, unit) prog"
  by (rule ext) (auto simp: bnd_def buf_store_def mem_store_twice split: option.splits)

lemma mask32: "(ucast (w AND 0xffffffff) :: u32) = ucast (w :: u64)"
proof -
  have m: "(0xffffffff :: u64) = mask 32" by (simp add: mask_eq_exp_minus_1)
  show ?thesis unfolding m by (rule bit_word_eqI) (simp add: bit_simps)
qed

lemma push_be64_alt: "push_be64 w = push_bytes (cells_of (be64 w))"
  using store_twice[of "cells_of (be32 (ucast (drop_bit 32 w)))" "cells_of (be32 (ucast w))"]
  by (simp add: push_be64_def push_bytes_def mask32 be64_def)

lemma writes_push_be64: "writes (push_be64 w) (cells_of (be64 w))"
  unfolding push_be64_alt by (rule writes_push_bytes) (simp add: limit_def)

end
