(* ===== verification/Message.thy ===== *)
theory Message
  imports Internal
begin

text \<open>
  How a message is read and written, stated once for all operations: \<open>parses m p\<close> says that
  the reading function \<open>m\<close> on a buffer does what the abstract parser \<open>p\<close> does on the bytes
  left in it, and \<open>emits f enc k upd\<close> that the building function \<open>f\<close> appends the bytes \<open>enc\<close>,
  adds \<open>k\<close> operations to the request and changes the client by \<open>upd\<close>, when the heap and the
  open file are \<open>H\<close>.
\<close>

section \<open>Reading\<close>

text \<open>\<open>cur b bs\<close>: \<open>bs\<close> are the bytes of \<open>b\<close> that were not consumed yet.\<close>

definition cur :: "buffer \<Rightarrow> u8 list \<Rightarrow> bool" where
  "cur b bs \<longleftrightarrow> wf_buf b \<and> data b = cells_of bs"

definition same_store :: "buffer \<Rightarrow> buffer \<Rightarrow> bool" where
  "same_store b b' \<longleftrightarrow> b_end b' = b_end b \<and> b_capacity b' = b_capacity b \<and> b_contents b' = b_contents b"

text \<open>
  An abstract parser works on the list of bytes left. Where it has no outcome (\<open>None\<close>) it
  promises nothing.
\<close>

definition parses :: "(buffer, 'a) prog \<Rightarrow> (u8 list, 'a) prog \<Rightarrow> bool" where
  "parses m p \<longleftrightarrow> (\<forall>b bs. cur b bs \<longrightarrow> (case p bs of
      None \<Rightarrow> True
    | Some (Ok a bs') \<Rightarrow> \<exists>b'. m b = Some (Ok a b') \<and> cur b' bs' \<and> same_store b b'
    | Some (Err c bs') \<Rightarrow> \<exists>b'. m b = Some (Err c b') \<and> cur b' bs' \<and> same_store b b'
    | Some (Crash f) \<Rightarrow> m b = Some (Crash f)))"

named_theorems parse \<open>what the reading functions do on the bytes left\<close>

definition take_bytes :: "nat \<Rightarrow> (u8 list, u8 list) prog" where
  "take_bytes n bs = (if length bs < n then Some (Err ''out of data'' bs)
     else Some (Ok (take n bs) (drop n bs)))"

definition get32 :: "(u8 list, u32) prog" where
  "get32 = bnd (take_bytes 4) (\<lambda>bs. ret (of_be32 bs))"

definition get64 :: "(u8 list, u64) prog" where
  "get64 = bnd (take_bytes 8) (\<lambda>bs. ret (of_be64 bs))"

definition expect32 :: "u32 \<Rightarrow> (u8 list, unit) prog" where
  "expect32 v = bnd get32 (\<lambda>v2. check ''encoding mismatch'' (v = v2))"

lemma same_store_refl [simp]: "same_store b b"
  by (simp add: same_store_def)

lemma same_store_trans: "same_store a b \<Longrightarrow> same_store b c \<Longrightarrow> same_store a c"
  by (simp add: same_store_def)

lemma parsesI:
  assumes "\<And>b bs. cur b bs \<Longrightarrow> (case p bs of
      None \<Rightarrow> True
    | Some (Ok a bs') \<Rightarrow> \<exists>b'. m b = Some (Ok a b') \<and> cur b' bs' \<and> same_store b b'
    | Some (Err c bs') \<Rightarrow> \<exists>b'. m b = Some (Err c b') \<and> cur b' bs' \<and> same_store b b'
    | Some (Crash f) \<Rightarrow> m b = Some (Crash f))"
  shows "parses m p"
  using assms by (simp add: parses_def)

lemma parses_Ok:
  assumes "parses m p" and "cur b bs" and "p bs = Some (Ok a bs')"
  obtains b' where "m b = Some (Ok a b')" and "cur b' bs'" and "same_store b b'"
  using assms unfolding parses_def by force

lemma parses_Err:
  assumes "parses m p" and "cur b bs" and "p bs = Some (Err c bs')"
  obtains b' where "m b = Some (Err c b')" and "cur b' bs'" and "same_store b b'"
  using assms unfolding parses_def by force

lemma parses_Crash: "parses m p \<Longrightarrow> cur b bs \<Longrightarrow> p bs = Some (Crash f) \<Longrightarrow> m b = Some (Crash f)"
  unfolding parses_def by force

lemma parses_bnd [parse]:
  assumes "parses m p" and "\<And>a. parses (k a) (q a)"
  shows "parses (bnd m k) (bnd p q)"
proof (rule parsesI)
  fix b bs assume b: "cur b bs"
  show "case bnd p q bs of
      None \<Rightarrow> True
    | Some (Ok a bs') \<Rightarrow> \<exists>b'. bnd m k b = Some (Ok a b') \<and> cur b' bs' \<and> same_store b b'
    | Some (Err c bs') \<Rightarrow> \<exists>b'. bnd m k b = Some (Err c b') \<and> cur b' bs' \<and> same_store b b'
    | Some (Crash f) \<Rightarrow> bnd m k b = Some (Crash f)"
  proof (cases "p bs")
    case (Some out)
    show ?thesis
    proof (cases out)
      case (Ok a bs1)
      with Some b assms(1) obtain b1 where b1: "m b = Some (Ok a b1)" "cur b1 bs1" "same_store b b1"
        by (metis parses_Ok)
      from assms(2)[of a, unfolded parses_def, rule_format, OF b1(2)]
      show ?thesis
        by (auto simp: bnd_Ok[of p, OF Some[unfolded Ok]] bnd_Ok[of m, OF b1(1)]
            intro: same_store_trans[OF b1(3)] split: option.splits out.splits)
    next
      case (Err c bs1)
      with Some b assms(1) obtain b1 where "m b = Some (Err c b1)" "cur b1 bs1" "same_store b b1"
        by (metis parses_Err)
      with Some Err show ?thesis by (simp add: bnd_Err)
    next
      case (Crash f)
      with Some parses_Crash[OF assms(1) b] show ?thesis by (simp add: bnd_Crash)
    qed
  qed (simp add: bnd_None)
qed

lemma parses_ret [parse]: "parses (ret a) (ret a)"
  by (rule parsesI) (simp add: exI[of _ _])

lemma parses_err [parse]: "parses (err c) (err c)"
  by (rule parsesI) simp

lemma parses_crash [parse]: "parses (crash f) (crash f)"
  by (rule parsesI) simp

lemma parses_check [parse]: "parses (check c x) (check c x)"
  by (rule parsesI) simp

lemma parses_if [parse]:
  "(x \<Longrightarrow> parses m p) \<Longrightarrow> (\<not> x \<Longrightarrow> parses n q) \<Longrightarrow> parses (if x then m else n) (if x then p else q)"
  by simp

lemma parses_nfs_error [parse]: "parses (nfs_error v) (nfs_error v)"
  by (simp add: nfs_error_def parse split: option.split)

lemma cur_length: "cur b bs \<Longrightarrow> unat (buffer_length b) = length bs"
  using wf_bufD(5)[of b] length_data[of b] by (simp add: cur_def)

lemma cur_advance:
  assumes "cur b bs" and "unat n \<le> length bs"
  shows "cur (b\<lparr>b_start := b_start b + n\<rparr>) (drop (unat n) bs)"
proof -
  have wf: "wf_buf b" and d: "data b = cells_of bs" using assms(1) by (simp_all add: cur_def)
  note w = wf_bufD[OF wf]
  have e: "unat (b_end b) = unat (b_start b) + length bs"
    using cur_length[OF assms(1)] w by simp
  then have s: "unat (b_start b + n) = unat (b_start b) + unat n"
    using w assms(2) by (intro unat_add_small) simp
  then have "data (b\<lparr>b_start := b_start b + n\<rparr>) = drop (unat n) (data b)"
    by (simp add: data_def drop_take add.commute)
  with wf e s assms(2) show ?thesis
    by (simp add: cur_def wf_buf_def word_le_nat_alt drop_map d)
qed

lemma cur_short: "cur b bs \<Longrightarrow> length bs < 2 ^ 31"
  using cur_length[of b bs] wf_bufD[of b] by (simp add: cur_def)

lemma parses_read_bytes:
  assumes "unat n = k"
    and "\<And>b. m b = (if buffer_length b < n then Some (Err ''out of data'' b)
          else bnd (buf_bytes (unat (b_start b)) k) (\<lambda>bs.
               bnd (modify (\<lambda>b. b\<lparr>b_start := b_start b + n\<rparr>)) (\<lambda>_. ret (g bs))) b)"
  shows "parses m (bnd (take_bytes k) (\<lambda>bs. ret (g bs)))"
proof (rule parsesI)
  fix b bs assume b: "cur b bs"
  then have "wf_buf b" "data b = cells_of bs" by (simp_all add: cur_def)
  note load = buf_bytes_data[OF this, of 0, simplified]
  show "case bnd (take_bytes k) (\<lambda>bs. ret (g bs)) bs of
      None \<Rightarrow> True
    | Some (Ok a bs') \<Rightarrow> \<exists>b'. m b = Some (Ok a b') \<and> cur b' bs' \<and> same_store b b'
    | Some (Err c bs') \<Rightarrow> \<exists>b'. m b = Some (Err c b') \<and> cur b' bs' \<and> same_store b b'
    | Some (Crash f) \<Rightarrow> m b = Some (Crash f)"
  proof (cases "length bs < k")
    case True
    then have "buffer_length b < n" using cur_length[OF b] assms(1) by (simp add: word_less_nat_alt)
    with True b show ?thesis by (simp add: assms(2) take_bytes_def bnd_def)
  next
    case False
    then have "\<not> buffer_length b < n" using cur_length[OF b] assms(1) by (simp add: word_less_nat_alt)
    with False load[of k] cur_advance[OF b, of n] assms(1) show ?thesis
      by (simp add: assms(2) take_bytes_def bnd_def same_store_def)
  qed
qed

lemma parses_read_beu32 [parse]: "parses read_beu32 get32"
  unfolding get32_def
  by (rule parses_read_bytes[where n = 4]) (simp_all add: read_beu32_def buffer_length_def)

lemma parses_verify [parse]: "parses (verify_and_adv v) (expect32 v)"
  unfolding verify_and_adv_def expect32_def by (intro parse)

lemma parses_read_beu64 [parse]: "parses read_beu64 get64"
proof (rule parsesI)
  fix b bs assume b: "cur b bs"
  then have "wf_buf b" "data b = cells_of bs" by (simp_all add: cur_def)
  note load = buf_bytes_data[OF this]
  show "case get64 bs of
      None \<Rightarrow> True
    | Some (Ok a bs') \<Rightarrow> \<exists>b'. read_beu64 b = Some (Ok a b') \<and> cur b' bs' \<and> same_store b b'
    | Some (Err c bs') \<Rightarrow> \<exists>b'. read_beu64 b = Some (Err c b') \<and> cur b' bs' \<and> same_store b b'
    | Some (Crash f) \<Rightarrow> read_beu64 b = Some (Crash f)"
  proof (cases "length bs < 8")
    case True
    then have "buffer_length b < 8" using cur_length[OF b] by (simp add: word_less_nat_alt)
    with True b show ?thesis
      by (simp add: read_beu64_def get64_def take_bytes_def bnd_def buffer_length_def)
  next
    case False
    then have "\<not> buffer_length b < 8" using cur_length[OF b] by (simp add: word_less_nat_alt)
    with False load[of 0 4] load[of 4 4] cur_advance[OF b, of 8] show ?thesis
      by (simp add: read_beu64_def get64_def take_bytes_def bnd_def buffer_length_def
          same_store_def of_be64_def drop_take)
  qed
qed

lemma parses_skip_buffer [parse]: "parses (skip_buffer n) (bnd (take_bytes (unat n)) (\<lambda>_. ret ()))"
proof (rule parsesI)
  fix b bs assume b: "cur b bs"
  have "buffer_length b < n \<longleftrightarrow> length bs < unat n"
    using cur_length[OF b] by (simp add: word_less_nat_alt)
  with b cur_advance[OF b, of n]
  show "case bnd (take_bytes (unat n)) (\<lambda>_. ret ()) bs of
      None \<Rightarrow> True
    | Some (Ok a bs') \<Rightarrow> \<exists>b'. skip_buffer n b = Some (Ok a b') \<and> cur b' bs' \<and> same_store b b'
    | Some (Err c bs') \<Rightarrow> \<exists>b'. skip_buffer n b = Some (Err c b') \<and> cur b' bs' \<and> same_store b b'
    | Some (Crash f) \<Rightarrow> skip_buffer n b = Some (Crash f)"
    by (simp add: skip_buffer_def take_bytes_def bnd_def same_store_def)
qed

lemma buf_bytes_load: "buf_bytes off n b = Some (Ok bs b) \<Longrightarrow> buf_load off n b = Some (Ok (cells_of bs) b)"
  by (auto simp: buf_bytes_def bnd_def buf_load_def dest!: those_Some split: option.splits)

lemma parses_read_buffer [parse]:
  "parses (read_buffer n) (bnd (take_bytes (unat n)) (\<lambda>bs. ret (cells_of bs)))"
proof (rule parsesI)
  fix b bs assume b: "cur b bs"
  then have "wf_buf b" "data b = cells_of bs" by (simp_all add: cur_def)
  note load = buf_bytes_load[OF buf_bytes_data[OF this, of 0, simplified]]
  have "buffer_length b < n \<longleftrightarrow> length bs < unat n"
    using cur_length[OF b] by (simp add: word_less_nat_alt)
  with b load cur_advance[OF b, of n]
  show "case bnd (take_bytes (unat n)) (\<lambda>bs. ret (cells_of bs)) bs of
      None \<Rightarrow> True
    | Some (Ok a bs') \<Rightarrow> \<exists>b'. read_buffer n b = Some (Ok a b') \<and> cur b' bs' \<and> same_store b b'
    | Some (Err c bs') \<Rightarrow> \<exists>b'. read_buffer n b = Some (Err c b') \<and> cur b' bs' \<and> same_store b b'
    | Some (Crash f) \<Rightarrow> read_buffer n b = Some (Crash f)"
    by (simp add: read_buffer_def take_bytes_def bnd_def same_store_def)
qed

section \<open>Reading, with the rest of the state\<close>

text \<open>
  The results of an operation are read from one buffer \<open>w\<close> of the client while other parts
  of the state change. The abstract side is the state and, beside it, the bytes left in that
  buffer; \<open>at w s t bs\<close> relates the two: \<open>s\<close> is \<open>t\<close> but for how far \<open>w\<close> was consumed.
\<close>

definition at :: "bufref \<Rightarrow> 'w st \<Rightarrow> 'w st \<Rightarrow> u8 list \<Rightarrow> bool" where
  "at w s t bs \<longleftrightarrow> (\<exists>b. s = t\<lparr>s_client := set_buf w b (s_client t)\<rparr> \<and> cur b bs \<and>
     same_store (get_buf w (s_client t)) b)"

type_synonym ('w, 'a) reader = "('w st \<times> u8 list, 'a) prog"

definition bytes_left :: "(u8 list, 'a) prog \<Rightarrow> ('w, 'a) reader" where
  "bytes_left = zoom snd (\<lambda>bs (t, _). (t, bs))"

definition aside :: "('w st, 'a) prog \<Rightarrow> ('w, 'a) reader" where
  "aside = zoom fst (\<lambda>t (_, bs). (t, bs))"

definition agree :: "bufref \<Rightarrow> ('w st, 'a) out option \<Rightarrow> ('w st \<times> u8 list, 'a) out option \<Rightarrow> bool" where
  "agree w x y \<longleftrightarrow> (case y of
      None \<Rightarrow> True
    | Some (Ok a (t, bs)) \<Rightarrow> \<exists>s. x = Some (Ok a s) \<and> at w s t bs
    | Some (Err c (t, bs)) \<Rightarrow> \<exists>s. x = Some (Err c s) \<and> at w s t bs
    | Some (Crash f) \<Rightarrow> x = Some (Crash f))"

definition refines :: "bufref \<Rightarrow> ('w st, 'a) prog \<Rightarrow> ('w, 'a) reader \<Rightarrow> bool" where
  "refines w m p \<longleftrightarrow> (\<forall>s t bs. at w s t bs \<longrightarrow> agree w (m s) (p (t, bs)))"

named_theorems refine \<open>what the readers do, with the rest of the state\<close>

lemma at_start: "cur (get_buf w (s_client s)) bs \<Longrightarrow> at w s s bs"
  by (auto simp: at_def intro!: exI[of _ "get_buf w (s_client s)"])

lemma agree_simps [simp]:
  "agree w x None"
  "agree w x (Some (Ok a (t, bs))) \<longleftrightarrow> (\<exists>s. x = Some (Ok a s) \<and> at w s t bs)"
  "agree w x (Some (Err c (t, bs))) \<longleftrightarrow> (\<exists>s. x = Some (Err c s) \<and> at w s t bs)"
  "agree w x (Some (Crash f)) \<longleftrightarrow> x = Some (Crash f)"
  by (simp_all add: agree_def)

lemma agree_cases [consumes 1, case_names None Ok Err Crash]:
  assumes "agree w x y"
  obtains "y = None"
  | a s t bs where "y = Some (Ok a (t, bs))" and "x = Some (Ok a s)" and "at w s t bs"
  | c s t bs where "y = Some (Err c (t, bs))" and "x = Some (Err c s)" and "at w s t bs"
  | f where "y = Some (Crash f)" and "x = Some (Crash f)"
  using assms by (auto simp: agree_def split: option.splits out.splits prod.splits)

lemma refinesI: "(\<And>s t bs. at w s t bs \<Longrightarrow> agree w (m s) (p (t, bs))) \<Longrightarrow> refines w m p"
  by (simp add: refines_def)

lemma refinesD: "refines w m p \<Longrightarrow> at w s t bs \<Longrightarrow> agree w (m s) (p (t, bs))"
  by (simp add: refines_def)

lemma refines_Ok:
  assumes "refines w m p" and "at w s t bs" and "p (t, bs) = Some (Ok a (t', bs'))"
  obtains s' where "m s = Some (Ok a s')" and "at w s' t' bs'"
  using refinesD[OF assms(1,2)] assms(3) by auto

lemma refines_Err:
  assumes "refines w m p" and "at w s t bs" and "p (t, bs) = Some (Err c (t', bs'))"
  obtains s' where "m s = Some (Err c s')" and "at w s' t' bs'"
  using refinesD[OF assms(1,2)] assms(3) by auto

lemma refines_bnd [refine]:
  assumes m: "refines w m p" and k: "\<And>a. refines w (k a) (q a)"
  shows "refines w (bnd m k) (bnd p q)"
proof (rule refinesI)
  fix s t :: "'a st" and bs
  assume "at w s t bs"
  with m have "agree w (m s) (p (t, bs))" by (rule refinesD)
  then show "agree w (bnd m k s) (bnd p q (t, bs))"
  proof (cases rule: agree_cases)
    case (Ok a s' t' bs')
    then show ?thesis using refinesD[OF k[of a] Ok(3)] by (simp add: bnd_def)
  qed (auto simp: bnd_def)
qed

lemma refines_ret [refine]: "refines w (ret a) (ret a)"
  by (rule refinesI) auto

lemma refines_err [refine]: "refines w (err a) (err a)"
  by (rule refinesI) auto

lemma refines_crash [refine]: "refines w (crash a) (crash a)"
  by (rule refinesI) auto

lemma refines_check [refine]: "refines w (check c x) (check c x)"
  by (rule refinesI) auto

lemma refines_nfs_error [refine]: "refines w (nfs_error v) (nfs_error v)"
  by (simp add: nfs_error_def refine split: option.split)

lemma refines_of_status [refine]: "refines w (of_status x) (of_status x)"
  by (simp add: of_status_def refine split: option.split)

lemma refines_if [refine]:
  "(x \<Longrightarrow> refines w m p) \<Longrightarrow> (\<not> x \<Longrightarrow> refines w n q) \<Longrightarrow>
   refines w (if x then m else n) (if x then p else q)"
  by simp

lemma refines_status_of [refine]:
  assumes "refines w m p"
  shows "refines w (status_of m) (status_of p)"
proof (rule refinesI)
  fix s t :: "'a st" and bs
  assume "at w s t bs"
  with assms have "agree w (m s) (p (t, bs))" by (rule refinesD)
  then show "agree w (status_of m s) (status_of p (t, bs))"
    by (cases rule: agree_cases) (auto simp: status_of_def)
qed

lemma refines_ignoring [refine]: "refines w m p \<Longrightarrow> refines w (ignoring m) (ignoring p)"
  unfolding ignoring_def by (intro refine)

lemma refines_seqs_Nil [refine]: "refines w (seqs []) (seqs [])"
  by (simp add: refines_ret del: ret_run)

lemma refines_seqs_Cons [refine]:
  "refines w m p \<Longrightarrow> refines w (seqs ms) (seqs ps) \<Longrightarrow> refines w (seqs (m # ms)) (seqs (p # ps))"
  by (simp add: refines_bnd)

lemma refines_on_buf [refine]:
  assumes "parses m p"
  shows "refines w (on_buf w m :: ('w st, 'a) prog) (bytes_left p)"
proof (rule refinesI)
  fix s t :: "'w st" and bs
  assume "at w s t bs"
  then obtain b where s: "s = t\<lparr>s_client := set_buf w b (s_client t)\<rparr>" and b: "cur b bs"
    and st: "same_store (get_buf w (s_client t)) b" by (auto simp: at_def)
  have g: "get_buf w (s_client s) = b" by (simp add: s)
  have again: "at w (s\<lparr>s_client := set_buf w b' (s_client s)\<rparr>) t bs'"
    if "cur b' bs'" and "same_store b b'" for b' bs'
    using that st same_store_trans unfolding at_def s by (intro exI[of _ b']) auto
  show "agree w (on_buf w m s) (bytes_left p (t, bs))"
  proof (cases "p bs")
    case (Some r)
    show ?thesis
    proof (cases r)
      case (Ok a bs')
      with Some assms b obtain b' where "m b = Some (Ok a b')" "cur b' bs'" "same_store b b'"
        by (metis parses_Ok)
      with again Some Ok show ?thesis by (simp add: bytes_left_def zoom_def on_buf_Ok g)
    next
      case (Err c bs')
      with Some assms b obtain b' where "m b = Some (Err c b')" "cur b' bs'" "same_store b b'"
        by (metis parses_Err)
      with again Some Err show ?thesis by (simp add: bytes_left_def zoom_def on_buf_Err g)
    next
      case (Crash f)
      with Some parses_Crash[OF assms b] show ?thesis
        by (simp add: bytes_left_def zoom_def on_buf_Crash g)
    qed
  qed (simp add: bytes_left_def zoom_def)
qed

text \<open>Changes of the state that leave the buffers alone.\<close>

definition beside :: "('w st \<Rightarrow> 'w st) \<Rightarrow> bool" where
  "beside f \<longleftrightarrow> (\<forall>w b t. f (t\<lparr>s_client := set_buf w b (s_client t)\<rparr>) =
      (f t)\<lparr>s_client := set_buf w b (s_client (f t))\<rparr> \<and> get_buf w (s_client (f t)) = get_buf w (s_client t))"

lemma refines_modify [refine]: "beside f \<Longrightarrow> refines w (modify f) (aside (modify f))"
  by (rule refinesI) (auto simp: at_def beside_def aside_def zoom_def)

lemma beside_client [intro]:
  "(\<And>c w b. u (set_buf w b c) = set_buf w b (u c)) \<Longrightarrow> (\<And>c w. get_buf w (u c) = get_buf w c) \<Longrightarrow>
   beside (\<lambda>s. s\<lparr>s_client := u (s_client s)\<rparr>)"
  by (simp add: beside_def)

section \<open>Building\<close>

text \<open>The arrays of the client have the sizes they are declared with.\<close>

definition wf_client :: "client \<Rightarrow> bool" where
  "wf_client c \<longleftrightarrow> length (c_session c) = NFS4_SESSIONID_SIZE \<and>
     length (c_root_filehandle c) = NFS4_FHSIZE \<and>
     length (c_instance_verifier c) = NFS4_VERIFIER_SIZE"

text \<open>
  What a change of the client made while a request is built may not do: touch the buffers,
  depend on them, or break an array.
\<close>

definition bufless :: "(client \<Rightarrow> client) \<Rightarrow> bool" where
  "bufless upd \<longleftrightarrow> (\<forall>c w b. upd (set_buf w b c) = set_buf w b (upd c) \<and>
     get_buf w (upd c) = get_buf w c \<and> (wf_client c \<longrightarrow> wf_client (upd c)))"

definition emits ::
    "heap \<times> nfs_file \<Rightarrow> 'w push \<Rightarrow> (client \<Rightarrow> cells) \<Rightarrow> u32 \<Rightarrow> (client \<Rightarrow> client) \<Rightarrow> bool" where
  "emits H f enc k upd \<longleftrightarrow> bufless upd \<and> (\<forall>c w b. enc (set_buf w b c) = enc c) \<and>
     (\<forall>s r xs. (s_heap s, s_file s) = H \<longrightarrow> wf_client (s_client s) \<longrightarrow> rep (get_buf (r_b r) (s_client s)) xs \<longrightarrow>
        length xs + length (enc (s_client s)) \<le> limit \<longrightarrow>
        (\<exists>b. f r s = Some (Ok (r\<lparr>r_opcount := r_opcount r + k\<rparr>)
               (s\<lparr>s_client := set_buf (r_b r) b (upd (s_client s))\<rparr>)) \<and>
             rep b (xs @ enc (s_client s)) \<and>
             b_capacity (get_buf (r_b r) (s_client s)) \<le> b_capacity b))"

lemma emitsD:
  assumes "emits H f enc k upd" and "(s_heap s, s_file s) = H" and "wf_client (s_client s)"
    and "rep (get_buf (r_b r) (s_client s)) xs" and "length xs + length (enc (s_client s)) \<le> limit"
  obtains b where "f r s = Some (Ok (r\<lparr>r_opcount := r_opcount r + k\<rparr>)
      (s\<lparr>s_client := set_buf (r_b r) b (upd (s_client s))\<rparr>))"
    and "rep b (xs @ enc (s_client s))"
    and "b_capacity (get_buf (r_b r) (s_client s)) \<le> b_capacity b"
  using assms unfolding emits_def by blast

lemma wf_client_set_buf [simp]: "wf_client (set_buf w b c) \<longleftrightarrow> wf_client c"
  by (simp add: wf_client_def)

lemma bufless_id [simp]: "bufless (\<lambda>c. c)"
  by (simp add: bufless_def)

lemma bufless_comp: "bufless u \<Longrightarrow> bufless v \<Longrightarrow> bufless (\<lambda>c. v (u c))"
  by (simp add: bufless_def)

lemma bufless_set: "bufless u \<Longrightarrow> u (set_buf w b c) = set_buf w b (u c)"
  by (simp add: bufless_def)

lemma bufless_get: "bufless u \<Longrightarrow> get_buf w (u c) = get_buf w c"
  by (simp add: bufless_def)

lemma bufless_wf: "bufless u \<Longrightarrow> wf_client c \<Longrightarrow> wf_client (u c)"
  by (simp add: bufless_def)

lemma emits_ret [emit]: "emits H ret (\<lambda>_. []) 0 (\<lambda>c. c)"
proof -
  have "rep b xs \<Longrightarrow> rep b xs" for b xs .
  then show ?thesis unfolding emits_def
    by (auto intro!: exI[of _ "get_buf _ _"])
qed

lemma emits_bnd:
  assumes f: "emits H f e k u" and g: "emits H g e' k' u'"
  shows "emits H (\<lambda>r. bnd (f r) g) (\<lambda>c. e c @ e' (u c)) (k + k') (\<lambda>c. u' (u c))"
  unfolding emits_def
proof (intro conjI allI impI)
  have u: "bufless u" "bufless u'" and e: "\<And>c w b. e (set_buf w b c) = e c"
      "\<And>c w b. e' (set_buf w b c) = e' c"
    using f g by (auto simp: emits_def)
  show "bufless (\<lambda>c. u' (u c))" using u by (rule bufless_comp)
  show "e (set_buf w b c) @ e' (u (set_buf w b c)) = e c @ e' (u c)" for c w b
    by (simp add: e bufless_set[OF u(1)])
  fix s :: "'a st" and r :: rpc and xs
  let ?c = "s_client s"
  assume H: "(s_heap s, s_file s) = H" and wf: "wf_client ?c" and r: "rep (get_buf (r_b r) ?c) xs"
    and len: "length xs + length (e ?c @ e' (u ?c)) \<le> limit"
  from len have len1: "length xs + length (e ?c) \<le> limit" by simp
  obtain b where b: "f r s = Some (Ok (r\<lparr>r_opcount := r_opcount r + k\<rparr>)
      (s\<lparr>s_client := set_buf (r_b r) b (u ?c)\<rparr>))" "rep b (xs @ e ?c)"
      "b_capacity (get_buf (r_b r) ?c) \<le> b_capacity b"
    using emitsD[OF f H wf r len1] .
  let ?r = "r\<lparr>r_opcount := r_opcount r + k\<rparr>" and ?s = "s\<lparr>s_client := set_buf (r_b r) b (u ?c)\<rparr>"
  obtain b' where b': "g ?r ?s = Some (Ok (?r\<lparr>r_opcount := r_opcount ?r + k'\<rparr>)
      (?s\<lparr>s_client := set_buf (r_b ?r) b' (u' (s_client ?s))\<rparr>))" "rep b' ((xs @ e ?c) @ e' (s_client ?s))"
      "b_capacity (get_buf (r_b ?r) (s_client ?s)) \<le> b_capacity b'"
    by (rule emitsD[OF g, of ?s ?r "xs @ e ?c"])
      (use H wf b(2) len in \<open>simp_all add: bufless_wf[OF u(1)] e\<close>)
  from b b' show "\<exists>b. bnd (f r) g s = Some (Ok (r\<lparr>r_opcount := r_opcount r + (k + k')\<rparr>)
        (s\<lparr>s_client := set_buf (r_b r) b (u' (u ?c))\<rparr>)) \<and>
      rep b (xs @ e ?c @ e' (u ?c)) \<and> b_capacity (get_buf (r_b r) ?c) \<le> b_capacity b"
    by (auto simp: bnd_Ok e bufless_set[OF u(2)] add.assoc)
qed

lemma emits_chain_Nil [emit]: "emits H (chain []) (\<lambda>_. []) 0 (\<lambda>c. c)"
proof -
  have "chain [] = (ret :: 'a push)" by (rule ext) simp
  with emits_ret show ?thesis by metis
qed

lemma emits_chain_Cons [emit]:
  assumes "emits H f e k u" and "emits H (chain fs) e' k' u'"
  shows "emits H (chain (f # fs)) (\<lambda>c. e c @ e' (u c)) (k + k') (\<lambda>c. u' (u c))"
proof -
  have "chain (f # fs) = (\<lambda>r. bnd (f r) (chain fs))" by (rule ext) simp
  with emits_bnd[OF assms] show ?thesis by metis
qed

lemma emits_on_b [emit]:
  assumes "writes m ys"
  shows "emits H (on_b m) (\<lambda>_. ys) 0 (\<lambda>c. c)"
  unfolding emits_def
proof (intro conjI allI impI)
  fix s :: "'a st" and r :: rpc and xs
  assume r: "rep (get_buf (r_b r) (s_client s)) xs" "length xs + length ys \<le> limit"
  then obtain b where b: "m (get_buf (r_b r) (s_client s)) = Some (Ok () b)" "rep b (xs @ ys)"
      "b_capacity (get_buf (r_b r) (s_client s)) \<le> b_capacity b"
    using assms by (metis writesD)
  then show "\<exists>b. on_b m r s = Some (Ok (r\<lparr>r_opcount := r_opcount r + 0\<rparr>)
        (s\<lparr>s_client := set_buf (r_b r) b (s_client s)\<rparr>)) \<and>
      rep b (xs @ ys) \<and> b_capacity (get_buf (r_b r) (s_client s)) \<le> b_capacity b"
    by (auto simp: on_b_def bnd_Ok on_buf_Ok)
qed simp_all

lemma emits_push_op: "emits H (push_op op) (\<lambda>_. cells_of (be32 op)) 1 (\<lambda>c. c)"
  unfolding emits_def
proof (intro conjI allI impI)
  fix s :: "'a st" and r :: rpc and xs
  assume r: "rep (get_buf (r_b r) (s_client s)) xs"
    "length xs + length (cells_of (be32 op)) \<le> limit"
  then obtain b where "push_be32 op (get_buf (r_b r) (s_client s)) = Some (Ok () b)"
      "rep b (xs @ cells_of (be32 op))" "b_capacity (get_buf (r_b r) (s_client s)) \<le> b_capacity b"
    using writes_push_be32 by (metis writesD)
  then show "\<exists>b. push_op op r s = Some (Ok (r\<lparr>r_opcount := r_opcount r + 1\<rparr>)
        (s\<lparr>s_client := set_buf (r_b r) b (s_client s)\<rparr>)) \<and>
      rep b (xs @ cells_of (be32 op)) \<and> b_capacity (get_buf (r_b r) (s_client s)) \<le> b_capacity b"
    by (auto simp: push_op_def bnd_Ok on_buf_Ok)
qed simp_all

lemma emits_update_client [emit]: "bufless u \<Longrightarrow> emits H (update_client u) (\<lambda>_. []) 0 u"
  unfolding emits_def
proof (intro conjI allI impI)
  fix s :: "'a st" and r :: rpc and xs
  assume u: "bufless u" and r: "rep (get_buf (r_b r) (s_client s)) xs"
  have "set_buf (r_b r) (get_buf (r_b r) (s_client s)) (u (s_client s)) = u (s_client s)"
    using bufless_get[OF u] by (metis set_get_buf)
  with r show "\<exists>b. update_client u r s = Some (Ok (r\<lparr>r_opcount := r_opcount r + 0\<rparr>)
        (s\<lparr>s_client := set_buf (r_b r) b (u (s_client s))\<rparr>)) \<and>
      rep b (xs @ []) \<and> b_capacity (get_buf (r_b r) (s_client s)) \<le> b_capacity b"
    by (intro exI[of _ "get_buf (r_b r) (s_client s)"]) (simp add: update_client_def bnd_def)
qed simp_all

text \<open>A step that looks at the client, but not at its buffers.\<close>

lemma emits_from_client [emit]:
  assumes k: "\<And>c. wf_client c \<Longrightarrow> emits H (k c) (e c) n u"
    and e: "\<And>c w b. e (set_buf w b c) = e c"
    and enc: "\<And>c w b d. e c (set_buf w b d) = e c d" and u: "bufless u"
  shows "emits H (from_client k) (\<lambda>c. e c c) n u"
  unfolding emits_def
proof (intro conjI allI impI)
  show "e (set_buf w b c) (set_buf w b c) = e c c" for w b c by (simp add: e enc)
  show "bufless u" by (rule u)
  fix s :: "'a st" and r :: rpc and xs
  assume "(s_heap s, s_file s) = H" "wf_client (s_client s)" "rep (get_buf (r_b r) (s_client s)) xs"
    "length xs + length (e (s_client s) (s_client s)) \<le> limit"
  then obtain b where "k (s_client s) r s = Some (Ok (r\<lparr>r_opcount := r_opcount r + n\<rparr>)
      (s\<lparr>s_client := set_buf (r_b r) b (u (s_client s))\<rparr>))"
      "rep b (xs @ e (s_client s) (s_client s))"
      "b_capacity (get_buf (r_b r) (s_client s)) \<le> b_capacity b"
    using emitsD[OF k] by metis
  then show "\<exists>b. from_client k r s = Some (Ok (r\<lparr>r_opcount := r_opcount r + n\<rparr>)
        (s\<lparr>s_client := set_buf (r_b r) b (u (s_client s))\<rparr>)) \<and>
      rep b (xs @ e (s_client s) (s_client s)) \<and>
      b_capacity (get_buf (r_b r) (s_client s)) \<le> b_capacity b"
    by (auto simp: from_client_def)
qed

lemma emits_cong:
  "emits H f e k u \<Longrightarrow> e = e' \<Longrightarrow> k = k' \<Longrightarrow> u = u' \<Longrightarrow> emits H f e' k' u'"
  by simp

end
