(* ===== verification/Wire.thy ===== *)
theory Wire
  imports Internal
begin

text \<open>
  What the requests mean: the arguments of the NFS version 4.1 operations the client uses
  (RFC 5661, in the order of its chapter 18) and their XDR encoding, independently of how
  the client builds them. Opaque contents are cells, because the client copies some of them
  from memory it did not write itself. A client id is the eight bytes the server handed out.
\<close>

section \<open>XDR\<close>

definition x32 :: "u32 \<Rightarrow> cells" where
  "x32 w = cells_of (be32 w)"

definition x64 :: "u64 \<Rightarrow> cells" where
  "x64 w = cells_of (be64 w)"

definition xbool :: "bool \<Rightarrow> cells" where
  "xbool b = x32 (if b then 1 else 0)"

definition fill :: "nat \<Rightarrow> cells" where
  "fill n = replicate ((4 - n mod 4) mod 4) (Some 0)"

definition xfixed :: "cells \<Rightarrow> cells" where
  "xfixed xs = xs @ fill (length xs)"

definition xopaque :: "cells \<Rightarrow> cells" where
  "xopaque xs = x32 (word_of_nat (length xs)) @ xfixed xs"

definition xbitmap :: "u32 list \<Rightarrow> cells" where
  "xbitmap ws = x32 (word_of_nat (length ws)) @ concat (map x32 ws)"

section \<open>Operations\<close>

datatype owner = Owner cells cells

datatype channel = Channel
  (headerpad: u32) (maxrequest: u32) (maxresponse: u32) (maxcached: u32)
  (maxoperations: u32) (maxrequests: u32)

datatype openhow = Nocreate | Create_unchecked "u32 list" cells

datatype nfs_op =
    Sequence cells u32 u32 u32 bool
  | Putfh cells
  | Putrootfh
  | Getfh
  | Lookup cells
  | Getattr "u32 list"
  | Read stateid u64 u32
  | Write stateid u64 u32 cells
  | Remove cells
  | Open u32 u32 u32 owner openhow cells
  | Lock u32 bool u64 u64 u32 stateid u32 owner
  | Locku u32 u32 stateid u64 u64
  | Exchange_id cells cells u32 cells cells u64 u32
  | Create_session cells u32 u32 channel channel u32 "u32 list"
  | Destroy_session cells
  | Reclaim_complete bool

definition x_stateid :: "stateid \<Rightarrow> cells" where
  "x_stateid sid = x32 (sid_sequence sid) @ xfixed (sid_opaque sid)"

fun x_owner :: "owner \<Rightarrow> cells" where
  "x_owner (Owner cid name) = xfixed cid @ xopaque name"

fun x_channel :: "channel \<Rightarrow> cells" where
  "x_channel (Channel hpad req resp cached ops reqs) =
     x32 hpad @ x32 req @ x32 resp @ x32 cached @ x32 ops @ x32 reqs @ x32 0"

fun x_openhow :: "openhow \<Rightarrow> cells" where
  "x_openhow Nocreate = x32 OPEN4_NOCREATE"
| "x_openhow (Create_unchecked attrs vals) =
     x32 OPEN4_CREATE @ x32 UNCHECKED4 @ xbitmap attrs @ xopaque vals"

fun x_op :: "nfs_op \<Rightarrow> cells" where
  "x_op (Sequence sess seq slot high cache) =
     x32 OP_SEQUENCE @ xfixed sess @ x32 seq @ x32 slot @ x32 high @ xbool cache"
| "x_op (Putfh fh) = x32 OP_PUTFH @ xopaque fh"
| "x_op Putrootfh = x32 OP_PUTROOTFH"
| "x_op Getfh = x32 OP_GETFH"
| "x_op (Lookup name) = x32 OP_LOOKUP @ xopaque name"
| "x_op (Getattr attrs) = x32 OP_GETATTR @ xbitmap attrs"
| "x_op (Read sid off count) = x32 OP_READ @ x_stateid sid @ x64 off @ x32 count"
| "x_op (Write sid off how xs) =
     x32 OP_WRITE @ x_stateid sid @ x64 off @ x32 how @ xopaque xs"
| "x_op (Remove name) = x32 OP_REMOVE @ xopaque name"
| "x_op (Open seq access deny own how name) =
     x32 OP_OPEN @ x32 seq @ x32 access @ x32 deny @ x_owner own @ x_openhow how @
     x32 CLAIM_NULL @ xopaque name"
| "x_op (Lock ty reclaim off len oseq osid lseq own) =
     x32 OP_LOCK @ x32 ty @ xbool reclaim @ x64 off @ x64 len @
     xbool True @ x32 oseq @ x_stateid osid @ x32 lseq @ x_owner own"
| "x_op (Locku ty seq sid off len) =
     x32 OP_LOCKU @ x32 ty @ x32 seq @ x_stateid sid @ x64 off @ x64 len"
| "x_op (Exchange_id verifier name flags domain impl secs nsecs) =
     x32 OP_EXCHANGE_ID @ xfixed verifier @ xopaque name @ x32 flags @ x32 SP4_NONE @
     x32 1 @ xopaque domain @ xopaque impl @ x64 secs @ x32 nsecs"
| "x_op (Create_session cid seq flags fore back cb sec) =
     x32 OP_CREATE_SESSION @ xfixed cid @ x32 seq @ x32 flags @ x_channel fore @ x_channel back @
     x32 cb @ xbitmap sec"
| "x_op (Destroy_session sess) = x32 OP_DESTROY_SESSION @ xfixed sess"
| "x_op (Reclaim_complete one_fs) = x32 OP_RECLAIM_COMPLETE @ xbool one_fs"

text \<open>
  A call: the record mark (RFC 5531, section 11: last fragment, and its length), the RPC
  header with the credentials of \<^verbatim>\<open>AUTH_UNIX\<close>, and the compound with its operations.
\<close>

definition call_header :: "u32 \<Rightarrow> cells" where
  "call_header x =
     x32 x @ x32 0 @ x32 2 @ x32 NFS_PROGRAM @ x32 4 @ x32 1 @
     x32 1 @ x32 36 @ x32 0x111ff274 @ xopaque (cells_of (ascii ''ip-192-168-1-40'')) @
     x32 0 @ x32 0 @ x32 0 @ x32 0 @ x32 0 @ x32 0 @ x32 1"

definition x_call :: "u32 \<Rightarrow> nfs_op list \<Rightarrow> cells" where
  "x_call x ops =
     (let body = call_header x @ x32 (word_of_nat (length ops)) @ concat (map x_op ops)
      in x32 (0x80000000 + word_of_nat (length body)) @ body)"

lemma length_x32 [simp]: "length (x32 w) = 4"
  by (simp add: x32_def)

lemma length_x64 [simp]: "length (x64 w) = 8"
  by (simp add: x64_def)

lemma length_xbool [simp]: "length (xbool b) = 4"
  by (simp add: xbool_def)

lemma length_fill: "length (fill n) < 4"
  by (simp add: fill_def)

lemma fill_0 [simp]: "n mod 4 = 0 \<Longrightarrow> fill n = []"
  by (simp add: fill_def)

lemma length_xopaque: "length (xopaque xs) = 4 + length xs + length (fill (length xs))"
  by (simp add: xopaque_def xfixed_def)

lemma length_xopaque_bound: "length (xopaque xs) \<le> length xs + 7"
  using length_fill[of "length xs"] by (simp add: length_xopaque)

lemma length_call_header [simp]: "length (call_header x) = 84"
proof -
  have "length (cells_of (ascii ''ip-192-168-1-40'')) = 15" by simp
  then have "length (xopaque (cells_of (ascii ''ip-192-168-1-40''))) = 20"
    unfolding length_xopaque by (simp only: fill_def) simp
  then show ?thesis by (simp add: call_header_def)
qed

end
