(* ===== verification/Xdr.thy ===== *)
theory Xdr
  imports Message Wire
begin

text \<open>
  \<^verbatim>\<open>nfsv4/xdr.c\<close>: the arguments of the operations, as the client writes them, and the
  results it reads. The lemmas of the last sections say that what is written is the encoding
  of \<^verbatim>\<open>Wire\<close>, and what is read the value the reply holds.
\<close>

section \<open>Strings\<close>

definition memset_end :: "u32 \<Rightarrow> (buffer, unit) prog" where
  "memset_end n b = buf_store (unat (b_end b)) (replicate (unat n) (Some 0)) b"

text \<open>\<open>x\<close> is the memory the pointer leads to.\<close>

definition push_string :: "cells \<Rightarrow> u32 \<Rightarrow> (buffer, unit) prog" where
  "push_string x len =
     (let plen = pad len 4 - len in seqs
       [buffer_extend (len + plen + 4),
        push_be32 len,
        memcpy_end x (unat len),
        bump len,
        if plen \<noteq> 0 then seqs [memset_end plen, bump plen] else ret ()])"

definition push_fixed_string :: "cells \<Rightarrow> u32 \<Rightarrow> (buffer, unit) prog" where
  "push_fixed_string x len =
     (let plen = pad len 4 - len in seqs
       [buffer_extend (len + plen + 4),
        memcpy_end x (unat len),
        bump len,
        if plen \<noteq> 0 then seqs [memset_end plen, bump plen] else ret ()])"

text \<open>The bytes of a buffer as the memory behind \<^verbatim>\<open>contents + start\<close>.\<close>

definition mem_at_start :: "buffer \<Rightarrow> cells" where
  "mem_at_start b = drop (unat (b_start b)) (b_contents b)"

section \<open>Requests\<close>

definition push_channel_attrs :: "'w push" where
  "push_channel_attrs = from_client (\<lambda>c. chain
     [on_b (push_be32 0),
      on_b (push_be32 (c_maxreq c)),
      on_b (push_be32 (c_maxresp c)),
      on_b (push_be32 (1024 * 1024)),
      on_b (push_be32 (c_maxops c)),
      on_b (push_be32 (c_maxreqs c)),
      on_b (push_be32 0)])"

definition push_session_id :: "cells \<Rightarrow> 'w push" where
  "push_session_id session = on_b (seqs
     [buffer_extend (word_of_nat NFS4_SESSIONID_SIZE),
      memcpy_end session NFS4_SESSIONID_SIZE,
      bump (word_of_nat NFS4_SESSIONID_SIZE)])"

definition push_client_id :: "'w push" where
  "push_client_id = from_client (\<lambda>c. on_b (seqs
     [buffer_extend 8,
      memcpy_end (cells_of (le64 (c_clientid c))) 8,
      bump 8]))"

definition CREATE_SESSION4_FLAG_PERSIST :: u32 where
  "CREATE_SESSION4_FLAG_PERSIST = 1"

definition push_create_session :: "'w push" where
  "push_create_session = chain
     [push_op OP_CREATE_SESSION,
      push_client_id,
      from_client (\<lambda>c. on_b (push_be32 (c_server_sequence c))),
      on_b (push_be32 CREATE_SESSION4_FLAG_PERSIST),
      push_channel_attrs,
      push_channel_attrs,
      on_b (push_be32 0x7b),
      on_b (push_be32 0x01),
      on_b (push_be32 0)]"

definition push_sequence :: "'w push" where
  "push_sequence = chain
     [push_op OP_SEQUENCE,
      from_client (\<lambda>c. push_session_id (c_session c)),
      from_client (\<lambda>c. on_b (push_be32 (c_sequence c))),
      on_b (push_be32 0),
      on_b (push_be32 0),
      on_b (push_be32 0),
      update_client (\<lambda>c. c\<lparr>c_sequence := c_sequence c + 1\<rparr>)]"

definition push_bare_sequence :: "'w push" where
  "push_bare_sequence = on_b (push_be32 0)"

definition push_lock_sequence :: "'w push" where
  "push_lock_sequence = on_b (push_be32 0)"

text \<open>
  \<^verbatim>\<open>sprintf(own, "open id:%lx", ...)\<close> of the verifier read as a number, and the length
  handed on is one less than that of the string.
\<close>

fun hex :: "nat \<Rightarrow> u8 list" where
  "hex n = (if n < 16 then [nibbles ! n] else hex (n div 16) @ [nibbles ! (n mod 16)])"

declare hex.simps [simp del]

definition owner_string :: "u8 list \<Rightarrow> u8 list" where
  "owner_string verifier = ascii ''open id:'' @ hex (unat (of_le64 verifier))"

definition push_owner :: "'w push" where
  "push_owner = chain
     [push_client_id,
      from_client (\<lambda>c. let own = owner_string (c_instance_verifier c) in
        on_b (push_string (cells_of (own @ [0])) (word_of_nat (length own) - 1)))]"

definition push_claim_null :: "buffer \<Rightarrow> 'w push" where
  "push_claim_null name = chain
     [on_b (push_be32 CLAIM_NULL),
      on_b (push_string (mem_at_start name) (buffer_length name))]"

definition push_claim_deleg_cur :: "buffer \<Rightarrow> 'w push" where
  "push_claim_deleg_cur name = on_b (push_be32 CLAIM_DELEGATE_CUR)"

definition push_open :: "buffer \<Rightarrow> u32 \<Rightarrow> bool \<Rightarrow> 'w push" where
  "push_open name share_access create = chain
     ([push_op OP_OPEN,
       on_b (push_be32 0),
       on_b (push_be32 share_access),
       on_b (push_be32 0),
       push_owner] @
      (if create then
         [on_b (push_be32 OPEN4_CREATE),
          on_b (push_be32 UNCHECKED4),
          on_b (push_be32 0x00000002),
          on_b (push_be32 0x00000000),
          on_b (push_be32 0x00000002),
          on_b (push_be32 0x00000004),
          on_b (push_be32 0x000001a4)]
       else [on_b (push_be32 OPEN4_NOCREATE)]) @
      [push_claim_null name])"

definition push_stateid :: "stateid \<Rightarrow> 'w push" where
  "push_stateid sid = chain
     [on_b (push_be32 (sid_sequence sid)),
      on_b (push_fixed_string (sid_opaque sid) (word_of_nat NFS4_OTHER_SIZE))]"

definition author :: "u8 list" where
  "author = ascii ''edu.berkeley''"

definition version :: "u8 list" where
  "version = ascii ''NFS for Serverless v. 0.1-snapshot''"

definition exchange_id_args :: "u8 list \<Rightarrow> 'w push" where
  "exchange_id_args co_owner_id = chain
     [push_op OP_EXCHANGE_ID,
      from_client (\<lambda>c. on_b (push_bytes (cells_of (take NFS4_VERIFIER_SIZE (c_instance_verifier c))))),
      on_b (push_string (cells_of co_owner_id) 16),
      on_b (push_be32 0),
      on_b (push_be32 SP4_NONE),
      on_b (push_be32 1),
      on_b (push_string (cells_of (author @ [0])) (word_of_nat (length author))),
      on_b (push_string (cells_of (version @ [0])) (word_of_nat (length version))),
      on_b (push_be64 0),
      on_b (push_be32 0)]"

definition push_exchange_id :: "'w os \<Rightarrow> 'w push" where
  "push_exchange_id os r =
     bnd (fill_random os 16) (\<lambda>co_owner_id. exchange_id_args co_owner_id r)"

section \<open>Results\<close>

text \<open>
  \<open>load_start n\<close> is an unchecked \<^verbatim>\<open>memcpy\<close> of \<open>n\<close> bytes from \<^verbatim>\<open>contents + start\<close>, \<open>skip n\<close>
  an unchecked \<^verbatim>\<open>start += n\<close>.
\<close>

definition load_start :: "nat \<Rightarrow> (buffer, cells) prog" where
  "load_start n b = buf_load (unat (b_start b)) n b"

definition skip :: "u32 \<Rightarrow> (buffer, unit) prog" where
  "skip n = modify (\<lambda>b. b\<lparr>b_start := b_start b + n\<rparr>)"

definition skip32 :: "(buffer, unit) prog" where
  "skip32 = bnd read_beu32 (\<lambda>_. ret ())"

definition set_client :: "(client \<Rightarrow> client) \<Rightarrow> ('w st, unit) prog" where
  "set_client f = modify (\<lambda>s. s\<lparr>s_client := f (s_client s)\<rparr>)"

text \<open>\<^verbatim>\<open>normalize(c, x)\<close>: a limit of the client, never raised.\<close>

definition normalize ::
    "(client \<Rightarrow> u32) \<Rightarrow> ((u32 \<Rightarrow> u32) \<Rightarrow> client \<Rightarrow> client) \<Rightarrow> u32 \<Rightarrow> ('w st, unit) prog" where
  "normalize field upd x = set_client (\<lambda>c. if field c > x then upd (\<lambda>_. x) c else c)"

definition parse_create_session :: "bufref \<Rightarrow> ('w st, unit) prog" where
  "parse_create_session b =
     bnd (on_buf b (load_start NFS4_SESSIONID_SIZE)) (\<lambda>session. seqs
       [set_client (\<lambda>c. c\<lparr>c_session := session\<rparr>),
        on_buf b (skip (word_of_nat NFS4_SESSIONID_SIZE)),
        on_buf b skip32,
        on_buf b skip32,
        on_buf b skip32,
        bnd (on_buf b read_beu32) (normalize c_maxreq c_maxreq_update),
        bnd (on_buf b read_beu32) (normalize c_maxresp c_maxresp_update),
        on_buf b skip32,
        bnd (on_buf b read_beu32) (normalize c_maxops c_maxops_update),
        bnd (on_buf b read_beu32) (normalize c_maxreqs c_maxreqs_update),
        on_buf b skip32])"

definition parse_exchange_id :: "bufref \<Rightarrow> ('w st, unit) prog" where
  "parse_exchange_id b =
     bnd (on_buf b (\<lambda>buf. buf_bytes (unat (b_start buf)) 8 buf)) (\<lambda>cid. seqs
       [set_client (\<lambda>c. c\<lparr>c_clientid := of_le64 cid\<rparr>),
        on_buf b (skip 8),
        bnd (on_buf b read_beu32) (\<lambda>seq. set_client (\<lambda>c. c\<lparr>c_server_sequence := seq\<rparr>)),
        on_buf b skip32])"

text \<open>
  \<open>put\<close> is the object a \<^verbatim>\<open>stateid\<close> pointer leads to, given as the function that updates it;
  \<open>nowhere\<close> is a local that is not read afterwards.
\<close>

type_synonym 'w sid_ref = "(stateid \<Rightarrow> stateid) \<Rightarrow> 'w st \<Rightarrow> 'w st"

definition latest_sid :: "'w sid_ref" where
  "latest_sid g s = s\<lparr>s_file := f_latest_sid_update g (s_file s)\<rparr>"

definition open_sid :: "'w sid_ref" where
  "open_sid g s = s\<lparr>s_file := f_open_sid_update g (s_file s)\<rparr>"

definition nowhere :: "'w sid_ref" where
  "nowhere g s = s"

definition parse_stateid :: "bufref \<Rightarrow> 'w sid_ref \<Rightarrow> ('w st, unit) prog" where
  "parse_stateid b put =
     bnd (on_buf b read_beu32) (\<lambda>seq.
     bnd (modify (put (\<lambda>sid. sid\<lparr>sid_sequence := seq\<rparr>))) (\<lambda>_.
     bnd (on_buf b (read_buffer (word_of_nat NFS4_OTHER_SIZE))) (\<lambda>xs.
     modify (put (\<lambda>sid. sid\<lparr>sid_opaque := xs\<rparr>)))))"

definition parse_ace :: "(buffer, unit) prog" where
  "parse_ace = seqs
     [skip32, skip32, skip32, bnd read_beu32 (\<lambda>namelen. skip_buffer namelen)]"

text \<open>
  The delegation of an open. The inner \<^verbatim>\<open>switch\<close> on the limit has no \<^verbatim>\<open>break\<close>, so every
  case of it runs into the next and the last one is an error.
\<close>

definition parse_delegation :: "bufref \<Rightarrow> ('w st, unit) prog" where
  "parse_delegation b =
     bnd (on_buf b read_beu32) (\<lambda>delegation_type.
       if delegation_type = OPEN_DELEGATE_NONE then ret ()
       else if delegation_type = OPEN_DELEGATE_READ then seqs
         [ignoring (parse_stateid b nowhere),
          on_buf b skip32,
          ignoring (on_buf b parse_ace)]
       else if delegation_type = OPEN_DELEGATE_WRITE then seqs
         [ignoring (parse_stateid b nowhere),
          on_buf b skip32,
          bnd (on_buf b read_beu32) (\<lambda>lt. seqs
            [if lt = NFS_LIMIT_SIZE then on_buf b (bnd read_beu64 (\<lambda>_. ret ())) else ret (),
             if lt = NFS_LIMIT_SIZE \<or> lt = NFS_LIMIT_BLOCKS then
               on_buf b (bnd read_beu32 (\<lambda>_. bnd read_beu64 (\<lambda>_. ret ()))) else ret (),
             err ''bad limit size''])]
       else if delegation_type = OPEN_DELEGATE_NONE_EXT then
         bnd (on_buf b read_beu32) (\<lambda>why. seqs
           [if why = WND4_CONTENTION then on_buf b skip32 else ret (),
            if why = WND4_CONTENTION \<or> why = WND4_RESOURCE then on_buf b skip32 else ret ()])
       else err ''bad delegation return'')"

text \<open>
  \<^verbatim>\<open>parse_open\<close> has no \<^verbatim>\<open>return\<close> after the \<^verbatim>\<open>switch\<close>: the status its caller sees then is
  whatever the compiled function leaves, the parameter \<open>indet\<close>. The statuses of its inner
  calls are not looked at.
\<close>

definition parse_open :: "string option \<Rightarrow> bufref \<Rightarrow> ('w st, unit) prog" where
  "parse_open indet b = seqs
     [ignoring (parse_stateid b open_sid),
      modify (\<lambda>s. s\<lparr>s_file := (s_file s)\<lparr>f_latest_sid := f_open_sid (s_file s)\<rparr>\<rparr>),
      on_buf b skip32,
      on_buf b (bnd read_beu64 (\<lambda>_. ret ())),
      on_buf b (bnd read_beu64 (\<lambda>_. ret ())),
      on_buf b skip32,
      bnd (on_buf b read_beu32) (\<lambda>bitmap_len. on_buf b (skip (bitmap_len * 4))),
      parse_delegation b,
      of_status indet]"

text \<open>
  The text that \<^verbatim>\<open>print_stateid\<close> prints with \<^verbatim>\<open>%08x\<close> and \<^verbatim>\<open>%02x\<close>; nothing when a byte was never
  written.
\<close>

definition hex_padded :: "nat \<Rightarrow> nat \<Rightarrow> u8 list" where
  "hex_padded width n = replicate (width - length (hex n)) 48 @ hex n"

definition print_stateid :: "stateid \<Rightarrow> u8 list option" where
  "print_stateid sid = map_option (\<lambda>bs. ascii ''stateid:'' @ hex_padded 8 (unat (sid_sequence sid)) @ ascii '':'' @
     concat (map (\<lambda>b. hex_padded 2 (unat b)) bs)) (those (take NFS4_OTHER_SIZE (sid_opaque sid)))"

section \<open>What the requests hold\<close>

lemma round_up4:
  fixes n :: nat
  assumes "0 < n"
  shows "4 * ((n - 1) div 4 + 1) - n = (4 - n mod 4) mod 4"
proof -
  define q r where "q = n div 4" and "r = n mod 4"
  then have n: "n = 4 * q + r" and "r < 4" by simp_all
  then consider "r = 0" | "r = 1" | "r = 2" | "r = 3" by linarith
  then show ?thesis
  proof cases
    case 1
    with assms n obtain p where "q = Suc p" by (cases q) auto
    with 1 n show ?thesis by simp
  next
    case 2
    with n show ?thesis by simp
  next
    case 3
    have "(4 * q + 1) div 4 = q" by linarith
    moreover have "(4 * q + 2) mod 4 = 2" by presburger
    ultimately show ?thesis using 3 n by simp
  next
    case 4
    have "(4 * q + 2) div 4 = q" by linarith
    moreover have "(4 * q + 3) mod 4 = 3" by presburger
    ultimately show ?thesis using 4 n by simp
  qed
qed

lemma unat_times4: "unat (x :: u32) < 2 ^ 30 \<Longrightarrow> unat (x * 4) = 4 * unat x"
  by (simp add: unat_word_ariths)

lemma unat_padding:
  fixes len :: u32
  assumes "unat len < 2 ^ 31"
  shows "unat (pad len 4 - len) = (4 - unat len mod 4) mod 4"
proof (cases "len = 0")
  case True
  then show ?thesis by (simp add: pad_def)
next
  case False
  let ?n = "unat len"
  have n: "0 < ?n" using False by (simp add: unat_gt_0)
  have "unat (len - 1) = ?n - 1" using False by (simp add: unat_minus_one)
  then have d: "unat ((len - 1) div 4) = (?n - 1) div 4" by (simp add: unat_div_distrib)
  have bound: "(?n - 1) div 4 < 2 ^ 29" using assms by simp
  then have "unat ((len - 1) div 4 + 1) = (?n - 1) div 4 + 1"
    using d by (subst unat_add_small) simp_all
  then have p: "unat (pad len 4) = 4 * ((?n - 1) div 4 + 1)"
    using bound unat_times4[of "(len - 1) div 4 + 1"] by (simp add: pad_def)
  then have "len \<le> pad len 4" unfolding word_le_nat_alt using n by presburger
  then have "unat (pad len 4 - len) = 4 * ((?n - 1) div 4 + 1) - ?n"
    using p by (simp add: unat_sub)
  also have "\<dots> = (4 - ?n mod 4) mod 4" using n by (rule round_up4)
  finally show ?thesis .
qed

lemma memcpy_bump:
  fixes k :: "unit \<Rightarrow> (buffer, unit) prog"
  assumes "n \<le> length x" and "len = word_of_nat n"
  shows "bnd (memcpy_end x n) (\<lambda>_. bnd (bump len) k) = bnd (put_end (take n x)) k"
proof -
  have "memcpy_end x n = (\<lambda>b. buf_store (unat (b_end b)) (take n x) b)"
    by (rule ext) (use assms(1) in \<open>simp add: memcpy_end_def mem_load_def\<close>)
  then show ?thesis using assms by (simp add: put_end_def bump_def bnd_assoc min_def)
qed

lemma word_unat_inverse: "word_of_nat (unat w) = w"
  by simp

lemma memset_bump:
  "bnd (memset_end n) (\<lambda>_. bnd (bump n) k) = bnd (put_end (replicate (unat n) (Some 0))) k"
  for k :: "unit \<Rightarrow> (buffer, unit) prog"
proof -
  have "memset_end n = (\<lambda>b. buf_store (unat (b_end b)) (replicate (unat n) (Some 0)) b)"
    by (rule ext) (simp add: memset_end_def)
  then show ?thesis by (simp add: put_end_def bump_def bnd_assoc)
qed

lemma fits_push_be32 [emit_fits]: "fits (push_be32 w) (x32 w)"
  unfolding push_be32_alt push_bytes_alt x32_def
  by (rule fits_extend) (simp_all add: emit_fits unat_of_nat_small)

lemma fits_string_body:
  fixes len :: u32
  assumes "unat len \<le> length x" and "unat len < 2 ^ 31"
  shows "fits (bnd (memcpy_end x (unat len)) (\<lambda>_. bnd (bump len) (\<lambda>_.
      bnd (if pad len 4 - len \<noteq> 0 then seqs [memset_end (pad len 4 - len), bump (pad len 4 - len)] else ret ())
        (\<lambda>_. ret ())))) (xfixed (take (unat len) x))"
proof -
  let ?p = "pad len 4 - len"
  have eq: "seqs [memset_end ?p, bump ?p] = bnd (put_end (replicate (unat ?p) (Some 0))) (\<lambda>_. ret ())"
    unfolding seqs.simps by (rule memset_bump)
  have "fits (if ?p \<noteq> 0 then seqs [memset_end ?p, bump ?p] else ret ()) (replicate (unat ?p) (Some 0))"
  proof (cases "?p = 0")
    case False
    have "fits (bnd (put_end (replicate (unat ?p) (Some 0))) (\<lambda>_. ret ()))
        (replicate (unat ?p) (Some 0) @ [])"
      by (intro fits_bnd emit_fits)
    with False show ?thesis unfolding eq by simp
  qed (simp add: fits_ret del: ret_run)
  moreover have "replicate (unat ?p) (Some 0) = fill (unat len)"
    using assms(2) by (simp add: fill_def unat_padding)
  ultimately show ?thesis
    using fits_bnd[OF fits_put_end[of "take (unat len) x"] fits_bnd[OF _ fits_ret]] assms(1)
    unfolding memcpy_bump[OF assms(1) word_unat_inverse[symmetric]] xfixed_def
    by (simp only: append_Nil2 length_take min_absorb2)
qed

lemma limit_small: "limit < 2 ^ 30"
  by (simp add: limit_def)

lemma writes_big: "limit < length ys \<Longrightarrow> writes m ys"
  by (simp add: writes_def)

lemma writes_push_string [emit]:
  assumes "unat len \<le> length x"
  shows "writes (push_string x len) (xopaque (take (unat len) x))"
proof (cases "unat len < 2 ^ 30")
  case True
  let ?p = "pad len 4 - len" and ?xs = "take (unat len) x"
  have p: "unat ?p = (4 - unat len mod 4) mod 4" using True by (intro unat_padding) simp
  have l: "length ?xs = unat len" using assms by simp
  have "unat (len + ?p) = unat len + unat ?p" using True p by (intro unat_add_small) simp
  then have e: "unat (len + ?p + 4) = unat len + unat ?p + 4"
    using True p by (subst unat_add_small) simp_all
  have "fits (bnd (push_be32 len) (\<lambda>_. bnd (memcpy_end x (unat len)) (\<lambda>_. bnd (bump len) (\<lambda>_.
      bnd (if ?p \<noteq> 0 then seqs [memset_end ?p, bump ?p] else ret ()) (\<lambda>_. ret ())))))
      (x32 len @ xfixed ?xs)"
    using assms True by (intro fits_bnd fits_push_be32 fits_string_body) simp_all
  moreover have "x32 len @ xfixed ?xs = xopaque ?xs"
    using assms by (simp add: xopaque_def min_def)
  moreover have "length (xopaque ?xs) = unat (len + ?p + 4)"
    using l e p by (simp add: length_xopaque fill_def)
  ultimately show ?thesis
    by (simp add: push_string_def Let_def writes_extend_fits del: ret_run)
next
  case False
  then have "limit < length (xopaque (take (unat len) x))"
    using assms limit_small by (simp add: length_xopaque)
  then show ?thesis by (rule writes_big)
qed

lemma writes_push_fixed_string [emit]:
  assumes "unat len \<le> length x"
  shows "writes (push_fixed_string x len) (xfixed (take (unat len) x))"
proof (cases "unat len < 2 ^ 30")
  case True
  let ?p = "pad len 4 - len" and ?xs = "take (unat len) x"
  have p: "unat ?p = (4 - unat len mod 4) mod 4" using True by (intro unat_padding) simp
  have l: "length ?xs = unat len" using assms by simp
  have "unat (len + ?p) = unat len + unat ?p" using True p by (intro unat_add_small) simp
  then have e: "unat (len + ?p + 4) = unat len + unat ?p + 4"
    using True p by (subst unat_add_small) simp_all
  have "fits (bnd (memcpy_end x (unat len)) (\<lambda>_. bnd (bump len) (\<lambda>_.
      bnd (if ?p \<noteq> 0 then seqs [memset_end ?p, bump ?p] else ret ()) (\<lambda>_. ret ())))) (xfixed ?xs)"
    using assms True by (intro fits_string_body) simp_all
  moreover have "length (xfixed ?xs) + 4 = unat (len + ?p + 4)"
    using l e p by (simp add: xfixed_def fill_def)
  ultimately show ?thesis
    by (simp add: push_fixed_string_def Let_def writes_extend_fits del: ret_run)
next
  case False
  then have "limit < length (xfixed (take (unat len) x))"
    using assms limit_small by (simp add: xfixed_def)
  then show ?thesis by (rule writes_big)
qed

lemma writes_raw:
  assumes "n \<le> length x" and "len = word_of_nat n" and "n < 2 ^ 31"
  shows "writes (seqs [buffer_extend len, memcpy_end x n, bump len]) (take n x)"
proof -
  have "seqs [buffer_extend len, memcpy_end x n, bump len] =
      bnd (buffer_extend len) (\<lambda>_. bnd (put_end (take n x)) (\<lambda>_. ret ()))"
    using assms(1,2) by (simp add: memcpy_bump del: ret_run)
  moreover have "fits (bnd (put_end (take n x)) (\<lambda>_. ret ())) (take n x @ [])"
    by (intro fits_bnd emit_fits)
  moreover have "unat len = length (take n x)"
    using assms by (simp add: unat_of_nat_small)
  ultimately show ?thesis by (simp add: writes_extend_fits)
qed

definition client_channel :: "client \<Rightarrow> channel" where
  "client_channel c = Channel 0 (c_maxreq c) (c_maxresp c) (1024 * 1024) (c_maxops c) (c_maxreqs c)"

definition client_owner :: "client \<Rightarrow> owner" where
  "client_owner c = Owner (cells_of (le64 (c_clientid c)))
     (cells_of (butlast (owner_string (c_instance_verifier c))))"

lemma client_channel_set_buf [simp]: "client_channel (set_buf w b c) = client_channel c"
  by (simp add: client_channel_def)

lemma client_owner_set_buf [simp]: "client_owner (set_buf w b c) = client_owner c"
  by (simp add: client_owner_def)

lemma writes_x32 [emit]: "writes (push_be32 w) (x32 w)"
  using writes_push_be32 by (simp add: x32_def)

lemma emits_push_op_x [emit]: "emits H (push_op op) (\<lambda>_. x32 op) 1 (\<lambda>c. c)"
  using emits_push_op by (simp add: x32_def)

lemma writes_x64 [emit]: "writes (push_be64 w) (x64 w)"
  using writes_push_be64 by (simp add: x64_def)

lemma writes_xbool [emit]: "writes (push_boolean b) (xbool b)"
  using writes_push_boolean[of b] by (cases b) (simp_all add: xbool_def x32_def be_bool_def)

lemma emits_push_channel_attrs [emit]:
  "emits H push_channel_attrs (\<lambda>c. x_channel (client_channel c)) 0 (\<lambda>c. c)"
  unfolding push_channel_attrs_def
  by (rule emits_cong, (rule emit)+) (simp_all add: client_channel_def)

lemma emits_push_session_id [emit]:
  "length sess = NFS4_SESSIONID_SIZE \<Longrightarrow> emits H (push_session_id sess) (\<lambda>_. sess) 0 (\<lambda>c. c)"
  unfolding push_session_id_def
  by (rule emits_cong, rule emit, rule writes_raw) (simp_all add: size_defs)


lemma x32_length_channel [simp]: "length (x_channel ch) = 28"
  by (cases ch) simp

lemma emits_push_client_id [emit]:
  "emits H push_client_id (\<lambda>c. cells_of (le64 (c_clientid c))) 0 (\<lambda>c. c)"
  unfolding push_client_id_def
  by (rule emits_cong, rule emit, rule emit, rule writes_raw) simp_all

lemma emits_push_create_session [emit]:
  "emits H push_create_session
     (\<lambda>c. x_op (Create_session (cells_of (le64 (c_clientid c))) (c_server_sequence c)
        CREATE_SESSION4_FLAG_PERSIST (client_channel c) (client_channel c) 0x7b [0])) 1 (\<lambda>c. c)"
  unfolding push_create_session_def
  by (rule emits_cong, (rule emit | (simp; fail))+) (simp_all add: xbitmap_def xfixed_def)

lemma bufless_sequence [simp]: "bufless (\<lambda>c. c\<lparr>c_sequence := c_sequence c + 1\<rparr>)"
proof -
  have "get_buf w (c\<lparr>c_sequence := c_sequence c + 1\<rparr>) = get_buf w c" and
    "(set_buf w b c)\<lparr>c_sequence := c_sequence (set_buf w b c) + 1\<rparr> =
      set_buf w b (c\<lparr>c_sequence := c_sequence c + 1\<rparr>)" for c w b
    by (cases w; simp)+
  then show ?thesis by (simp add: bufless_def wf_client_def)
qed

text \<open>The bytes only have to be right for a client whose arrays are.\<close>

lemma emits_wf_cong:
  assumes "emits H f e k u" and "\<And>c. wf_client c \<Longrightarrow> e c = e' c" and "k = k'"
    and "\<And>c w b. e' (set_buf w b c) = e' c"
  shows "emits H f e' k' u"
  using assms unfolding emits_def by simp

lemma wf_client_sizes:
  "wf_client c \<Longrightarrow> length (c_session c) = NFS4_SESSIONID_SIZE"
  "wf_client c \<Longrightarrow> length (c_root_filehandle c) = NFS4_FHSIZE"
  "wf_client c \<Longrightarrow> length (c_instance_verifier c) = NFS4_VERIFIER_SIZE"
  by (simp_all add: wf_client_def)

lemma emits_push_sequence [emit]:
  "emits H push_sequence (\<lambda>c. x_op (Sequence (c_session c) (c_sequence c) 0 0 False)) 1
     (\<lambda>c. c\<lparr>c_sequence := c_sequence c + 1\<rparr>)"
  unfolding push_sequence_def
  by (rule emits_wf_cong, rule emits_cong, (rule emit | (simp add: wf_client_sizes; fail))+)
    (simp_all add: xbool_def xfixed_def wf_client_sizes size_defs)

lemma hex_nonempty: "hex n \<noteq> []"
  by (subst hex.simps) simp

lemma length_hex: "n < 16 ^ Suc k \<Longrightarrow> length (hex n) \<le> Suc k"
proof (induction k arbitrary: n)
  case 0
  then show ?case by (subst hex.simps) simp
next
  case (Suc k)
  then have "n div 16 < 16 ^ Suc k" by (simp add: less_mult_imp_div_less)
  with Suc.IH show ?case by (subst hex.simps) simp
qed

lemma length_owner_string: "length (owner_string v) \<in> {9..24}"
proof -
  have "length (hex (unat (of_le64 v))) \<le> Suc 15"
    using unat_u64[of "of_le64 v"] by (intro length_hex) simp
  moreover have "0 < length (hex (unat (of_le64 v)))" using hex_nonempty by simp
  ultimately have "length (hex (unat (of_le64 v))) \<in> {1..16}"
    by (simp add: Suc_le_eq)
  then show ?thesis by (simp add: owner_string_def)
qed

lemma writes_owner_string:
  "writes (push_string (cells_of (owner_string v @ [0])) (word_of_nat (length (owner_string v)) - 1))
     (xopaque (cells_of (butlast (owner_string v))))"
proof -
  let ?o = "owner_string v" and ?l = "word_of_nat (length (owner_string v)) - 1 :: u32"
  have l: "length ?o \<in> {9..24}" by (rule length_owner_string)
  then have "unat (word_of_nat (length ?o) :: u32) = length ?o"
    by (intro unat_of_nat_small) auto
  then have u: "unat ?l = length ?o - 1"
    using l by (subst unat_minus_one) (auto simp: unat_eq_0[symmetric])
  then have "writes (push_string (cells_of (?o @ [0])) ?l) (xopaque (take (unat ?l) (cells_of (?o @ [0]))))"
    by (intro writes_push_string) simp
  moreover have "take (unat ?l) (cells_of (?o @ [0])) = cells_of (butlast ?o)"
    unfolding u by (simp add: take_map butlast_conv_take)
  ultimately show ?thesis by simp
qed

lemma emits_push_owner [emit]: "emits H push_owner (\<lambda>c. x_owner (client_owner c)) 0 (\<lambda>c. c)"
  unfolding push_owner_def Let_def
  by (rule emits_cong, (rule emit writes_owner_string | (simp; fail))+)
    (simp_all add: client_owner_def xfixed_def)

lemma take_mem_at_start: "wf_buf b \<Longrightarrow> take (unat (buffer_length b)) (mem_at_start b) = data b"
  by (simp add: data_def mem_at_start_def wf_bufD)

lemma writes_push_buffer [emit]:
  assumes "wf_buf b"
  shows "writes (push_string (mem_at_start b) (buffer_length b)) (xopaque (data b))"
proof -
  have "unat (buffer_length b) \<le> length (mem_at_start b)"
    using wf_bufD[OF assms] by (simp add: mem_at_start_def)
  from writes_push_string[OF this] show ?thesis by (simp add: take_mem_at_start[OF assms])
qed

lemma emits_push_claim_null [emit]:
  "wf_buf name \<Longrightarrow> emits H (push_claim_null name) (\<lambda>_. x32 CLAIM_NULL @ xopaque (data name)) 0 (\<lambda>c. c)"
  unfolding push_claim_null_def
  by (rule emits_cong, (rule emit writes_push_buffer | assumption)+) simp_all

definition open_how :: "bool \<Rightarrow> openhow" where
  "open_how create = (if create then Create_unchecked [0, 2] (x32 0x1a4) else Nocreate)"

lemma emits_push_open [emit]:
  assumes "wf_buf name"
  shows "emits H (push_open name access create)
     (\<lambda>c. x_op (Open 0 access 0 (client_owner c) (open_how create) (data name))) 1 (\<lambda>c. c)"
  using assms unfolding push_open_def
  by (cases create; simp only: if_True if_False append_Cons append_Nil)
    (rule emits_cong, (rule emit | assumption)+,
     simp_all add: open_how_def xbitmap_def xopaque_def xfixed_def)+

lemma emits_push_stateid [emit]:
  assumes "length (sid_opaque sid) = NFS4_OTHER_SIZE"
  shows "emits H (push_stateid sid) (\<lambda>_. x_stateid sid) 0 (\<lambda>c. c)"
proof -
  have "writes (push_fixed_string (sid_opaque sid) (word_of_nat NFS4_OTHER_SIZE))
      (xfixed (take (unat (word_of_nat NFS4_OTHER_SIZE :: u32)) (sid_opaque sid)))"
    using assms by (intro emit) (simp add: size_defs)
  then have w: "writes (push_fixed_string (sid_opaque sid) (word_of_nat NFS4_OTHER_SIZE))
      (xfixed (sid_opaque sid))"
    using assms by (simp add: size_defs)
  show ?thesis unfolding push_stateid_def
    by (rule emits_cong, (rule emit w)+) (simp_all add: x_stateid_def)
qed

lemma writes_literal: "length x < 2 ^ 32 \<Longrightarrow>
  writes (push_string (cells_of (x @ [0])) (word_of_nat (length x))) (xopaque (cells_of x))"
  using writes_push_string[of "word_of_nat (length x)" "cells_of (x @ [0])"]
  by (simp add: unat_of_nat_small)

lemma short_literals: "length author < 2 ^ 32" "length version < 2 ^ 32"
  by (simp_all add: author_def version_def)

lemma writes_whole_string: "length x = unat n \<Longrightarrow> writes (push_string x n) (xopaque x)"
  using writes_push_string[of n x] by simp

lemma emits_exchange_id_args:
  assumes "length name = 16"
  shows "emits H (exchange_id_args name)
    (\<lambda>c. x_op (Exchange_id (cells_of (c_instance_verifier c)) (cells_of name) 0
       (cells_of author) (cells_of version) 0 0)) 1 (\<lambda>c. c)"
proof -
  have n: "length (cells_of name) = unat (16 :: u32)" using assms by simp
  have v: "writes (push_bytes (cells_of (take NFS4_VERIFIER_SIZE (c_instance_verifier c))))
      (cells_of (take NFS4_VERIFIER_SIZE (c_instance_verifier c)))" for c
    by (rule writes_push_bytes) (simp add: size_defs limit_def)
  show ?thesis
    unfolding exchange_id_args_def
    by (rule emits_wf_cong, rule emits_cong,
        (rule emits_chain_Cons emits_chain_Nil emits_push_op_x emits_from_client emits_on_b v
          writes_whole_string[OF n] writes_literal[OF short_literals(1)]
          writes_literal[OF short_literals(2)] writes_x32 writes_x64 | (simp; fail))+)
      (simp_all add: xfixed_def wf_client_sizes size_defs)
qed

lemma collect_random:
  assumes "\<And>s. s_world s \<in> W \<Longrightarrow> \<exists>a. \<exists>w \<in> W. m s = Some (Ok a (s\<lparr>s_world := w\<rparr>))" and "s_world s \<in> W"
  shows "\<exists>as. \<exists>w \<in> W. collect n m s = Some (Ok as (s\<lparr>s_world := w\<rparr>)) \<and> length as = n"
  using assms(2)
proof (induction n arbitrary: s)
  case 0
  then show ?case by (auto intro!: bexI[of _ "s_world s"])
next
  case (Suc n)
  obtain a w where m: "m s = Some (Ok a (s\<lparr>s_world := w\<rparr>))" "w \<in> W" using assms(1) Suc.prems by blast
  moreover obtain as w' where "collect n m (s\<lparr>s_world := w\<rparr>) = Some (Ok as (s\<lparr>s_world := w\<rparr>\<lparr>s_world := w'\<rparr>))"
      "length as = n" "w' \<in> W"
    using Suc.IH[of "s\<lparr>s_world := w\<rparr>"] m(2) by auto
  ultimately show ?case by (auto simp: bnd_Ok intro!: exI[of _ "a # as"] bexI[of _ w'])
qed

lemma length_charset: "length (charset @ [0]) = 65"
  by (simp add: charset_def)

lemma fill_random_ok:
  assumes "0 < n" and "n \<le> 65" and "s_world s \<in> W" and "\<And>w. w \<in> W \<Longrightarrow> snd (os_rand os w) \<in> W"
  shows "\<exists>bs. \<exists>w \<in> W. fill_random os n s = Some (Ok bs (s\<lparr>s_world := w\<rparr>)) \<and> length bs = n"
  unfolding fill_random_def
proof (rule collect_random)
  fix s :: "'a st" assume s: "s_world s \<in> W"
  obtain k w where kw: "os_rand os (s_world s) = (k, w)" by fastforce
  have "k mod n < length (charset @ [0])"
    using assms length_charset by (metis mod_less_divisor order_less_le_trans)
  then show "\<exists>a. \<exists>w \<in> W. bnd (on_world (os_rand os)) (\<lambda>k.
        if k mod n < length (charset @ [0]) then ret ((charset @ [0]) ! (k mod n))
        else crash Out_of_bounds) s = Some (Ok a (s\<lparr>s_world := w\<rparr>))"
    using kw assms(4)[OF s] by (auto simp: bnd_def on_world_def)
qed (rule assms(3))

end
