(* ===== verification/Replies.thy ===== *)
theory Replies
  imports Xdr
begin

text \<open>
  What the readers of \<^verbatim>\<open>nfsv4/xdr.c\<close> do on a reply of the form the protocol gives it:
  \<open>goes w m t bs a t' bs'\<close> says that \<open>m\<close>, started with the bytes \<open>bs\<close> left in the buffer \<open>w\<close>,
  returns \<open>a\<close>, changes the rest of the state from \<open>t\<close> to \<open>t'\<close> and leaves \<open>bs'\<close>; its rules
  run a reader step by step.
\<close>

section \<open>What the results say\<close>

text \<open>
  The same readers on the bytes of the reply. An unchecked step past the end promises
  nothing (the code goes on reading what an earlier message left behind).
\<close>

definition load_bytes :: "nat \<Rightarrow> (u8 list, u8 list) prog" where
  "load_bytes n bs = (if length bs < n then None else Some (Ok (take n bs) bs))"

definition drop_bytes :: "nat \<Rightarrow> (u8 list, unit) prog" where
  "drop_bytes n bs = (if length bs < n then None else Some (Ok () (drop n bs)))"

definition drop32 :: "(u8 list, unit) prog" where
  "drop32 = bnd get32 (\<lambda>_. ret ())"

lemma parses_skip [parse]: "parses (skip n) (drop_bytes (unat n))"
  by (rule parsesI) (simp add: drop_bytes_def skip_def cur_advance same_store_def)

lemma parses_load_start [parse]: "parses (load_start n) (bnd (load_bytes n) (\<lambda>bs. ret (cells_of bs)))"
proof (rule parsesI)
  fix b bs assume b: "cur b bs"
  then have "wf_buf b" "data b = cells_of bs" by (simp_all add: cur_def)
  note load = buf_bytes_load[OF buf_bytes_data[OF this, of 0, simplified]]
  show "case bnd (load_bytes n) (\<lambda>bs. ret (cells_of bs)) bs of
      None \<Rightarrow> True
    | Some (Ok a bs') \<Rightarrow> \<exists>b'. load_start n b = Some (Ok a b') \<and> cur b' bs' \<and> same_store b b'
    | Some (Err c bs') \<Rightarrow> \<exists>b'. load_start n b = Some (Err c b') \<and> cur b' bs' \<and> same_store b b'
    | Some (Crash f) \<Rightarrow> load_start n b = Some (Crash f)"
    using load[of n] b by (simp add: load_start_def load_bytes_def bnd_def)
qed

lemma parses_peek [parse]: "parses (\<lambda>b. buf_bytes (unat (b_start b)) n b) (load_bytes n)"
proof (rule parsesI)
  fix b bs assume b: "cur b bs"
  then have "wf_buf b" "data b = cells_of bs" by (simp_all add: cur_def)
  note load = buf_bytes_data[OF this, of 0, simplified]
  show "case load_bytes n bs of
      None \<Rightarrow> True
    | Some (Ok a bs') \<Rightarrow> \<exists>b'. buf_bytes (unat (b_start b)) n b = Some (Ok a b') \<and> cur b' bs' \<and> same_store b b'
    | Some (Err c bs') \<Rightarrow> \<exists>b'. buf_bytes (unat (b_start b)) n b = Some (Err c b') \<and> cur b' bs' \<and> same_store b b'
    | Some (Crash f) \<Rightarrow> buf_bytes (unat (b_start b)) n b = Some (Crash f)"
    using load[of n] b by (simp add: load_bytes_def)
qed

lemma parses_skip32 [parse]: "parses skip32 drop32"
  unfolding skip32_def drop32_def by (intro parse)

lemma parses_seqs_Nil [parse]: "parses (seqs []) (seqs [])"
  by (simp add: parses_ret del: ret_run)

lemma parses_seqs_Cons [parse]:
  "parses m p \<Longrightarrow> parses (seqs ms) (seqs ps) \<Longrightarrow> parses (seqs (m # ms)) (seqs (p # ps))"
  by (simp add: parses_bnd)

lemma beside_set_client:
  assumes "bufless u"
  shows "refines w (set_client u) (aside (set_client u))"
  unfolding set_client_def using assms by (intro refine beside_client) (simp_all add: bufless_def)


text \<open>Running a reader on a reply of a known form, one step at a time.\<close>

definition goes :: "bufref \<Rightarrow> ('w st, 'a) prog \<Rightarrow> 'w st \<Rightarrow> u8 list \<Rightarrow> 'a \<Rightarrow> 'w st \<Rightarrow> u8 list \<Rightarrow> bool" where
  "goes w m t bs a t' bs' \<longleftrightarrow> (\<forall>s. at w s t bs \<longrightarrow> (\<exists>s'. m s = Some (Ok a s') \<and> at w s' t' bs'))"

definition fails :: "bufref \<Rightarrow> ('w st, 'a) prog \<Rightarrow> 'w st \<Rightarrow> u8 list \<Rightarrow> string \<Rightarrow> 'w st \<Rightarrow> u8 list \<Rightarrow> bool" where
  "fails w m t bs c t' bs' \<longleftrightarrow> (\<forall>s. at w s t bs \<longrightarrow> (\<exists>s'. m s = Some (Err c s') \<and> at w s' t' bs'))"

named_theorems go \<open>one step of a reader on a reply of a known form\<close>

lemma goes_refines: "refines w m p \<Longrightarrow> p (t, bs) = Some (Ok a (t', bs')) \<Longrightarrow> goes w m t bs a t' bs'"
  unfolding goes_def by (metis refines_Ok)

lemma fails_refines: "refines w m p \<Longrightarrow> p (t, bs) = Some (Err c (t', bs')) \<Longrightarrow> fails w m t bs c t' bs'"
  unfolding fails_def by (metis refines_Err)

lemma goes_eq: "goes w m t bs a t1 bs1 \<Longrightarrow> t1 = t2 \<Longrightarrow> bs1 = bs2 \<Longrightarrow> goes w m t bs a t2 bs2"
  by simp

lemma goes_bnd [go]:
  "goes w m t bs a t1 bs1 \<Longrightarrow> goes w (k a) t1 bs1 c t' bs' \<Longrightarrow> goes w (bnd m k) t bs c t' bs'"
  unfolding goes_def by (fastforce simp: bnd_Ok)

lemma fails_bnd_here: "fails w m t bs c t' bs' \<Longrightarrow> fails w (bnd m k) t bs c t' bs'"
  unfolding fails_def by (fastforce simp: bnd_Err)

lemma fails_bnd_later [go]:
  "goes w m t bs a t1 bs1 \<Longrightarrow> fails w (k a) t1 bs1 c t' bs' \<Longrightarrow> fails w (bnd m k) t bs c t' bs'"
  unfolding goes_def fails_def by (fastforce simp: bnd_Ok)

lemma goes_ret [go]: "goes w (ret a) t bs a t bs"
  by (simp add: goes_def)

lemma fails_err [go]: "fails w (err c) t bs c t bs"
  by (simp add: fails_def)

lemma goes_seqs_Nil [go]: "goes w (seqs []) t bs () t bs"
  by (simp add: goes_def)

lemma goes_seqs_Cons [go]:
  "goes w m t bs () t1 bs1 \<Longrightarrow> goes w (seqs ms) t1 bs1 () t' bs' \<Longrightarrow> goes w (seqs (m # ms)) t bs () t' bs'"
  by (simp add: goes_bnd)

lemma fails_seqs_Cons [go]:
  "goes w m t bs () t1 bs1 \<Longrightarrow> fails w (seqs ms) t1 bs1 c t' bs' \<Longrightarrow> fails w (seqs (m # ms)) t bs c t' bs'"
  by (simp add: fails_bnd_later)

lemma goes_ignoring [go]: "goes w m t bs a t' bs' \<Longrightarrow> goes w (ignoring m) t bs () t' bs'"
  unfolding goes_def by (fastforce simp: ignoring_Ok)

lemma goes_modify [go]: "beside f \<Longrightarrow> goes w (modify f) t bs () (f t) bs"
  unfolding goes_def by (auto simp: at_def beside_def)

lemma goes_parses:
  assumes "parses m p" and "p bs = Some (Ok a bs')"
  shows "goes w (on_buf w m) t bs a t bs'"
  using assms by (intro goes_refines[OF refines_on_buf]) (auto simp: bytes_left_def zoom_def)

lemma get32_be32 [simp]: "get32 (be32 v @ bs) = Some (Ok v bs)"
  by (simp add: get32_def take_bytes_def bnd_def codec_simps)

lemma get64_be64 [simp]: "get64 (be64 v @ bs) = Some (Ok v bs)"
  by (simp add: get64_def take_bytes_def bnd_def codec_simps)

lemma goes_read32 [go]: "goes w (on_buf w read_beu32) t (be32 v @ bs) v t bs"
  by (rule goes_parses[OF parses_read_beu32]) simp

lemma goes_read64 [go]: "goes w (on_buf w read_beu64) t (be64 v @ bs) v t bs"
  by (rule goes_parses[OF parses_read_beu64]) simp

lemma goes_skip32 [go]: "goes w (on_buf w skip32) t (be32 v @ bs) () t bs"
  by (rule goes_parses[OF parses_skip32]) (simp add: drop32_def bnd_def)

lemma goes_skip64 [go]: "goes w (on_buf w (bnd read_beu64 (\<lambda>_. ret ()))) t (be64 v @ bs) () t bs"
  by (rule goes_parses, (rule parse)+) (simp add: bnd_def)

lemma goes_verify [go]: "goes w (on_buf w (verify_and_adv v)) t (be32 v @ bs) () t bs"
  by (rule goes_parses[OF parses_verify]) (simp add: expect32_def bnd_def)

lemma goes_load [go]:
  "length xs = n \<Longrightarrow> goes w (on_buf w (load_start n)) t (xs @ bs) (cells_of xs) t (xs @ bs)"
  by (rule goes_parses[OF parses_load_start]) (simp add: load_bytes_def bnd_def)

lemma goes_peek [go]:
  "length xs = n \<Longrightarrow>
   goes w (on_buf w (\<lambda>b. buf_bytes (unat (b_start b)) n b)) t (xs @ bs) xs t (xs @ bs)"
  by (rule goes_parses[OF parses_peek]) (simp add: load_bytes_def)

lemma goes_skip [go]: "length xs = unat n \<Longrightarrow> goes w (on_buf w (skip n)) t (xs @ bs) () t bs"
  by (rule goes_parses[OF parses_skip]) (simp add: drop_bytes_def)

lemma goes_read_buffer [go]:
  "length xs = unat n \<Longrightarrow> goes w (on_buf w (read_buffer n)) t (xs @ bs) (cells_of xs) t bs"
  by (rule goes_parses[OF parses_read_buffer]) (simp add: take_bytes_def bnd_def)

lemma goes_set_client [go]:
  "bufless u \<Longrightarrow> goes w (set_client u) t bs () (t\<lparr>s_client := u (s_client t)\<rparr>) bs"
  unfolding set_client_def by (rule goes_modify) (auto simp: bufless_def)

lemma bufless_fields [simp]:
  "bufless (c_clientid_update (\<lambda>_. i))" "bufless (c_sequence_update (\<lambda>_. u))"
  "bufless (c_server_sequence_update (\<lambda>_. u))"
  "bufless (c_maxreq_update (\<lambda>_. u))" "bufless (c_maxresp_update (\<lambda>_. u))"
  "bufless (c_maxops_update (\<lambda>_. u))" "bufless (c_maxreqs_update (\<lambda>_. u))"
  unfolding bufless_def wf_client_def by (intro conjI allI; case_tac w; simp)+

lemma bufless_session [simp]:
  "length xs = NFS4_SESSIONID_SIZE \<Longrightarrow> bufless (c_session_update (\<lambda>_. xs))"
  unfolding bufless_def wf_client_def by (intro conjI allI; case_tac w; simp)+


lemma parse_exchange_id_goes [go]:
  assumes "length cid = 8"
  shows "goes w (parse_exchange_id w) t (cid @ be32 seq @ be32 flags @ rest) ()
    (t\<lparr>s_client := (s_client t)\<lparr>c_clientid := of_le64 cid, c_server_sequence := seq\<rparr>\<rparr>) rest"
proof -
  have "goes w (parse_exchange_id w) t (cid @ be32 seq @ be32 flags @ rest) ()
    (t\<lparr>s_client := (s_client t)\<lparr>c_clientid := of_le64 cid\<rparr>\<rparr>
      \<lparr>s_client := (s_client (t\<lparr>s_client := (s_client t)\<lparr>c_clientid := of_le64 cid\<rparr>\<rparr>))
         \<lparr>c_server_sequence := seq\<rparr>\<rparr>) rest"
    unfolding parse_exchange_id_def by (rule go | (simp add: assms; fail))+
  then show ?thesis by simp
qed

lemma goes_parse_stateid:
  assumes "\<And>g. beside (put g)" and "length other = 12"
  shows "goes w (parse_stateid w put) t (be32 seq @ other @ rest) ()
    (put (\<lambda>sid. sid\<lparr>sid_opaque := cells_of other\<rparr>) (put (\<lambda>sid. sid\<lparr>sid_sequence := seq\<rparr>) t)) rest"
  unfolding parse_stateid_def by (rule go assms(1) | (simp add: assms(2) size_defs; fail))+


lemma bufless_limits [simp]:
  "bufless (\<lambda>c. c\<lparr>c_maxreq := min (c_maxreq c) x\<rparr>)"
  "bufless (\<lambda>c. c\<lparr>c_maxresp := min (c_maxresp c) x\<rparr>)"
  "bufless (\<lambda>c. c\<lparr>c_maxops := min (c_maxops c) x\<rparr>)"
  "bufless (\<lambda>c. c\<lparr>c_maxreqs := min (c_maxreqs c) x\<rparr>)"
  unfolding bufless_def wf_client_def by (intro conjI allI; case_tac w; simp)+

lemma lower_limit:
  "(if c_maxreq c > x then c\<lparr>c_maxreq := x\<rparr> else c) = c\<lparr>c_maxreq := min (c_maxreq c) x\<rparr>"
  "(if c_maxresp c > x then c\<lparr>c_maxresp := x\<rparr> else c) = c\<lparr>c_maxresp := min (c_maxresp c) x\<rparr>"
  "(if c_maxops c > x then c\<lparr>c_maxops := x\<rparr> else c) = c\<lparr>c_maxops := min (c_maxops c) x\<rparr>"
  "(if c_maxreqs c > x then c\<lparr>c_maxreqs := x\<rparr> else c) = c\<lparr>c_maxreqs := min (c_maxreqs c) x\<rparr>"
  by (auto simp: min_def)

lemma normalize_min:
  "normalize c_maxreq c_maxreq_update x = set_client (\<lambda>c. c\<lparr>c_maxreq := min (c_maxreq c) x\<rparr>)"
  "normalize c_maxresp c_maxresp_update x = set_client (\<lambda>c. c\<lparr>c_maxresp := min (c_maxresp c) x\<rparr>)"
  "normalize c_maxops c_maxops_update x = set_client (\<lambda>c. c\<lparr>c_maxops := min (c_maxops c) x\<rparr>)"
  "normalize c_maxreqs c_maxreqs_update x = set_client (\<lambda>c. c\<lparr>c_maxreqs := min (c_maxreqs c) x\<rparr>)"
  by (simp_all add: normalize_def lower_limit)

text \<open>The limits of the client after a session was made: never above what the server offers.\<close>

definition session_limits :: "cells \<Rightarrow> u32 \<Rightarrow> u32 \<Rightarrow> u32 \<Rightarrow> u32 \<Rightarrow> client \<Rightarrow> client" where
  "session_limits sess req resp ops reqs c =
     c\<lparr>c_session := sess, c_maxreq := min (c_maxreq c) req, c_maxresp := min (c_maxresp c) resp,
       c_maxops := min (c_maxops c) ops, c_maxreqs := min (c_maxreqs c) reqs\<rparr>"

lemma goes_parse_create_session [go]:
  assumes "length sess = 16"
  shows "goes w (parse_create_session w) t
    (sess @ be32 seq @ be32 flags @ be32 hpad @ be32 req @ be32 resp @ be32 cached @
       be32 ops @ be32 reqs @ be32 rdma @ rest) ()
    (t\<lparr>s_client := session_limits (cells_of sess) req resp ops reqs (s_client t)\<rparr>) rest"
  unfolding parse_create_session_def normalize_min
  by (rule goes_eq, rule goes_bnd, rule goes_load, simp add: assms size_defs,
      (rule goes_seqs_Cons | rule goes_seqs_Nil | rule goes_bnd | rule goes_read32 | rule goes_skip32
          | (rule goes_skip, simp add: assms size_defs)
          | (rule goes_set_client, simp add: assms size_defs))+)
    (simp_all add: session_limits_def)


lemma beside_open_sid [simp]: "beside (open_sid g)"
  by (simp add: beside_def open_sid_def)

lemma beside_latest_sid [simp]: "beside (latest_sid g)"
  by (simp add: beside_def latest_sid_def)

lemma beside_nowhere [simp]: "beside (nowhere g)"
  by (simp add: beside_def nowhere_def)

lemma beside_file [simp]: "beside (\<lambda>s. s\<lparr>s_file := f (s_file s)\<rparr>)"
  by (simp add: beside_def)

text \<open>
  The result of \<^verbatim>\<open>OPEN\<close> up to its delegation (RFC 5661, section 18.16.2), and the four
  delegations as they are read.
\<close>

definition open_result :: "u32 \<Rightarrow> u8 list \<Rightarrow> u32 \<Rightarrow> u64 \<Rightarrow> u64 \<Rightarrow> u32 \<Rightarrow> u32 list \<Rightarrow> u8 list" where
  "open_result seq other atomic before after rflags attrs =
     be32 seq @ other @ be32 atomic @ be64 before @ be64 after @ be32 rflags @
     be32 (word_of_nat (length attrs)) @ concat (map be32 attrs)"

lemma length_concat_be32 [simp]: "length (concat (map be32 ws)) = 4 * length ws"
  by (induction ws) simp_all

lemma unat_attrs: "n < 2 ^ 30 \<Longrightarrow> unat (word_of_nat n * 4 :: u32) = 4 * n"
  by (simp add: unat_times4 unat_of_nat_small)

definition opened :: "u32 \<Rightarrow> u8 list \<Rightarrow> nfs_file \<Rightarrow> nfs_file" where
  "opened seq other f =
     (let sid = \<lparr>sid_sequence = seq, sid_opaque = cells_of other\<rparr>
      in f\<lparr>f_open_sid := sid, f_latest_sid := sid\<rparr>)"

lemma goes_of_status_None [go]: "goes w (of_status None) t bs () t bs"
  by (simp add: goes_ret del: ret_run)

lemma goes_parse_open:
  assumes "length other = 12" and "length attrs < 2 ^ 30"
    and deleg: "goes w (parse_delegation w) (t\<lparr>s_file := opened seq other (s_file t)\<rparr>) bs ()
      (t\<lparr>s_file := opened seq other (s_file t)\<rparr>) bs'"
  shows "goes w (parse_open None w) t
    (open_result seq other atomic before after rflags attrs @ bs) ()
    (t\<lparr>s_file := opened seq other (s_file t)\<rparr>) bs'"
proof -
  let ?put = "\<lambda>t. open_sid (\<lambda>sid. sid\<lparr>sid_opaque := cells_of other\<rparr>) (open_sid (\<lambda>sid. sid\<lparr>sid_sequence := seq\<rparr>) t)"
  have copy: "goes w (modify (\<lambda>s. s\<lparr>s_file := (s_file s)\<lparr>f_latest_sid := f_open_sid (s_file s)\<rparr>\<rparr>))
      (?put t) rest () (t\<lparr>s_file := opened seq other (s_file t)\<rparr>) rest" for rest
    by (rule goes_eq[OF goes_modify _ refl])
      (simp_all add: beside_def open_sid_def opened_def Let_def)
  have skip: "goes w (on_buf w (skip (word_of_nat (length attrs) * 4))) t' (concat (map be32 attrs) @ bs) () t' bs" for t'
    using assms(2) by (intro goes_skip) (simp add: unat_attrs)
  show ?thesis
    unfolding parse_open_def open_result_def append_assoc
    by (rule goes_seqs_Cons[OF goes_ignoring[OF goes_parse_stateid]], simp, rule assms(1),
        rule goes_seqs_Cons[OF copy],
        (rule goes_seqs_Cons goes_seqs_Nil goes_skip32 goes_skip64 goes_bnd[OF goes_read32] skip deleg
           goes_of_status_None)+)
qed

lemma delegation_none:
  "goes w (parse_delegation w) t (be32 OPEN_DELEGATE_NONE @ bs) () t bs"
  unfolding parse_delegation_def by (rule goes_bnd[OF goes_read32]) (simp add: goes_ret del: ret_run)

definition ace :: "u32 \<Rightarrow> u32 \<Rightarrow> u32 \<Rightarrow> u8 list \<Rightarrow> u8 list" where
  "ace ty flag rights who = be32 ty @ be32 flag @ be32 rights @ be32 (word_of_nat (length who)) @ who"

lemma goes_parse_ace [go]:
  assumes "length who < 2 ^ 32"
  shows "goes w (on_buf w parse_ace) t (ace ty flag rights who @ bs) () t bs"
proof (rule goes_parses)
  show "parses parse_ace (seqs [drop32, drop32, drop32,
      bnd get32 (\<lambda>n. bnd (take_bytes (unat n)) (\<lambda>_. ret ()))])"
    unfolding parse_ace_def by (intro parse)
  have d: "drop32 (be32 v @ rest) = Some (Ok () rest)" for v rest
    by (simp add: drop32_def bnd_def)
  show "seqs [drop32, drop32, drop32, bnd get32 (\<lambda>n. bnd (take_bytes (unat n)) (\<lambda>_. ret ()))]
      (ace ty flag rights who @ bs) = Some (Ok () bs)"
    using assms by (simp add: ace_def bnd_def d take_bytes_def unat_of_nat_small)
qed

lemma delegation_read:
  assumes "length other = 12" and "length who < 2 ^ 32"
  shows "goes w (parse_delegation w) t
    (be32 OPEN_DELEGATE_READ @ be32 seq @ other @ be32 recall @ ace ty flag rights who @ bs) () t bs"
proof -
  have sid: "goes w (ignoring (parse_stateid w nowhere)) t (be32 seq @ other @ rest) () t rest" for rest
    using goes_ignoring[OF goes_parse_stateid[of nowhere, OF _ assms(1)]] by (simp add: nowhere_def)
  show ?thesis unfolding parse_delegation_def
    by (rule goes_bnd[OF goes_read32], simp only: if_True if_False simp_thms
          OPEN_DELEGATE_READ_def OPEN_DELEGATE_NONE_def one_neq_zero,
        (rule goes_seqs_Cons goes_seqs_Nil sid goes_skip32 goes_ignoring goes_parse_ace[OF assms(2)])+)
qed

lemma delegation_none_ext:
  "why \<noteq> WND4_CONTENTION \<Longrightarrow> why \<noteq> WND4_RESOURCE \<Longrightarrow>
   goes w (parse_delegation w) t (be32 OPEN_DELEGATE_NONE_EXT @ be32 why @ bs) () t bs"
  unfolding parse_delegation_def
  by (rule goes_bnd[OF goes_read32], simp add: OPEN_DELEGATE_NONE_EXT_def OPEN_DELEGATE_READ_def
      OPEN_DELEGATE_NONE_def OPEN_DELEGATE_WRITE_def del: seqs.simps, rule goes_bnd[OF goes_read32])
    (simp add: goes_ret del: ret_run)

text \<open>A write delegation is never accepted, whatever follows its type.\<close>

definition no_success :: "('s, 'a) prog \<Rightarrow> bool" where
  "no_success m \<longleftrightarrow> (\<forall>s a t. m s \<noteq> Some (Ok a t))"

lemma no_success_err: "no_success (err c)"
  by (simp add: no_success_def)

lemma no_success_bnd: "(\<And>a. no_success (k a)) \<Longrightarrow> no_success (bnd m k)"
  by (auto simp: no_success_def bnd_def split: option.splits out.splits)

lemma no_success_bnd_first: "no_success m \<Longrightarrow> no_success (bnd m k)"
  by (auto simp: no_success_def bnd_def split: option.splits out.splits)

lemma delegation_write:
  fixes s s' :: "'w st"
  assumes "on_buf w read_beu32 s = Some (Ok OPEN_DELEGATE_WRITE s')"
  shows "parse_delegation w s \<noteq> Some (Ok a t)"
proof -
  have "no_success (seqs
         [ignoring (parse_stateid w nowhere),
          on_buf w skip32,
          bnd (on_buf w read_beu32) (\<lambda>lt. seqs
            [if lt = NFS_LIMIT_SIZE then on_buf w (bnd read_beu64 (\<lambda>_. ret ())) else ret (),
             if lt = NFS_LIMIT_SIZE \<or> lt = NFS_LIMIT_BLOCKS then
               on_buf w (bnd read_beu32 (\<lambda>_. bnd read_beu64 (\<lambda>_. ret ()))) else ret (),
             err ''bad limit size''])] :: ('w st, unit) prog)"
    unfolding seqs.simps by (intro no_success_bnd no_success_bnd_first no_success_err)
  then show ?thesis
    unfolding parse_delegation_def bnd_Ok[of "on_buf w read_beu32", OF assms]
    by (simp add: no_success_def OPEN_DELEGATE_READ_def
      OPEN_DELEGATE_NONE_def OPEN_DELEGATE_WRITE_def del: seqs.simps)
qed

end
