(* ===== verification/Rpc.thy ===== *)
theory Rpc
  imports Replies
begin

text \<open>
  The remote procedure calls of \<^verbatim>\<open>nfsv4/rpc.c\<close>: a request is allocated, filled, framed and
  sent, its reply is read and checked, and a session the server does not know is replaced
  and the request sent again. Tracing (\<^verbatim>\<open>NFS_TRACE\<close>, \<^verbatim>\<open>NFS_PACKET_TRACE\<close>) only prints and
  is left out.
\<close>

text \<open>A status is null or has a cause.\<close>

definition status_string :: "string option \<Rightarrow> string" where
  "status_string st = (case st of None \<Rightarrow> ''ok'' | Some cause \<Rightarrow> cause)"

section \<open>The request\<close>

definition push_header :: "u32 \<Rightarrow> (buffer, unit) prog" where
  "push_header xid = seqs
     [push_be32 xid,
      push_be32 0,
      push_be32 2,
      push_be32 NFS_PROGRAM,
      push_be32 4,
      push_be32 1,
      push_be32 1,
      push_be32 36,
      push_be32 0x111ff274,
      push_string (cells_of (ascii ''ip-192-168-1-40'' @ [0])) 15,
      push_be32 0,
      push_be32 0,
      push_be32 0,
      push_be32 0,
      push_be32 0,
      push_be32 0,
      push_be32 1]"

definition allocate_rpc :: "bufref \<Rightarrow> ('w st, rpc) prog" where
  "allocate_rpc w =
     bnd (on_buf w (modify (\<lambda>b. b\<lparr>b_start := 0, b_end := 0\<rparr>))) (\<lambda>_.
     bnd (on_buf w (push_be32 0)) (\<lambda>_.
     bnd (set_client (\<lambda>c. c\<lparr>c_xid := c_xid c + 1\<rparr>)) (\<lambda>_.
     bnd (gets (\<lambda>s. c_xid (s_client s))) (\<lambda>xid.
     bnd (on_buf w (push_header xid)) (\<lambda>_.
     bnd (gets (\<lambda>s. b_end (get_buf w (s_client s)))) (\<lambda>loc.
     bnd (on_buf w (bump 4)) (\<lambda>_.
     ret \<lparr>r_opcountloc = loc, r_opcount = 0, r_b = w\<rparr>)))))))"

text \<open>\<^verbatim>\<open>vector_foreach\<close> over the components of a path; the body does not change the vector.\<close>

fun push_lookups :: "ptr list \<Rightarrow> 'w push" where
  "push_lookups [] r = ret r"
| "push_lookups (p # ps) r =
     bnd (push_op OP_LOOKUP r) (\<lambda>r.
     bnd (on_heap (deref p)) (\<lambda>i.
     bnd (on_b (push_string (mem_at_start i) (buffer_length i)) r) (push_lookups ps)))"

definition push_resolution_rfh :: "vector \<Rightarrow> 'w push" where
  "push_resolution_rfh path r =
     bnd (chain
       [push_op OP_PUTFH,
        from_client (\<lambda>c. on_b (push_string (c_root_filehandle c) (word_of_nat NFS4_FHSIZE)))] r) (\<lambda>r.
     bnd (vector_foreach path) (\<lambda>ps. push_lookups ps r))"

definition push_resolution :: "vector \<Rightarrow> 'w push" where
  "push_resolution path r =
     bnd (push_op OP_PUTROOTFH r) (\<lambda>r.
     bnd (vector_foreach path) (\<lambda>ps. push_lookups ps r))"

definition push_initial_path :: "vector \<Rightarrow> rpc \<Rightarrow> ('w st, rpc \<times> ptr) prog" where
  "push_initial_path path r =
     bnd (push_resolution_rfh (path\<lparr>b_end := b_end path - 8\<rparr>) r) (\<lambda>r.
     bnd (on_local path (vector_get (vector_length path - 1))) (\<lambda>(p, _). ret (r, p)))"

section \<open>Sending and receiving\<close>

definition rpc_send :: "'w os \<Rightarrow> rpc \<Rightarrow> ('w st, unit) prog" where
  "rpc_send os r =
     bnd (on_buf (r_b r) (\<lambda>b. buf_store (unat (r_opcountloc r)) (cells_of (be32 (r_opcount r))) b)) (\<lambda>_.
     bnd (on_buf (r_b r) (\<lambda>b. buf_store 0 (cells_of (be32 (0x80000000 + buffer_length b - 4))) b)) (\<lambda>_.
     bnd (gets (\<lambda>s. get_buf (r_b r) (s_client s))) (\<lambda>b.
     bnd (on_buf (r_b r) (buf_load (unat (b_start b)) (unat (buffer_length b)))) (\<lambda>xs.
     bnd (gets (\<lambda>s. c_fd (s_client s))) (\<lambda>fd.
     bnd (on_world (os_write os fd xs)) (\<lambda>res.
     check ''failed rpc write'' (word_of_int res = buffer_length b)))))))"

text \<open>
  \<^verbatim>\<open>read_fully\<close>: \<open>mem\<close> is the memory the destination lies in, at \<open>off\<close>; \<open>sz\<close> is \<^verbatim>\<open>sz_read\<close>.
  Every call asks for \<^verbatim>\<open>nbyte\<close> bytes, however many are still missing. The result is -1
  (\<open>None\<close>) or the number of bytes read.
\<close>

partial_function (option) read_fully ::
    "'w os \<Rightarrow> int \<Rightarrow> nat \<Rightarrow> nat \<Rightarrow> nat \<Rightarrow> cells \<Rightarrow> 'w st \<Rightarrow> ('w st, nat option \<times> cells) out option" where
  "read_fully os fd nbyte off sz mem s =
     (if sz < nbyte then
        (case os_read os fd nbyte (s_world s) of
           (None, w) \<Rightarrow> Some (Ok (None, mem) (s\<lparr>s_world := w\<rparr>))
         | (Some bs, w) \<Rightarrow>
             (case mem_store (off + sz) (cells_of bs) mem of
                None \<Rightarrow> Some (Crash Out_of_bounds)
              | Some mem' \<Rightarrow>
                  read_fully os fd nbyte off (sz + length bs) mem' (s\<lparr>s_world := w\<rparr>)))
      else Some (Ok (Some sz, mem) s))"

definition read_response :: "'w os \<Rightarrow> bufref \<Rightarrow> ('w st, unit) prog" where
  "read_response os w =
     bnd (gets (\<lambda>s. c_fd (s_client s))) (\<lambda>fd.
     bnd (read_fully os fd 4 0 0 (fresh_cells 4)) (\<lambda>(chars, framing).
       if chars \<noteq> Some 4 then err ''server socket read error''
       else (case those framing of
           None \<Rightarrow> crash Uninitialised
         | Some bs \<Rightarrow>
             let frame = of_be32 bs AND 0x7fffffff in
             bnd (on_buf w (buffer_extend frame)) (\<lambda>_.
             bnd (gets (\<lambda>s. get_buf w (s_client s))) (\<lambda>b.
             bnd (read_fully os fd (unat frame) (unat (b_start b)) 0 (b_contents b)) (\<lambda>(chars, mem).
             bnd (on_buf w (modify (\<lambda>b. b\<lparr>b_contents := mem\<rparr>))) (\<lambda>_.
               if chars \<noteq> Some (unat frame) then err ''server socket read error''
               else on_buf w (modify (\<lambda>b. b\<lparr>b_end := frame\<rparr>)))))))))"

definition parse_rpc :: "bufref \<Rightarrow> ('w st, unit) prog" where
  "parse_rpc w =
     bnd (modify (\<lambda>s. s\<lparr>s_bad := False\<rparr>)) (\<lambda>_.
     bnd (gets (\<lambda>s. c_xid (s_client s))) (\<lambda>xid.
     bnd (on_buf w (verify_and_adv xid)) (\<lambda>_.
     bnd (on_buf w (verify_and_adv 1)) (\<lambda>_.
     bnd (on_buf w read_beu32) (\<lambda>rpcstatus.
     if rpcstatus \<noteq> NFS4_OK then nfs_error rpcstatus
     else
     bnd (on_buf w (verify_and_adv 0)) (\<lambda>_.
     bnd (on_buf w (verify_and_adv 0)) (\<lambda>_.
     bnd (on_buf w (verify_and_adv 0)) (\<lambda>_.
     bnd (on_buf w read_beu32) (\<lambda>nstatus.
     if nstatus \<noteq> NFS4_OK then
       bnd (if nstatus = NFS4ERR_BADSESSION then modify (\<lambda>s. s\<lparr>s_bad := True\<rparr>) else ret ())
         (\<lambda>_. nfs_error nstatus)
     else on_buf w (verify_and_adv 0))))))))))"

text \<open>
  \<^verbatim>\<open>read_until\<close> skips the results of the operations before \<open>which\<close>. Its \<^verbatim>\<open>opcount\<close> is read
  and not used; the two steps over the result of \<^verbatim>\<open>SEQUENCE\<close> are not checked.
\<close>

partial_function (option) read_until_loop ::
    "bufref \<Rightarrow> u32 \<Rightarrow> 'w st \<Rightarrow> ('w st, unit) out option" where
  "read_until_loop w which s =
     bnd (on_buf w read_beu32) (\<lambda>op.
       if op = which then ret ()
       else
       bnd (on_buf w read_beu32) (\<lambda>code.
         if code \<noteq> 0 then nfs_error code
         else if op = OP_SEQUENCE then
           bnd (on_buf w (skip (word_of_nat NFS4_SESSIONID_SIZE))) (\<lambda>_.
           bnd (on_buf w read_beu32) (\<lambda>seq.
           bnd (on_buf w (skip 16)) (\<lambda>_. read_until_loop w which)))
         else if op = OP_PUTROOTFH then read_until_loop w which
         else if op = OP_PUTFH then read_until_loop w which
         else if op = OP_LOOKUP then read_until_loop w which
         else err ''unhandled scan code'')) s"

definition read_until :: "bufref \<Rightarrow> u32 \<Rightarrow> ('w st, unit) prog" where
  "read_until w which =
     bnd (on_buf w read_beu32) (\<lambda>opcount. read_until_loop w which)"

definition base_transact :: "'w os \<Rightarrow> rpc \<Rightarrow> u32 \<Rightarrow> bufref \<Rightarrow> ('w st, unit) prog" where
  "base_transact os r op w =
     bnd (rpc_send os r) (\<lambda>_.
     bnd (on_buf w (modify (\<lambda>b. b\<lparr>b_start := 0, b_end := 0\<rparr>))) (\<lambda>_.
     bnd (read_response os w) (\<lambda>_.
     bnd (parse_rpc w) (\<lambda>_.
     bnd (read_until w op) (\<lambda>_.
     bnd (on_buf w read_beu32) (\<lambda>code.
     if code = 0 then ret () else nfs_error code))))))"

section \<open>Connections and sessions\<close>

text \<open>A string of C: the bytes up to the first zero.\<close>

fun c_string :: "cells \<Rightarrow> fault + u8 list" where
  "c_string [] = Inl Out_of_bounds"
| "c_string (None # xs) = Inl Uninitialised"
| "c_string (Some x # xs) = (if x = 0 then Inr []
     else (case c_string xs of Inl f \<Rightarrow> Inl f | Inr bs \<Rightarrow> Inr (x # bs)))"

definition nfs4_connect :: "'w os \<Rightarrow> ('w st, unit) prog" where
  "nfs4_connect os =
     bnd (gets (\<lambda>s. c_string (b_contents (c_hostname (s_client s))))) (\<lambda>name.
       case name of
         Inl f \<Rightarrow> crash f
       | Inr name \<Rightarrow>
         bnd (on_world (os_gethostbyname os name)) (\<lambda>addr.
         case addr of
           None \<Rightarrow> crash Null_pointer
         | Some addr \<Rightarrow>
           bnd (set_client (\<lambda>c. c\<lparr>c_address := take 4 (cells_of addr)\<rparr>)) (\<lambda>_.
           bnd (on_world (os_socket os)) (\<lambda>fd.
           bnd (set_client (\<lambda>c. c\<lparr>c_fd := fd\<rparr>)) (\<lambda>_.
           bnd (if config_boolean (os_getenv os) ''NFS_TCP_NODELAY'' True
                then on_world (\<lambda>w. ((), os_setsockopt os fd 0 1 w)) else ret ()) (\<lambda>_.
           bnd (on_world (os_connect os fd (take 4 (cells_of addr)) 2049)) (\<lambda>res.
           check ''connect failure'' (res = 0)))))))) "

text \<open>
  The \<^verbatim>\<open>boolean\<close> of \<^verbatim>\<open>exchange_id\<close>, \<^verbatim>\<open>get_root_fh\<close>, \<^verbatim>\<open>reclaim_complete\<close> and
  \<^verbatim>\<open>destroy_session\<close> is not initialised and not read; \<open>False\<close> stands for what it holds.
\<close>

definition exchange_id_request :: "'w os \<Rightarrow> ('w st, rpc) prog" where
  "exchange_id_request os = bnd (allocate_rpc Reverse) (push_exchange_id os)"

definition exchange_id :: "'w os \<Rightarrow> ('w st, unit) prog" where
  "exchange_id os =
     bnd (exchange_id_request os) (\<lambda>r.
     bnd (with_flag False (base_transact os r OP_EXCHANGE_ID Reverse)) (\<lambda>_.
     parse_exchange_id Reverse))"

text \<open>
  \<^verbatim>\<open>create_session\<close> calls \<^verbatim>\<open>transact\<close> and \<^verbatim>\<open>transact\<close> calls \<^verbatim>\<open>create_session\<close>, through
  \<^verbatim>\<open>rpc_connection\<close>. The first two take \<^verbatim>\<open>transact\<close> as an argument; the knot is tied below.
\<close>

type_synonym 'w transaction = "rpc \<Rightarrow> u32 \<Rightarrow> bufref \<Rightarrow> ('w st, unit) prog"

definition create_session_request :: "('w st, rpc) prog" where
  "create_session_request =
     bnd (allocate_rpc Reverse) (chain
       [update_client (\<lambda>c. c\<lparr>c_sequence := 1\<rparr>),
        update_client (\<lambda>c. c\<lparr>c_lock_sequence := 1\<rparr>),
        push_create_session,
        update_client (\<lambda>c. c\<lparr>c_server_sequence := c_server_sequence c + 1\<rparr>)])"

definition create_session_with :: "'w transaction \<Rightarrow> ('w st, unit) prog" where
  "create_session_with again =
     bnd create_session_request (\<lambda>r.
     bnd (again r OP_CREATE_SESSION Reverse) (\<lambda>_.
     parse_create_session Reverse))"

definition get_root_fh_request :: "('w st, rpc) prog" where
  "get_root_fh_request =
     bnd (allocate_rpc Reverse) (chain [push_sequence, push_op OP_PUTROOTFH, push_op OP_GETFH])"

definition get_root_fh :: "'w os \<Rightarrow> ('w st, unit) prog" where
  "get_root_fh os =
     bnd get_root_fh_request (\<lambda>r.
     bnd (with_flag False (base_transact os r OP_GETFH Reverse)) (\<lambda>_.
     bnd (on_buf Reverse read_beu32) (\<lambda>len.
     bnd (check ''encoding mismatch'' (unat len \<le> NFS4_FHSIZE)) (\<lambda>_.
     bnd (set_client (\<lambda>c. c\<lparr>c_root_filehandle_len := ucast len\<rparr>)) (\<lambda>_.
     bnd (on_buf Reverse (read_buffer (ucast (ucast len :: u8)))) (\<lambda>xs.
     bnd (gets (\<lambda>s. mem_store 0 xs (c_root_filehandle (s_client s)))) (\<lambda>fh.
     case fh of
       None \<Rightarrow> crash Out_of_bounds
     | Some fh \<Rightarrow> set_client (\<lambda>c. c\<lparr>c_root_filehandle := fh\<rparr>))))))))"

definition reclaim_complete_request :: "('w st, rpc) prog" where
  "reclaim_complete_request =
     bnd (allocate_rpc Reverse) (chain [push_sequence, push_op OP_RECLAIM_COMPLETE, on_b (push_be32 0)])"

definition reclaim_complete :: "'w os \<Rightarrow> ('w st, unit) prog" where
  "reclaim_complete os =
     bnd reclaim_complete_request (\<lambda>r.
     with_flag False (base_transact os r OP_RECLAIM_COMPLETE Reverse))"

definition destroy_session_request :: "('w st, rpc) prog" where
  "destroy_session_request =
     bnd (allocate_rpc Reverse) (chain
       [push_op OP_DESTROY_SESSION, from_client (\<lambda>c. push_session_id (c_session c))])"

definition destroy_session :: "'w os \<Rightarrow> ('w st, unit) prog" where
  "destroy_session os =
     bnd destroy_session_request (\<lambda>r.
     with_flag False (base_transact os r OP_DESTROY_SESSION Reverse))"

definition rpc_connection_with :: "'w os \<Rightarrow> 'w transaction \<Rightarrow> ('w st, unit) prog" where
  "rpc_connection_with os again =
     bnd (nfs4_connect os) (\<lambda>_.
     bnd (exchange_id os) (\<lambda>_.
     bnd (create_session_with again) (\<lambda>_.
     bnd (get_root_fh os) (\<lambda>_.
     reclaim_complete os))))"

text \<open>
  \<^verbatim>\<open>replay_rpc\<close> patches the request that is still in the buffer: the session and sequence at
  a fixed offset, and the transaction id.
\<close>

definition replay_rpc :: "rpc \<Rightarrow> ('w st, unit) prog" where
  "replay_rpc r =
     (let offset = 4 * 15; w = r_b r in
      bnd (gets s_client) (\<lambda>c.
      bnd (on_buf w (buf_store offset (c_session c))) (\<lambda>_.
      bnd (set_client (\<lambda>c. c\<lparr>c_sequence := c_sequence c + 1\<rparr>)) (\<lambda>_.
      bnd (on_buf w (buf_store (offset + NFS4_SESSIONID_SIZE) (cells_of (be32 (c_sequence c))))) (\<lambda>_.
      bnd (set_client (\<lambda>c. c\<lparr>c_xid := c_xid c + 1\<rparr>)) (\<lambda>_.
      bnd (gets (\<lambda>s. c_xid (s_client s))) (\<lambda>xid.
      on_buf w (buf_store 4 (cells_of (be32 xid))))))))))"

lemma mono_with_flag [partial_function_mono]:
  fixes m :: "('x \<Rightarrow> 'y option) \<Rightarrow> ('w st, 'a) prog"
  assumes "\<And>s. mono_option (\<lambda>f. m f s)"
  shows "mono_option (\<lambda>f. with_flag b (m f) s)"
proof (rule mono_optionI)
  fix f g :: "'x \<Rightarrow> 'y option" assume fg: "\<And>x. f x = None \<or> f x = g x"
  have "m f (s\<lparr>s_bad := b\<rparr>) = None \<or> m f (s\<lparr>s_bad := b\<rparr>) = m g (s\<lparr>s_bad := b\<rparr>)"
    using assms[of "s\<lparr>s_bad := b\<rparr>"] fg by (rule mono_optionD)
  then show "with_flag b (m f) s = None \<or> with_flag b (m f) s = with_flag b (m g) s"
    by (auto simp: with_flag_def)
qed

lemma mono_rpc_connection [partial_function_mono]:
  fixes again :: "('x \<Rightarrow> 'y option) \<Rightarrow> 'w transaction"
  assumes "\<And>r op w s. mono_option (\<lambda>f. again f r op w s)"
  shows "mono_option (\<lambda>f. rpc_connection_with os (again f) s)"
  unfolding rpc_connection_with_def create_session_with_def
  by (intro partial_function_mono assms)

text \<open>
  \<open>tries\<close> and \<open>st\<close> are the locals of \<^verbatim>\<open>transact\<close>, the flag is its \<^verbatim>\<open>badsession\<close>. The loop
  runs at least once, so \<open>st\<close> is assigned before it is returned.
\<close>

partial_function (option) transact_loop ::
    "'w os \<Rightarrow> rpc \<Rightarrow> u32 \<Rightarrow> bufref \<Rightarrow> nat \<Rightarrow> string option \<Rightarrow> 'w st \<Rightarrow> ('w st, unit) out option" where
  "transact_loop os r op w tries st s =
     (if tries < 2 \<and> s_bad s then
        bnd (status_of (base_transact os r op w)) (\<lambda>st.
        bnd (gets s_bad) (\<lambda>bad.
          if bad then
            bnd (rpc_connection_with os (\<lambda>r op w. with_flag True (transact_loop os r op w 0 None))) (\<lambda>_.
            bnd (replay_rpc r) (\<lambda>_.
            transact_loop os r op w (Suc tries) st))
          else transact_loop os r op w tries st)) s
      else of_status st s)"

definition transact :: "'w os \<Rightarrow> rpc \<Rightarrow> u32 \<Rightarrow> bufref \<Rightarrow> ('w st, unit) prog" where
  "transact os r op w = with_flag True (transact_loop os r op w 0 None)"

definition create_session :: "'w os \<Rightarrow> ('w st, unit) prog" where
  "create_session os = create_session_with (transact os)"

definition rpc_connection :: "'w os \<Rightarrow> ('w st, unit) prog" where
  "rpc_connection os =
     bnd (nfs4_connect os) (\<lambda>_.
     bnd (exchange_id os) (\<lambda>_.
     bnd (create_session os) (\<lambda>_.
     bnd (get_root_fh os) (\<lambda>_.
     reclaim_complete os))))"

lemma rpc_connection_knot: "rpc_connection os = rpc_connection_with os (transact os)"
  by (simp add: rpc_connection_def rpc_connection_with_def create_session_def)

end
