(* ===== verification/Client.thy ===== *)
theory Client
  imports Rpc
begin

text \<open>
  The operations on files: those of \<^verbatim>\<open>nfsv4/rpc.c\<close> that work on an open file (reading and
  writing in chunks, size, byte-range locks) and those of \<^verbatim>\<open>nfsv4/client.c\<close>. The reply of
  every one of them is read from the buffer \<^verbatim>\<open>reverse\<close>, the request is built in \<^verbatim>\<open>forward\<close>.
\<close>

section \<open>Requests on an open file\<close>

definition from_file :: "(nfs_file \<Rightarrow> 'w push) \<Rightarrow> 'w push" where
  "from_file k r s = k (s_file s) r s"

definition file_rpc :: "'w os \<Rightarrow> ('w st, rpc) prog" where
  "file_rpc os =
     bnd (allocate_rpc Forward) (chain
       [push_sequence,
        push_op OP_PUTFH,
        if config_boolean (os_getenv os) ''NFS_USE_FILEHANDLE'' True
        then from_file (\<lambda>f. on_b (push_string (f_filehandle f) (ucast (f_filehandle_len f))))
        else from_file (\<lambda>f. push_resolution (f_path f))])"

definition size_request :: "'w os \<Rightarrow> ('w st, rpc) prog" where
  "size_request os =
     bnd (file_rpc os) (chain
       [push_op OP_GETATTR,
        on_b (push_be32 1),
        on_b (push_be32 (push_bit (unat FATTR4_SIZE) 1))])"

definition file_size :: "'w os \<Rightarrow> ('w st, u64) prog" where
  "file_size os =
     bnd (size_request os) (\<lambda>r.
     bnd (transact os r OP_GETATTR Reverse) (\<lambda>_.
     bnd (on_buf Reverse (modify (\<lambda>b. b\<lparr>b_start := b_end b - 8\<rparr>))) (\<lambda>_.
     on_buf Reverse read_beu64)))"

text \<open>
  \<^verbatim>\<open>dest\<close> and \<^verbatim>\<open>source\<close> point into the caller's memory \<open>s_mem\<close>, at the given offset.
\<close>

definition read_request :: "'w os \<Rightarrow> u64 \<Rightarrow> u32 \<Rightarrow> ('w st, rpc) prog" where
  "read_request os offset count =
     bnd (file_rpc os) (chain
       [push_op OP_READ,
        from_file (\<lambda>f. push_stateid (f_latest_sid f)),
        on_b (push_be64 offset),
        on_b (push_be32 count)])"

definition read_chunk :: "'w os \<Rightarrow> nat \<Rightarrow> u64 \<Rightarrow> u32 \<Rightarrow> ('w st, unit) prog" where
  "read_chunk os dest offset count =
     bnd (read_request os offset count) (\<lambda>r.
     bnd (transact os r OP_READ Reverse) (\<lambda>_.
     bnd (on_buf Reverse (skip 4)) (\<lambda>_.
     bnd (on_buf Reverse read_beu32) (\<lambda>len.
     bnd (on_buf Reverse (load_start (unat len))) (\<lambda>xs.
     bnd (gets (\<lambda>s. mem_store dest xs (s_mem s))) (\<lambda>mem.
     case mem of
       None \<Rightarrow> crash Out_of_bounds
     | Some mem \<Rightarrow> modify (\<lambda>s. s\<lparr>s_mem := mem\<rparr>)))))))"

definition write_request :: "'w os \<Rightarrow> cells \<Rightarrow> u64 \<Rightarrow> u32 \<Rightarrow> ('w st, rpc) prog" where
  "write_request os mem offset count =
     bnd (file_rpc os) (chain
       [push_op OP_WRITE,
        from_file (\<lambda>f. push_stateid (f_latest_sid f)),
        on_b (push_be64 offset),
        on_b (push_be32 FILE_SYNC4),
        on_b (push_string mem count)])"

definition write_chunk :: "'w os \<Rightarrow> nat \<Rightarrow> u64 \<Rightarrow> u32 \<Rightarrow> ('w st, unit) prog" where
  "write_chunk os source offset count =
     bnd (gets (\<lambda>s. drop source (s_mem s))) (\<lambda>mem.
     bnd (write_request os mem offset count) (\<lambda>r.
     transact os r OP_WRITE Reverse))"

text \<open>
  \<^verbatim>\<open>segment\<close>: \<open>each\<close> takes a place in the caller's memory, an offset of the file and a count.
\<close>

type_synonym 'w chunk = "nat \<Rightarrow> u64 \<Rightarrow> u32 \<Rightarrow> ('w st, unit) prog"

partial_function (option) segment_loop ::
    "'w chunk \<Rightarrow> u32 \<Rightarrow> nat \<Rightarrow> u64 \<Rightarrow> u32 \<Rightarrow> u32 \<Rightarrow> 'w st \<Rightarrow> ('w st, unit) out option" where
  "segment_loop each chunksize x offset count done s =
     (if done < count then
        let xfer = min (count - done) chunksize in
        bnd (each (x + unat done) (offset + ucast done) xfer) (\<lambda>_.
        segment_loop each chunksize x offset count (done + xfer)) s
      else Some (Ok () s))"

definition segment :: "'w chunk \<Rightarrow> u32 \<Rightarrow> nat \<Rightarrow> u64 \<Rightarrow> u32 \<Rightarrow> ('w st, unit) prog" where
  "segment each chunksize x offset count = segment_loop each chunksize x offset count 0"

definition readfile :: "'w os \<Rightarrow> nat \<Rightarrow> u64 \<Rightarrow> u32 \<Rightarrow> ('w st, unit) prog" where
  "readfile os dest offset count =
     bnd (gets (\<lambda>s. c_maxresp (s_client s))) (\<lambda>maxresp.
     segment (read_chunk os) maxresp dest offset count)"

definition writefile :: "'w os \<Rightarrow> nat \<Rightarrow> u64 \<Rightarrow> u32 \<Rightarrow> u32 \<Rightarrow> ('w st, unit) prog" where
  "writefile os dest offset count synch =
     bnd (gets (\<lambda>s. c_maxreq (s_client s))) (\<lambda>maxreq.
     segment (write_chunk os) maxreq dest offset count)"

section \<open>Byte-range locks\<close>

definition lock_request :: "'w os \<Rightarrow> u32 \<Rightarrow> u64 \<Rightarrow> u64 \<Rightarrow> ('w st, rpc) prog" where
  "lock_request os locktype offset count =
     bnd (file_rpc os) (chain
       [push_op OP_LOCK,
        on_b (push_be32 locktype),
        on_b (push_boolean False),
        on_b (push_be64 offset),
        on_b (push_be64 count),
        on_b (push_boolean True),
        push_bare_sequence,
        from_file (\<lambda>f. push_stateid (f_open_sid f)),
        push_lock_sequence,
        push_owner])"

definition lock_range :: "'w os \<Rightarrow> u32 \<Rightarrow> u64 \<Rightarrow> u64 \<Rightarrow> ('w st, unit) prog" where
  "lock_range os locktype offset count =
     bnd (lock_request os locktype offset count) (\<lambda>r.
     bnd (transact os r OP_LOCK Reverse) (\<lambda>_.
     ignoring (parse_stateid Reverse latest_sid)))"

definition unlock_request :: "'w os \<Rightarrow> u32 \<Rightarrow> u64 \<Rightarrow> u64 \<Rightarrow> ('w st, rpc) prog" where
  "unlock_request os locktype offset count =
     bnd (file_rpc os) (chain
       [push_op OP_LOCKU,
        on_b (push_be32 locktype),
        push_bare_sequence,
        from_file (\<lambda>f. push_stateid (f_latest_sid f)),
        on_b (push_be64 offset),
        on_b (push_be64 count)])"

definition unlock_range :: "'w os \<Rightarrow> u32 \<Rightarrow> u64 \<Rightarrow> u64 \<Rightarrow> ('w st, unit) prog" where
  "unlock_range os locktype offset count =
     bnd (unlock_request os locktype offset count) (\<lambda>r.
     bnd (transact os r OP_LOCKU Reverse) (\<lambda>_.
     ignoring (parse_stateid Reverse latest_sid)))"

section \<open>Opening, looking up, removing\<close>

text \<open>
  \<^verbatim>\<open>file_open_internal\<close>: the status allocated for \<^verbatim>\<open>create && !writable\<close> is dropped, so the
  test has no effect. \<open>indet\<close> is what \<^verbatim>\<open>parse_open\<close> returns when it returns nothing.
\<close>

definition open_request :: "vector \<Rightarrow> bool \<Rightarrow> bool \<Rightarrow> ('w st, rpc) prog" where
  "open_request path writable create =
     bnd (allocate_rpc Forward) (\<lambda>r.
     bnd (push_sequence r) (\<lambda>r.
     bnd (push_initial_path path r) (\<lambda>(r, p).
     bnd (on_heap (deref p)) (\<lambda>final.
     let share_access = (if writable then OPEN4_SHARE_ACCESS_BOTH else OPEN4_SHARE_ACCESS_READ) in
     chain [push_open final share_access create, push_op OP_GETFH] r))))"

definition file_open_internal ::
    "'w os \<Rightarrow> string option \<Rightarrow> vector \<Rightarrow> bool \<Rightarrow> bool \<Rightarrow> ('w st, unit) prog" where
  "file_open_internal os indet path writable create =
     bnd (if create \<and> \<not> writable then ret () else ret ()) (\<lambda>_.
     bnd (open_request path writable create) (\<lambda>r.
     bnd (transact os r OP_OPEN Reverse) (\<lambda>_.
     bnd (parse_open indet Reverse) (\<lambda>_.
     bnd (on_buf Reverse (verify_and_adv OP_GETFH)) (\<lambda>_.
     bnd (on_buf Reverse (verify_and_adv 0)) (\<lambda>_.
     bnd (on_buf Reverse read_beu32) (\<lambda>len.
     bnd (check ''encoding mismatch'' (unat len \<le> NFS4_FHSIZE)) (\<lambda>_.
     bnd (on_file (modify (\<lambda>f. f\<lparr>f_filehandle_len := ucast len\<rparr>))) (\<lambda>_.
     bnd (on_buf Reverse (read_buffer (ucast (ucast len :: u8)))) (\<lambda>xs.
     bnd (gets (\<lambda>s. mem_store 0 xs (f_filehandle (s_file s)))) (\<lambda>fh.
     case fh of
       None \<Rightarrow> crash Out_of_bounds
     | Some fh \<Rightarrow> on_file (modify (\<lambda>f. f\<lparr>f_filehandle := fh\<rparr>)))))))))))))"

text \<open>\<open>fresh\<close> is the \<^verbatim>\<open>struct file\<close> as \<^verbatim>\<open>malloc\<close> returns it, of unknown contents.\<close>

definition file_open_read ::
    "'w os \<Rightarrow> string option \<Rightarrow> nfs_file \<Rightarrow> vector \<Rightarrow> ('w st, unit) prog" where
  "file_open_read os indet fresh path =
     bnd (modify (\<lambda>s. s\<lparr>s_file := fresh\<lparr>f_path := path\<rparr>\<rparr>)) (\<lambda>_.
     file_open_internal os indet path False False)"

definition file_open_write ::
    "'w os \<Rightarrow> string option \<Rightarrow> nfs_file \<Rightarrow> vector \<Rightarrow> ('w st, unit) prog" where
  "file_open_write os indet fresh path =
     bnd (modify (\<lambda>s. s\<lparr>s_file := fresh\<lparr>f_path := path\<rparr>\<rparr>)) (\<lambda>_.
     file_open_internal os indet path True False)"

definition file_create ::
    "'w os \<Rightarrow> string option \<Rightarrow> nfs_file \<Rightarrow> vector \<Rightarrow> ('w st, unit) prog" where
  "file_create os indet fresh path =
     bnd (modify (\<lambda>s. s\<lparr>s_file := fresh\<lparr>f_path := path\<rparr>\<rparr>)) (\<lambda>_.
     file_open_internal os indet path True True)"

definition file_close :: "('w st, unit) prog" where
  "file_close = ret ()"

definition exists_request :: "vector \<Rightarrow> ('w st, rpc) prog" where
  "exists_request path =
     bnd (allocate_rpc Forward) (chain [push_sequence, push_resolution path, push_op OP_GETFH])"

definition exists :: "'w os \<Rightarrow> vector \<Rightarrow> ('w st, unit) prog" where
  "exists os path = bnd (exists_request path) (\<lambda>r. transact os r OP_GETFH Reverse)"

definition delete_request :: "vector \<Rightarrow> ('w st, rpc) prog" where
  "delete_request path =
     bnd (allocate_rpc Forward) (\<lambda>r.
     bnd (push_sequence r) (\<lambda>r.
     bnd (push_initial_path path r) (\<lambda>(r, p).
     bnd (on_heap (deref p)) (\<lambda>final.
     chain [push_op OP_REMOVE, on_b (push_string (mem_at_start final) (buffer_length final))] r))))"

definition delete :: "'w os \<Rightarrow> vector \<Rightarrow> ('w st, unit) prog" where
  "delete os path = bnd (delete_request path) (\<lambda>r. transact os r OP_REMOVE Reverse)"

text \<open>\<^verbatim>\<open>readdir\<close> and \<^verbatim>\<open>mkdir\<close> have empty bodies: their status is whatever the compiled functions leave.\<close>

definition readdir :: "string option \<Rightarrow> vector \<Rightarrow> ('w st, unit) prog" where
  "readdir indet path = of_status indet"

definition mkdir :: "string option \<Rightarrow> vector \<Rightarrow> ('w st, unit) prog" where
  "mkdir indet path = of_status indet"

section \<open>Names\<close>

fun print_path_loop :: "ptr list \<Rightarrow> buffer \<Rightarrow> (heap, buffer) prog" where
  "print_path_loop [] b = ret b"
| "print_path_loop (p # ps) b =
     bnd (on_local b (if buffer_length b \<noteq> 1 then push_char 47 else ret ())) (\<lambda>(_, b).
     bnd (deref p) (\<lambda>i.
     bnd (on_local b (buffer_concat i)) (\<lambda>(_, b).
     print_path_loop ps b)))"

definition print_path :: "vector \<Rightarrow> (heap, buffer) prog" where
  "print_path v =
     bnd (on_local (allocate_buffer 100) (push_char 47)) (\<lambda>(_, b).
     bnd (vector_foreach v) (\<lambda>ps. print_path_loop ps b))"

definition filename :: "(nfs_file \<times> heap, buffer) prog" where
  "filename =
     bnd (gets (\<lambda>(f, _). f_path f)) (\<lambda>path.
     bnd (zoom snd (\<lambda>H (f, _). (f, H)) (join path 47)) (\<lambda>z.
     bnd (on_local z (push_char 0)) (\<lambda>(_, z). ret z)))"

section \<open>A new client\<close>

text \<open>\<open>fresh\<close> is the \<^verbatim>\<open>struct client\<close> as \<^verbatim>\<open>malloc\<close> returns it; \<open>hostname\<close> the string without its zero.\<close>

definition create_client :: "'w os \<Rightarrow> client \<Rightarrow> u8 list \<Rightarrow> ('w st, unit) prog" where
  "create_client os fresh hostname =
     bnd (on_local (allocate_buffer (word_of_nat (length hostname + 1))) (seqs
       [push_bytes (cells_of hostname),
        push_char 0])) (\<lambda>(_, name).
     bnd (on_world (os_clock os)) (\<lambda>(sec, nsec).
     bnd (set_client (\<lambda>_. fresh\<lparr>
       c_hostname := name,
       c_xid := 0xb956bea4,
       c_maxops := ucast (config_u64 (os_getenv os) ''NFS_OPS_LIMIT'' 16),
       c_maxreqs := ucast (config_u64 (os_getenv os) ''NFS_REQUESTS_LIMIT'' 32),
       c_forward := allocate_buffer 16384,
       c_reverse := allocate_buffer 16384,
       c_instance_verifier := le64 (sec * 1000000000 + nsec),
       c_maxresp := ucast (config_u64 (os_getenv os) ''NFS_READ_LIMIT'' (1024 * 1024)),
       c_maxreq := ucast (config_u64 (os_getenv os) ''NFS_WRITE_LIMIT'' (1024 * 1024))\<rparr>)) (\<lambda>_.
     rpc_connection os)))"

end
