(* ===== verification/Locking.thy ===== *)
theory Locking
  imports Client
begin

text \<open>
  \<^verbatim>\<open>nfs4Lock\<close> and \<^verbatim>\<open>nfs4Unlock\<close> of \<^verbatim>\<open>nfsv4/nfs4.c\<close>: the lock levels of SQLite on top of
  byte-range locks. Each of them is a sequence of calls of \<^verbatim>\<open>lock_range\<close> and
  \<^verbatim>\<open>unlock_range\<close>, left at the first call that fails; so it is translated to a \<open>script\<close> of
  calls, which runs on the calls of the client (\<open>run_script\<close>), and whose calls several
  processes can also make in turns (theory \<open>Lock_Safety\<close>).
\<close>

section \<open>Codes and constants\<close>

text \<open>
  The result codes are those of SQLite. \<open>Indeterminate\<close> is what a function declared \<^verbatim>\<open>int\<close>
  hands back when it ends without a \<^verbatim>\<open>return\<close>.
\<close>

datatype sqlite_rc =
    SQLITE_OK
  | SQLITE_ERROR
  | SQLITE_READONLY
  | SQLITE_NOTFOUND
  | SQLITE_CANTOPEN
  | SQLITE_OK_LOAD_PERMANENTLY
  | Parent_rc int
  | Indeterminate

definition locktypes :: "codepoint list" where
  "locktypes = [(''NONE'', 0), (''SHARED'', 1), (''RESERVED'', 2), (''PENDING'', 3),
     (''EXCLUSIVE'', 4), ('''', 0)]"

definition PENDING_BYTE :: u64 where
  "PENDING_BYTE = 0x40000000"

definition RESERVED_BYTE :: u64 where
  "RESERVED_BYTE = PENDING_BYTE + 1"

definition SHARED_FIRST :: u64 where
  "SHARED_FIRST = PENDING_BYTE + 2"

definition SHARED_SIZE :: u64 where
  "SHARED_SIZE = 510"

definition NO_LOCK :: int where
  "NO_LOCK = 0"

definition SHARED_LOCK :: int where
  "SHARED_LOCK = 1"

definition RESERVED_LOCK :: int where
  "RESERVED_LOCK = 2"

definition PENDING_LOCK :: int where
  "PENDING_LOCK = 3"

definition EXCLUSIVE_LOCK :: int where
  "EXCLUSIVE_LOCK = 4"

lemmas level_defs = NO_LOCK_def SHARED_LOCK_def RESERVED_LOCK_def PENDING_LOCK_def EXCLUSIVE_LOCK_def

lemmas byte_defs = PENDING_BYTE_def RESERVED_BYTE_def SHARED_FIRST_def SHARED_SIZE_def

section \<open>Scripts\<close>

datatype call =
    Lock_range u32 u64 u64
  | Unlock_range u32 u64 u64

text \<open>
  \<open>Try c k\<close> makes the call \<open>c\<close> and goes on with \<open>k\<close>, or returns the translated status if it
  fails; \<open>Finish level\<close> sets \<^verbatim>\<open>eFileLock\<close> and returns \<^verbatim>\<open>SQLITE_OK\<close>; \<open>Keep\<close> returns it with
  \<^verbatim>\<open>eFileLock\<close> as it was; \<open>Abort\<close> is a failed assertion.
\<close>

datatype script =
    Keep
  | Finish int
  | Abort
  | Try call script

definition assert_that :: "bool \<Rightarrow> script \<Rightarrow> script" where
  "assert_that b k = (if b then k else Abort)"

definition nfs4Lock_script :: "int \<Rightarrow> int \<Rightarrow> script" where
  "nfs4Lock_script held want =
     (if held \<ge> want then Keep
      else
        assert_that (held \<noteq> NO_LOCK \<or> want = SHARED_LOCK) (
        assert_that (want \<noteq> PENDING_LOCK) (
        assert_that (want \<noteq> RESERVED_LOCK \<or> held = SHARED_LOCK) (
        let rest =
          (if want = SHARED_LOCK then
             Try (Lock_range READ_LT SHARED_FIRST SHARED_SIZE) (
             Try (Unlock_range READ_LT PENDING_BYTE 1) (
             Finish want))
           else
             assert_that (held \<noteq> 0) (
             assert_that (want = RESERVED_LOCK \<or> want = EXCLUSIVE_LOCK) (
             if want = RESERVED_LOCK then
               Try (Lock_range WRITE_LT RESERVED_BYTE 1) (Finish want)
             else
               Try (Lock_range WRITE_LT SHARED_FIRST SHARED_SIZE) (Finish want))))
        in
          if want = SHARED_LOCK \<or> (want = EXCLUSIVE_LOCK \<and> held < PENDING_LOCK) then
            Try (Lock_range (if want = SHARED_LOCK then READ_LT else WRITE_LT) PENDING_BYTE 1) rest
          else rest))))"

text \<open>
  \<^verbatim>\<open>l_type\<close> of \<^verbatim>\<open>nfs4Unlock\<close> is not initialised when a shared lock is dropped to none;
  \<open>junk\<close> is what it holds then.
\<close>

definition nfs4Unlock_script :: "u32 \<Rightarrow> int \<Rightarrow> int \<Rightarrow> script" where
  "nfs4Unlock_script junk held want =
     assert_that (want \<le> SHARED_LOCK) (
     if held \<le> want then Keep
     else
       let last = (\<lambda>l_type.
         if want = NO_LOCK then Try (Unlock_range l_type SHARED_FIRST SHARED_SIZE) (Finish want)
         else Finish want)
       in
       if held > SHARED_LOCK then
         let second = Try (Unlock_range READ_LT PENDING_BYTE 2) (last READ_LT) in
         if want = SHARED_LOCK then
           Try (Lock_range READ_LT SHARED_FIRST SHARED_SIZE) second
         else second
       else last junk)"

fun run_script :: "(call \<Rightarrow> ('s, unit) prog) \<Rightarrow> int \<Rightarrow> script \<Rightarrow> ('s, sqlite_rc \<times> int) prog" where
  "run_script do held Keep = ret (SQLITE_OK, held)"
| "run_script do held (Finish level) = ret (SQLITE_OK, level)"
| "run_script do held Abort = crash Assertion"
| "run_script do held (Try c k) =
     bnd (status_of (do c)) (\<lambda>st.
       if st \<noteq> None then ret (SQLITE_ERROR, held) else run_script do held k)"

text \<open>The calls, as the client makes them.\<close>

fun client_call :: "'w os \<Rightarrow> call \<Rightarrow> ('w st, unit) prog" where
  "client_call os (Lock_range ty off len) = lock_range os ty off len"
| "client_call os (Unlock_range ty off len) = unlock_range os ty off len"

end
