(* ===== verification/Vfs.thy ===== *)
theory Vfs
  imports Locking
begin

text \<open>
  The SQLite file system \<^verbatim>\<open>nfsv4/nfs4.c\<close>: the methods of an open file and of the VFS. SQLite's
  own header is not part of the repository, so the values of its flags are the parameter
  \<open>sqlite\<close>, and the methods forwarded to the parent VFS are the parameter \<open>parent\<close>.
\<close>

section \<open>State and parameters\<close>

text \<open>\<open>q_pMethods\<close>: \<^verbatim>\<open>base.pMethods\<close> points to the table of the methods.\<close>

record sqlfile =
  q_pMethods :: bool
  q_eFileLock :: int
  q_powersafe :: bool
  q_readonly :: bool
  q_filename :: cells

text \<open>
  The state of the VFS: the file at hand and the application data, whose client pointer
  \<^verbatim>\<open>ad->c\<close> is null until the first file is opened (\<open>v_connected\<close>).
\<close>

record 'w vfs =
  v_sql :: sqlfile
  v_connected :: bool
  v_trace :: bool
  v_st :: "'w st"

record sqlite =
  SQLITE_OPEN_READONLY :: u32
  SQLITE_OPEN_READWRITE :: u32
  SQLITE_OPEN_CREATE :: u32
  SQLITE_ACCESS_EXISTS :: u32
  SQLITE_ACCESS_READWRITE :: u32
  SQLITE_SYNC_NORMAL :: u32
  SQLITE_FCNTL_PRAGMA :: u32
  SQLITE_FCNTL_MMAP_SIZE :: u32
  SQLITE_FCNTL_VFSNAME :: u32
  SQLITE_IOCAP_POWERSAFE_OVERWRITE :: u32
  SQLITE_IOCAP_IMMUTABLE :: u32

definition on_st :: "('w st, 'a) prog \<Rightarrow> ('w vfs, 'a) prog" where
  "on_st = zoom v_st (\<lambda>s v. v\<lparr>v_st := s\<rparr>)"

definition set_sql :: "(sqlfile \<Rightarrow> sqlfile) \<Rightarrow> ('w vfs, unit) prog" where
  "set_sql f = modify (\<lambda>v. v\<lparr>v_sql := f (v_sql v)\<rparr>)"

definition translate_status :: "string option \<Rightarrow> sqlite_rc" where
  "translate_status st = (if st \<noteq> None then SQLITE_ERROR else SQLITE_OK)"

definition translated :: "('w st, unit) prog \<Rightarrow> ('w vfs, sqlite_rc) prog" where
  "translated m = bnd (on_st (status_of m)) (\<lambda>st. ret (translate_status st))"

section \<open>Methods of a file\<close>

definition nfs4Close :: "('w vfs, sqlite_rc) prog" where
  "nfs4Close = bnd (on_st file_close) (\<lambda>_. ret SQLITE_OK)"

text \<open>
  \<^verbatim>\<open>nfs4Read\<close>, \<^verbatim>\<open>nfs4Write\<close> and \<^verbatim>\<open>nfs4Fetch\<close> translate the status and then end without
  returning it. The caller's buffer is the memory \<open>s_mem\<close>.
\<close>

definition nfs4Read :: "'w os \<Rightarrow> u32 \<Rightarrow> u64 \<Rightarrow> ('w vfs, sqlite_rc) prog" where
  "nfs4Read os iAmt iOfst =
     bnd (translated (readfile os 0 iOfst iAmt)) (\<lambda>_. ret Indeterminate)"

definition SYNCH_REMOTE :: u32 where
  "SYNCH_REMOTE = 1"

definition nfs4Write :: "'w os \<Rightarrow> u32 \<Rightarrow> u64 \<Rightarrow> ('w vfs, sqlite_rc) prog" where
  "nfs4Write os iAmt iOfst =
     bnd (translated (writefile os 0 iOfst iAmt SYNCH_REMOTE)) (\<lambda>_. ret Indeterminate)"

definition nfs4Truncate :: "u64 \<Rightarrow> ('w vfs, sqlite_rc) prog" where
  "nfs4Truncate newsize = ret SQLITE_ERROR"

definition nfs4Sync :: "u32 \<Rightarrow> ('w vfs, sqlite_rc) prog" where
  "nfs4Sync flags = ret SQLITE_OK"

text \<open>
  \<^verbatim>\<open>*pSize = size\<close> happens whatever the status; \<open>junk\<close> is what the local holds when
  \<^verbatim>\<open>file_size\<close> did not set it.
\<close>

definition status_value :: "('s, 'a) prog \<Rightarrow> ('s, string option \<times> 'a option) prog" where
  "status_value m s = (case m s of
      None \<Rightarrow> None
    | Some (Ok a t) \<Rightarrow> Some (Ok (None, Some a) t)
    | Some (Err c t) \<Rightarrow> Some (Ok (Some c, None) t)
    | Some (Crash f) \<Rightarrow> Some (Crash f))"

definition nfs4FileSize :: "'w os \<Rightarrow> u64 \<Rightarrow> ('w vfs, sqlite_rc \<times> u64) prog" where
  "nfs4FileSize os junk =
     bnd (on_st (status_value (file_size os))) (\<lambda>(st, got).
     ret (translate_status st, case got of Some x \<Rightarrow> x | None \<Rightarrow> junk))"

definition run_locking :: "'w os \<Rightarrow> (int \<Rightarrow> script) \<Rightarrow> ('w vfs, sqlite_rc) prog" where
  "run_locking os scr =
     bnd (gets (\<lambda>v. q_eFileLock (v_sql v))) (\<lambda>held.
     bnd (on_st (run_script (client_call os) held (scr held))) (\<lambda>(rc, level).
     bnd (set_sql (\<lambda>q. q\<lparr>q_eFileLock := level\<rparr>)) (\<lambda>_. ret rc)))"

definition nfs4Lock :: "'w os \<Rightarrow> int \<Rightarrow> ('w vfs, sqlite_rc) prog" where
  "nfs4Lock os eFileLock = run_locking os (\<lambda>held. nfs4Lock_script held eFileLock)"

definition nfs4Unlock :: "'w os \<Rightarrow> u32 \<Rightarrow> int \<Rightarrow> ('w vfs, sqlite_rc) prog" where
  "nfs4Unlock os junk eFileLock = run_locking os (\<lambda>held. nfs4Unlock_script junk held eFileLock)"

definition nfs4CheckReservedLock :: "('w vfs, sqlite_rc \<times> int) prog" where
  "nfs4CheckReservedLock = ret (SQLITE_OK, 0)"

definition fcntl_codes :: "codepoint list" where
  "fcntl_codes = [
    (''LOCKSTATE'', 1), (''GET_LOCKPROXYFILE'', 2), (''SET_LOCKPROXYFILE'', 3),
    (''LAST_ERRNO'', 4), (''SIZE_HINT'', 5), (''CHUNK_SIZE'', 6), (''FILE_POINTER'', 7),
    (''SYNC_OMITTED'', 8), (''WIN32_AV_RETRY'', 9), (''PERSIST_WAL'', 10), (''OVERWRITE'', 11),
    (''VFSNAME'', 12), (''POWERSAFE_OVERWRITE'', 13), (''PRAGMA'', 14), (''BUSYHANDLER'', 15),
    (''TEMPFILENAME'', 16), (''MMAP_SIZE'', 18), (''TRACE'', 19), (''HAS_MOVED'', 20),
    (''SYNC'', 21), (''COMMIT_PHASETWO'', 22), (''WIN32_SET_HANDLE'', 23), (''WAL_BLOCK'', 24),
    (''ZIPVFS'', 25), (''RBU'', 26), (''VFS_POINTER'', 27), (''JOURNAL_POINTER'', 28),
    (''WIN32_GET_HANDLE'', 29), (''PDB'', 30), (''BEGIN_ATOMIC_WRITE'', 31),
    (''COMMIT_ATOMIC_WRITE'', 32), (''ROLLBACK_ATOMIC_WRITE'', 33), ('''', 0)]"

definition iocap :: "codepoint list" where
  "iocap = [
    (''SAFE_APPEND'', 0x00000200), (''SEQUENTIAL'', 0x00000400),
    (''UNDELETABLE_WHEN_OPEN'', 0x00000800), (''POWERSAFE_OVERWRITE'', 0x00001000),
    (''IMMUTABLE'', 0x00002000), (''BATCH_ATOMIC'', 0x00004000), ('''', 0)]"

text \<open>What \<^verbatim>\<open>nfs4FileControl\<close> stores behind \<^verbatim>\<open>pArg\<close>, if anything.\<close>

datatype fcntl_result = Nothing | Mmap_size u64 | Vfsname "u8 list"

definition nfs4FileControl :: "sqlite \<Rightarrow> u32 \<Rightarrow> ('w vfs, sqlite_rc \<times> fcntl_result) prog" where
  "nfs4FileControl sq op =
     (if op = SQLITE_FCNTL_PRAGMA sq then ret (SQLITE_NOTFOUND, Nothing)
      else
        let mmap = (if op = SQLITE_FCNTL_MMAP_SIZE sq then Mmap_size 0 else Nothing) in
        if op = SQLITE_FCNTL_VFSNAME sq then
          bnd (on_st (zoom (\<lambda>s. (s_file s, s_heap s)) (\<lambda>(f, H) s. s\<lparr>s_heap := H\<rparr>) filename)) (\<lambda>z.
          case c_string (mem_at_start z) of
            Inl f \<Rightarrow> crash f
          | Inr name \<Rightarrow> ret (SQLITE_OK, Vfsname (ascii ''nfs4('' @ name @ ascii '')'')))
        else ret (SQLITE_OK, mmap))"

definition nfs4SectorSize :: u32 where
  "nfs4SectorSize = 512"

definition nfs4DeviceCharacteristics :: "sqlite \<Rightarrow> sqlfile \<Rightarrow> u32" where
  "nfs4DeviceCharacteristics sq f =
     (if q_powersafe f then SQLITE_IOCAP_POWERSAFE_OVERWRITE sq
      else if q_readonly f then SQLITE_IOCAP_IMMUTABLE sq
      else 0)"

definition nfs4ShmMap :: "('w vfs, sqlite_rc) prog" where
  "nfs4ShmMap = ret SQLITE_READONLY"

definition nfs4ShmLock :: "('w vfs, sqlite_rc) prog" where
  "nfs4ShmLock = ret SQLITE_READONLY"

definition nfs4ShmBarrier :: "('w vfs, unit) prog" where
  "nfs4ShmBarrier = ret ()"

definition nfs4ShmUnmap :: "('w vfs, sqlite_rc) prog" where
  "nfs4ShmUnmap = ret SQLITE_OK"

definition nfs4Fetch :: "'w os \<Rightarrow> u64 \<Rightarrow> u32 \<Rightarrow> ('w vfs, sqlite_rc) prog" where
  "nfs4Fetch os iOfst iAmt =
     bnd (translated (readfile os 0 iOfst iAmt)) (\<lambda>_. ret Indeterminate)"

definition nfs4Unfetch :: "('w vfs, sqlite_rc) prog" where
  "nfs4Unfetch = ret SQLITE_OK"

section \<open>Methods of the VFS\<close>

definition openflags :: "codepoint list" where
  "openflags = [
    (''READONLY'', 0x00000001), (''READWRITE'', 0x00000002), (''CREATE'', 0x00000004),
    (''DELETEONCLOSE'', 0x00000008), (''EXCLUSIVE'', 0x00000010), (''AUTOPROXY'', 0x00000020),
    (''URI'', 0x00000040), (''MEMORY'', 0x00000080), (''MAIN_DB'', 0x00000100),
    (''TEMP_DB'', 0x00000200), (''TRANSIENT_DB'', 0x00000400), (''MAIN_JOURNAL'', 0x00000800),
    (''TEMP_JOURNAL'', 0x00001000), (''SUBJOURNAL'', 0x00002000),
    (''MASTER_JOURNAL'', 0x00004000), (''NOMUTEX'', 0x00008000), (''FULLMUTEX'', 0x00010000),
    (''SHAREDCACHE'', 0x00020000), (''PRIVATECACHE'', 0x00040000), (''WAL'', 0x00080000),
    ('''', 0)]"

text \<open>
  \<^verbatim>\<open>buffer_wrap_string\<close> sets three fields; \<open>junk\<close> is the capacity the local was left with.
\<close>

definition buffer_wrap_string :: "u32 \<Rightarrow> u8 list \<Rightarrow> buffer" where
  "buffer_wrap_string junk x =
     \<lparr>b_start = 0, b_end = word_of_nat (length x), b_capacity = junk, b_contents = cells_of (x @ [0])\<rparr>"

text \<open>
  \<open>fresh_c\<close> and \<open>fresh_f\<close> are the structures as \<^verbatim>\<open>malloc\<close> returns them. The name is copied
  into 255 bytes when tracing. A client per file handle (\<^verbatim>\<open>NFS4_CLIENT_PER_FILEHANDLE\<close>) is
  not configured by the build.
\<close>

definition nfs4Open ::
    "sqlite \<Rightarrow> 'w os \<Rightarrow> u32 \<Rightarrow> string option \<Rightarrow> client \<Rightarrow> nfs_file \<Rightarrow> u8 list \<Rightarrow> u32 \<Rightarrow>
     ('w vfs, sqlite_rc) prog" where
  "nfs4Open sq os junk indet fresh_c fresh_f zName flags =
     bnd (set_sql (\<lambda>q. q\<lparr>q_eFileLock := NO_LOCK, q_powersafe := True, q_readonly := False\<rparr>)) (\<lambda>_.
     bnd (gets v_trace) (\<lambda>trace.
     bnd (if trace then
            bnd (gets (\<lambda>v. mem_store 0 (cells_of zName) (q_filename (v_sql v)))) (\<lambda>m.
            case m of None \<Rightarrow> crash Out_of_bounds
            | Some m \<Rightarrow> set_sql (\<lambda>q. q\<lparr>q_filename := m\<rparr>))
          else ret ()) (\<lambda>_.
     bnd (on_st (on_heap (split (buffer_wrap_string junk zName) 47))) (\<lambda>path.
     bnd (on_local path vector_pop) (\<lambda>(servername, path).
     bnd (on_local path (vector_get 0)) (\<lambda>(zeg, _).
     bnd (on_st (on_heap (heap_modify servername (push_char 0)))) (\<lambda>_.
     bnd (gets v_connected) (\<lambda>connected.
     bnd (if connected then ret None
          else
            bnd (on_st (on_heap (deref servername))) (\<lambda>name.
            case c_string (b_contents name) of
              Inl f \<Rightarrow> crash f
            | Inr host \<Rightarrow>
              bnd (modify (\<lambda>v. v\<lparr>v_connected := True\<rparr>)) (\<lambda>_.
              on_st (status_of (create_client os fresh_c host))))) (\<lambda>st.
     if st \<noteq> None then ret (translate_status st)
     else
       bnd (set_sql (\<lambda>q. q\<lparr>q_pMethods := True\<rparr>)) (\<lambda>_.
       if flags AND SQLITE_OPEN_READONLY sq \<noteq> 0 then
         translated (file_open_read os indet fresh_f path)
       else if flags AND SQLITE_OPEN_CREATE sq \<noteq> 0 then
         translated (file_create os indet fresh_f path)
       else if flags AND SQLITE_OPEN_READWRITE sq \<noteq> 0 then
         translated (file_open_write os indet fresh_f path)
       else ret SQLITE_CANTOPEN))))))))))"

text \<open>The client pointer is used whether it was set or not.\<close>

definition nfs4Delete :: "'w os \<Rightarrow> u32 \<Rightarrow> u8 list \<Rightarrow> ('w vfs, sqlite_rc) prog" where
  "nfs4Delete os junk zPath =
     bnd (on_st (on_heap (split (buffer_wrap_string junk zPath) 47))) (\<lambda>path.
     bnd (on_local path vector_pop) (\<lambda>(_, path).
     bnd (gets v_connected) (\<lambda>connected.
     bnd (require Null_pointer connected) (\<lambda>_.
     bnd (on_st (ignoring (delete os path))) (\<lambda>_. ret SQLITE_OK)))))"

text \<open>\<open>out\<close> is the integer behind \<^verbatim>\<open>pResOut\<close> before the call.\<close>

definition nfs4Access ::
    "sqlite \<Rightarrow> 'w os \<Rightarrow> u32 \<Rightarrow> u8 list \<Rightarrow> u32 \<Rightarrow> int \<Rightarrow> ('w vfs, sqlite_rc \<times> int) prog" where
  "nfs4Access sq os junk zPath flags out =
     bnd (if flags = SQLITE_ACCESS_EXISTS sq then
            bnd (on_st (on_heap (split (buffer_wrap_string junk zPath) 47))) (\<lambda>path.
            bnd (on_local path vector_pop) (\<lambda>(_, path).
            bnd (gets v_connected) (\<lambda>connected.
            bnd (require Null_pointer connected) (\<lambda>_.
            bnd (on_st (status_of (exists os path))) (\<lambda>st.
            ret (if st = None then 1 else 0))))))
          else ret out) (\<lambda>out.
     ret (SQLITE_OK, if flags = SQLITE_ACCESS_READWRITE sq then 1 else out))"

text \<open>\<^verbatim>\<open>sqlite3_snprintf(nOut, zOut, "%s", zPath)\<close> writes at most \<open>nOut\<close> bytes with the zero.\<close>

definition nfs4FullPathname :: "u8 list \<Rightarrow> nat \<Rightarrow> sqlite_rc \<times> u8 list" where
  "nfs4FullPathname zPath nOut = (SQLITE_OK, if nOut = 0 then [] else take (nOut - 1) zPath @ [0])"

section \<open>Forwarded methods and registration\<close>

text \<open>
  What is called of the parent VFS, on the world. Handles and functions are addresses; the time
  of \<^verbatim>\<open>xCurrentTime\<close> is a \<^verbatim>\<open>double\<close>, given by its bits.
\<close>

record 'w parent_vfs =
  parent_xDlOpen :: "u8 list \<Rightarrow> 'w \<Rightarrow> u64 \<times> 'w"
  parent_xDlError :: "nat \<Rightarrow> 'w \<Rightarrow> u8 list \<times> 'w"
  parent_xDlSym :: "u64 \<Rightarrow> u8 list \<Rightarrow> 'w \<Rightarrow> u64 \<times> 'w"
  parent_xDlClose :: "u64 \<Rightarrow> 'w \<Rightarrow> unit \<times> 'w"
  parent_xRandomness :: "nat \<Rightarrow> 'w \<Rightarrow> (int \<times> u8 list) \<times> 'w"
  parent_xSleep :: "int \<Rightarrow> 'w \<Rightarrow> int \<times> 'w"
  parent_xCurrentTime :: "'w \<Rightarrow> (int \<times> u64) \<times> 'w"
  parent_xCurrentTimeInt64 :: "'w \<Rightarrow> (int \<times> u64) \<times> 'w"

definition nfs4DlOpen :: "'w parent_vfs \<Rightarrow> u8 list \<Rightarrow> ('w vfs, u64) prog" where
  "nfs4DlOpen parent zPath = on_st (on_world (parent_xDlOpen parent zPath))"

definition nfs4DlError :: "'w parent_vfs \<Rightarrow> nat \<Rightarrow> ('w vfs, u8 list) prog" where
  "nfs4DlError parent nByte = on_st (on_world (parent_xDlError parent nByte))"

definition nfs4DlSym :: "'w parent_vfs \<Rightarrow> u64 \<Rightarrow> u8 list \<Rightarrow> ('w vfs, u64) prog" where
  "nfs4DlSym parent p zSym = on_st (on_world (parent_xDlSym parent p zSym))"

definition nfs4DlClose :: "'w parent_vfs \<Rightarrow> u64 \<Rightarrow> ('w vfs, unit) prog" where
  "nfs4DlClose parent pHandle = on_st (on_world (parent_xDlClose parent pHandle))"

definition nfs4Randomness :: "'w parent_vfs \<Rightarrow> nat \<Rightarrow> ('w vfs, int \<times> u8 list) prog" where
  "nfs4Randomness parent nByte = on_st (on_world (parent_xRandomness parent nByte))"

definition nfs4Sleep :: "'w parent_vfs \<Rightarrow> int \<Rightarrow> ('w vfs, int) prog" where
  "nfs4Sleep parent nMicro = on_st (on_world (parent_xSleep parent nMicro))"

definition nfs4CurrentTime :: "'w parent_vfs \<Rightarrow> ('w vfs, int \<times> u64) prog" where
  "nfs4CurrentTime parent = on_st (on_world (parent_xCurrentTime parent))"

definition nfs4CurrentTimeInt64 :: "'w parent_vfs \<Rightarrow> ('w vfs, int \<times> u64) prog" where
  "nfs4CurrentTimeInt64 parent = on_st (on_world (parent_xCurrentTimeInt64 parent))"

definition nfs4GetLastError :: "('w vfs, sqlite_rc) prog" where
  "nfs4GetLastError = ret SQLITE_OK"

text \<open>\<open>register\<close> is the result of \<^verbatim>\<open>sqlite3_vfs_register\<close>.\<close>

definition sqlite3_nfs_init :: "'w os \<Rightarrow> sqlite_rc \<Rightarrow> ('w vfs, sqlite_rc) prog" where
  "sqlite3_nfs_init os register =
     bnd (modify (\<lambda>v. v\<lparr>v_connected := False, v_trace := config_boolean (os_getenv os) ''NFS_TRACE'' False\<rparr>))
       (\<lambda>_. ret (if register = SQLITE_OK then SQLITE_OK_LOAD_PERMANENTLY else register))"

end
