(* ===== verification/Lock_Safety.thy ===== *)
theory Lock_Safety
  imports Locking
begin

text \<open>
  The lock levels of several processes that run \<^verbatim>\<open>nfs4Lock\<close> and \<^verbatim>\<open>nfs4Unlock\<close> in turns, one
  call to the server at a time. The locale \<open>lock_calls\<close> holds the laws of those calls; in it,
  every reachable state is \<open>safe\<close>: no process believes to be at a level its byte-range locks
  are not worth, so a process at \<^verbatim>\<open>EXCLUSIVE\<close> is alone. Left out are the processes of a set \<open>F\<close>, those
  that may see an \<^verbatim>\<open>nfs4Unlock\<close> fail when it was half done.
\<close>

section \<open>Byte-range locks\<close>

text \<open>
  What a process holds on a byte: nothing (0), a read lock (1) or a write lock (2). A lock
  request sets its range to the kind it asks for, whatever the process held there before;
  an unlock request clears its range.
\<close>

type_synonym locks = "u64 \<Rightarrow> nat"

definition range_of :: "u64 \<Rightarrow> u64 \<Rightarrow> u64 set" where
  "range_of off len = {b. off \<le> b \<and> b < off + len}"

definition lock_kind :: "u32 \<Rightarrow> nat" where
  "lock_kind ty = (if ty = READ_LT then 1 else 2)"

fun after_call :: "call \<Rightarrow> locks \<Rightarrow> locks" where
  "after_call (Lock_range ty off len) m b = (if b \<in> range_of off len then lock_kind ty else m b)"
| "after_call (Unlock_range ty off len) m b = (if b \<in> range_of off len then 0 else m b)"

fun wf_call :: "call \<Rightarrow> bool" where
  "wf_call (Lock_range ty off len) \<longleftrightarrow> ty = READ_LT \<or> ty = WRITE_LT"
| "wf_call (Unlock_range ty off len) \<longleftrightarrow> True"

section \<open>Processes\<close>

text \<open>
  Several processes have the database open. Each is between two operations (\<open>Between\<close>), inside
  \<^verbatim>\<open>nfs4Lock\<close> or inside \<^verbatim>\<open>nfs4Unlock\<close>, with what is left of its script; \<open>Unlocking True\<close> says that a
  call of this \<^verbatim>\<open>nfs4Unlock\<close> has succeeded already. Beside it stands its
  \<^verbatim>\<open>eFileLock\<close>. \<open>call p\<close> is how the process \<open>p\<close> makes a call, on the state of the whole system.
\<close>

datatype phase =
    Between
  | Locking script
  | Unlocking bool script

type_synonym 'p procs = "'p \<Rightarrow> int \<times> phase"

text \<open>
  One step of one process: an operation starts, makes a call that succeeds or fails, or ends.
  The calls of different processes interleave in every order. Every call can fail, with one
  exception: only for the processes in \<open>F\<close> can an \<^verbatim>\<open>nfs4Unlock\<close> fail when one of its calls has
  already succeeded. The levels asked for are those of SQLite, none is negative.
\<close>

inductive lock_step ::
    "('p \<Rightarrow> call \<Rightarrow> ('g, unit) prog) \<Rightarrow> 'p set \<Rightarrow> 'g \<times> 'p procs \<Rightarrow> 'g \<times> 'p procs \<Rightarrow> bool"
  for call F where
  start_lock: "P p = (l, Between) \<Longrightarrow>
     lock_step call F (g, P) (g, P(p := (l, Locking (nfs4Lock_script l want))))"
| start_unlock: "P p = (l, Between) \<Longrightarrow> NO_LOCK \<le> want \<Longrightarrow>
     lock_step call F (g, P) (g, P(p := (l, Unlocking False (nfs4Unlock_script junk l want))))"
| lock_call: "P p = (l, Locking (Try c k)) \<Longrightarrow> call p c g = Some (Ok () g') \<Longrightarrow>
     lock_step call F (g, P) (g', P(p := (l, Locking k)))"
| lock_fails: "P p = (l, Locking (Try c k)) \<Longrightarrow> call p c g = Some (Err e g') \<Longrightarrow>
     lock_step call F (g, P) (g', P(p := (l, Between)))"
| unlock_call: "P p = (l, Unlocking begun (Try c k)) \<Longrightarrow> call p c g = Some (Ok () g') \<Longrightarrow>
     lock_step call F (g, P) (g', P(p := (l, Unlocking True k)))"
| unlock_fails: "P p = (l, Unlocking begun (Try c k)) \<Longrightarrow> call p c g = Some (Err e g') \<Longrightarrow> \<not> begun \<or> p \<in> F \<Longrightarrow>
     lock_step call F (g, P) (g', P(p := (l, Between)))"
| finish_lock: "P p = (l, Locking (Finish l')) \<Longrightarrow> lock_step call F (g, P) (g, P(p := (l', Between)))"
| finish_unlock: "P p = (l, Unlocking begun (Finish l')) \<Longrightarrow> lock_step call F (g, P) (g, P(p := (l', Between)))"
| keep_lock: "P p = (l, Locking Keep) \<Longrightarrow> lock_step call F (g, P) (g, P(p := (l, Between)))"
| keep_unlock: "P p = (l, Unlocking begun Keep) \<Longrightarrow> lock_step call F (g, P) (g, P(p := (l, Between)))"

inductive_cases lock_stepE: "lock_step call F x y"

definition all_free :: "'p procs" where
  "all_free = (\<lambda>_. (NO_LOCK, Between))"

text \<open>A process that is not in the middle of an \<^verbatim>\<open>nfs4Unlock\<close>, with some of its calls made and some not.\<close>

fun settled :: "phase \<Rightarrow> bool" where
  "settled (Unlocking True k) \<longleftrightarrow> False"
| "settled ph \<longleftrightarrow> True"

text \<open>
  An operation that runs undisturbed is a sequence of such steps, with the result of \<open>run_script\<close>;
  an \<^verbatim>\<open>nfs4Unlock\<close> may have failed halfway only if its process is in \<open>F\<close>.
\<close>

lemma step_at:
  shows step_call: "call p c g = Some (Ok () g') \<Longrightarrow>
      lock_step call F (g, P(p := (l, Locking (Try c k)))) (g', P(p := (l, Locking k))) \<and>
      lock_step call F (g, P(p := (l, Unlocking begun (Try c k)))) (g', P(p := (l, Unlocking True k)))"
    and step_lock_fails: "call p c g = Some (Err e g') \<Longrightarrow>
      lock_step call F (g, P(p := (l, Locking (Try c k)))) (g', P(p := (l, Between)))"
    and step_unlock_fails: "call p c g = Some (Err e g') \<Longrightarrow> p \<in> F \<Longrightarrow>
      lock_step call F (g, P(p := (l, Unlocking begun (Try c k)))) (g', P(p := (l, Between)))"
    and step_end: "lock_step call F (g, P(p := (l, Locking (Finish l')))) (g, P(p := (l', Between)))"
      "lock_step call F (g, P(p := (l, Unlocking begun (Finish l')))) (g, P(p := (l', Between)))"
      "lock_step call F (g, P(p := (l, Locking Keep))) (g, P(p := (l, Between)))"
      "lock_step call F (g, P(p := (l, Unlocking begun Keep))) (g, P(p := (l, Between)))"
  using lock_call[of "P(p := (l, Locking (Try c k)))" p l c k call g g' F]
    unlock_call[of "P(p := (l, Unlocking begun (Try c k)))" p l begun c k call g g' F]
    lock_fails[of "P(p := (l, Locking (Try c k)))" p l c k call g e g' F]
    unlock_fails[of "P(p := (l, Unlocking begun (Try c k)))" p l begun c k call g e g' F]
    finish_lock[of "P(p := (l, Locking (Finish l')))" p l l' call F g]
    finish_unlock[of "P(p := (l, Unlocking begun (Finish l')))" p l begun l' call F g]
    keep_lock[of "P(p := (l, Locking Keep))" p l call F g]
    keep_unlock[of "P(p := (l, Unlocking begun Keep))" p l begun call F g]
  by (simp_all only: fun_upd_upd fun_upd_same simp_thms)

lemma run_script_steps:
  assumes "run_script (call p) l scr g = Some (Ok (rc, l') g')"
  shows "(lock_step call F)\<^sup>*\<^sup>* (g, P(p := (l, Locking scr))) (g', P(p := (l', Between)))"
    and "rc = SQLITE_OK \<or> p \<in> F \<Longrightarrow>
      (lock_step call F)\<^sup>*\<^sup>* (g, P(p := (l, Unlocking begun scr))) (g', P(p := (l', Between)))"
proof -
  have "(lock_step call F)\<^sup>*\<^sup>* (g, P(p := (l, Locking scr))) (g', P(p := (l', Between))) \<and>
    (rc = SQLITE_OK \<or> p \<in> F \<longrightarrow>
      (lock_step call F)\<^sup>*\<^sup>* (g, P(p := (l, Unlocking begun scr))) (g', P(p := (l', Between))))"
    using assms
  proof (induction scr arbitrary: g begun)
    case Keep
    then have "l' = l" "g' = g" by simp_all
    then show ?case using step_end(3,4)[of call F g P p l] by (metis r_into_rtranclp)
  next
    case (Finish x)
    then have "l' = x" "g' = g" by simp_all
    then show ?case using step_end(1,2)[of call F g P p l] by (metis r_into_rtranclp)
  next
    case Abort
    then show ?case by simp
  next
    case (Try c k)
    show ?case
    proof (cases "call p c g")
      case None
      with Try.prems show ?thesis by (simp add: bnd_None status_of_None)
    next
      case (Some r)
      show ?thesis
      proof (cases r)
        case (Ok u g1)
        with Some have c: "call p c g = Some (Ok () g1)" by simp
        have "run_script (call p) l k g1 = Some (Ok (rc, l') g')"
          using Try.prems by (simp add: bnd_Ok[where m = "status_of (call p c)", OF status_of_Ok[where m = "call p c", OF c]])
        note rest = Try.IH[OF this, of True, THEN conjunct1] Try.IH[OF this, of True, THEN conjunct2, THEN mp]
        note first = step_call[where call = call and F = F and P = P and l = l and k = k and begun = begun, OF c]
        show ?thesis
          by (intro conjI impI converse_rtranclp_into_rtranclp[OF first[THEN conjunct1] rest(1)]
            converse_rtranclp_into_rtranclp[OF first[THEN conjunct2] rest(2)])
      next
        case (Err e g1)
        with Some have c: "call p c g = Some (Err e g1)" by simp
        have "l' = l" "g' = g1" "rc = SQLITE_ERROR"
          using Try.prems by (simp_all add: bnd_Ok[where m = "status_of (call p c)", OF status_of_Err[where m = "call p c", OF c]])
        then show ?thesis
          using step_lock_fails[where call = call and F = F and P = P and l = l and k = k, OF c]
            step_unlock_fails[where call = call and F = F and P = P and l = l and k = k and begun = begun, OF c]
          by (metis r_into_rtranclp sqlite_rc.distinct(1))
      next
        case (Crash f)
        with Some Try.prems show ?thesis by (simp add: bnd_def status_of_def)
      qed
    qed
  qed
  then show "(lock_step call F)\<^sup>*\<^sup>* (g, P(p := (l, Locking scr))) (g', P(p := (l', Between)))"
    and "rc = SQLITE_OK \<or> p \<in> F \<Longrightarrow>
      (lock_step call F)\<^sup>*\<^sup>* (g, P(p := (l, Unlocking begun scr))) (g', P(p := (l', Between)))" by blast+
qed

section \<open>What a level is worth\<close>

definition reads_shared :: "locks \<Rightarrow> bool" where
  "reads_shared m \<longleftrightarrow> (\<forall>b \<in> range_of SHARED_FIRST SHARED_SIZE. 1 \<le> m b)"

definition writes_shared :: "locks \<Rightarrow> bool" where
  "writes_shared m \<longleftrightarrow> (\<forall>b \<in> range_of SHARED_FIRST SHARED_SIZE. m b = 2)"

text \<open>\<open>worth l m\<close>: a process that holds \<open>m\<close> may believe to be at level \<open>l\<close>.\<close>

definition worth :: "int \<Rightarrow> locks \<Rightarrow> bool" where
  "worth l m \<longleftrightarrow> l \<in> {NO_LOCK, SHARED_LOCK, RESERVED_LOCK, EXCLUSIVE_LOCK} \<and>
     (SHARED_LOCK \<le> l \<longrightarrow> reads_shared m) \<and>
     (l = RESERVED_LOCK \<longrightarrow> m RESERVED_BYTE = 2) \<and>
     (l = EXCLUSIVE_LOCK \<longrightarrow> writes_shared m)"

text \<open>
  The rest of an \<^verbatim>\<open>nfs4Lock\<close> is safe if the old level is worth what is held all along, since a
  failing call falls back to it, and the new level at the end. The rest of an
  \<^verbatim>\<open>nfs4Unlock\<close> is safe if the new level is worth what is held at the end.
\<close>

fun safe_lock :: "int \<Rightarrow> script \<Rightarrow> locks \<Rightarrow> bool" where
  "safe_lock l Keep m \<longleftrightarrow> worth l m"
| "safe_lock l (Finish l') m \<longleftrightarrow> worth l m \<and> worth l' m"
| "safe_lock l Abort m \<longleftrightarrow> worth l m"
| "safe_lock l (Try c k) m \<longleftrightarrow> worth l m \<and> safe_lock l k (after_call c m)"

fun safe_unlock :: "int \<Rightarrow> script \<Rightarrow> locks \<Rightarrow> bool" where
  "safe_unlock l Keep m \<longleftrightarrow> worth l m"
| "safe_unlock l (Finish l') m \<longleftrightarrow> worth l' m"
| "safe_unlock l Abort m \<longleftrightarrow> True"
| "safe_unlock l (Try c k) m \<longleftrightarrow> safe_unlock l k (after_call c m)"

fun wf_script :: "script \<Rightarrow> bool" where
  "wf_script (Try c k) \<longleftrightarrow> wf_call c \<and> wf_script k"
| "wf_script _ \<longleftrightarrow> True"

fun wf_phase :: "phase \<Rightarrow> bool" where
  "wf_phase Between \<longleftrightarrow> True"
| "wf_phase (Locking k) \<longleftrightarrow> wf_script k"
| "wf_phase (Unlocking begun k) \<longleftrightarrow> wf_script k"

lemma safe_lock_worth: "safe_lock l k m \<Longrightarrow> worth l m"
  by (cases k) simp_all

lemma wf_scripts [simp]: "wf_script (nfs4Lock_script l want)" "wf_script (nfs4Unlock_script junk l want)"
  by (simp_all add: nfs4Lock_script_def nfs4Unlock_script_def assert_that_def Let_def)

lemma ranges:
  "b \<in> range_of SHARED_FIRST SHARED_SIZE \<Longrightarrow> b \<notin> range_of PENDING_BYTE 1"
  "b \<in> range_of SHARED_FIRST SHARED_SIZE \<Longrightarrow> b \<notin> range_of PENDING_BYTE 2"
  "b \<in> range_of SHARED_FIRST SHARED_SIZE \<Longrightarrow> b \<notin> range_of RESERVED_BYTE 1"
  "RESERVED_BYTE \<in> range_of RESERVED_BYTE 1" "RESERVED_BYTE \<notin> range_of PENDING_BYTE 1"
  "RESERVED_BYTE \<notin> range_of SHARED_FIRST SHARED_SIZE" "PENDING_BYTE \<in> range_of PENDING_BYTE 1"
  "PENDING_BYTE \<notin> range_of SHARED_FIRST SHARED_SIZE" "SHARED_FIRST \<in> range_of SHARED_FIRST SHARED_SIZE"
  by (auto simp: range_of_def byte_defs word_le_nat_alt word_less_nat_alt)

lemma kinds [simp]: "lock_kind READ_LT = 1" "lock_kind WRITE_LT = 2"
  by (simp_all add: lock_kind_def READ_LT_def WRITE_LT_def)

lemma worth_cases:
  assumes "worth l m"
  obtains "l = NO_LOCK" | "l = SHARED_LOCK" | "l = RESERVED_LOCK" | "l = EXCLUSIVE_LOCK"
  using assms by (auto simp: worth_def)

lemma lock_script_safe:
  assumes "worth l m"
  shows "safe_lock l (nfs4Lock_script l want) m"
proof (cases "l \<ge> want")
  case True
  with assms show ?thesis by (simp add: nfs4Lock_script_def)
next
  case False
  from assms show ?thesis
    by (rule worth_cases, use assms False in -)
      (auto simp: nfs4Lock_script_def assert_that_def Let_def level_defs worth_def reads_shared_def
        writes_shared_def ranges)
qed

lemma unlock_script_safe:
  assumes "worth l m" and "NO_LOCK \<le> want"
  shows "safe_unlock l (nfs4Unlock_script junk l want) m"
  using assms(1)
  by (rule worth_cases, use assms in -)
    (auto simp: nfs4Unlock_script_def assert_that_def Let_def level_defs worth_def reads_shared_def
        writes_shared_def ranges)


section \<open>Mutual exclusion\<close>

text \<open>
  What the locking protocol needs of the calls: in the states \<open>good\<close>, a call that succeeds
  changes what its process holds and nothing else, one that fails changes nothing, and a
  write lock excludes every lock of another process on the same byte.
\<close>

locale lock_calls =
  fixes call :: "'p \<Rightarrow> call \<Rightarrow> ('g, unit) prog"
    and good :: "'g \<Rightarrow> bool"
    and holds :: "'g \<Rightarrow> 'p \<Rightarrow> locks"
  assumes call_Ok: "good g \<Longrightarrow> wf_call c \<Longrightarrow> call p c g = Some (Ok () g') \<Longrightarrow>
      good g' \<and> holds g' = (holds g)(p := after_call c (holds g p))"
    and call_Err: "good g \<Longrightarrow> wf_call c \<Longrightarrow> call p c g = Some (Err e g') \<Longrightarrow> good g' \<and> holds g' = holds g"
    and exclusive: "good g \<Longrightarrow> p \<noteq> q \<Longrightarrow> holds g p b = 2 \<Longrightarrow> holds g q b = 0"
begin

definition safe_proc :: "int \<times> phase \<Rightarrow> locks \<Rightarrow> bool" where
  "safe_proc lp m \<longleftrightarrow> (case snd lp of Between \<Rightarrow> worth (fst lp) m
     | Locking k \<Rightarrow> safe_lock (fst lp) k m
     | Unlocking begun k \<Rightarrow> (begun \<or> worth (fst lp) m) \<and> safe_unlock (fst lp) k m)"

definition safe :: "'p set \<Rightarrow> 'g \<times> 'p procs \<Rightarrow> bool" where
  "safe F gP \<longleftrightarrow> good (fst gP) \<and> (\<forall>p. wf_phase (snd (snd gP p)) \<and> (p \<notin> F \<longrightarrow> safe_proc (snd gP p) (holds (fst gP) p)))"

lemma safe_proc_simps [simp]:
  "safe_proc (l, Between) m = worth l m"
  "safe_proc (l, Locking k) m = safe_lock l k m"
  "safe_proc (l, Unlocking begun k) m = ((begun \<or> worth l m) \<and> safe_unlock l k m)"
  by (simp_all add: safe_proc_def)

lemma safe_proc_settled: "safe_proc (l, ph) m \<Longrightarrow> settled ph \<Longrightarrow> worth l m"
  by (cases ph rule: settled.cases) (auto simp: safe_lock_worth)

lemma safeD: "safe F (g, P) \<Longrightarrow> P p = lp \<Longrightarrow> p \<notin> F \<Longrightarrow> safe_proc lp (holds g p)"
  by (auto simp: safe_def)

lemma safe_good: "safe F (g, P) \<Longrightarrow> good g"
  by (simp add: safe_def)

lemma safe_wf: "safe F (g, P) \<Longrightarrow> P p = (l, ph) \<Longrightarrow> wf_phase ph"
  by (metis safe_def snd_conv)

lemma safe_update:
  assumes "safe F (g, P)" and "good g'" and "holds g' = (holds g)(p := m)" and "wf_phase (snd lp)"
    and "p \<notin> F \<Longrightarrow> safe_proc lp m"
  shows "safe F (g', P(p := lp))"
  using assms by (auto simp: safe_def)

lemma safe_same:
  assumes "safe F (g, P)" and "wf_phase (snd lp)" and "p \<notin> F \<Longrightarrow> safe_proc lp (holds g p)"
  shows "safe F (g, P(p := lp))"
  using assms by (auto simp: safe_def)

lemma safe_Ok:
  assumes "safe F (g, P)" and "call p c g = Some (Ok () g')" and "wf_call c" and "wf_phase (snd lp)"
    and "p \<notin> F \<Longrightarrow> safe_proc lp (after_call c (holds g p))"
  shows "safe F (g', P(p := lp))"
  using call_Ok[OF safe_good[OF assms(1)] assms(3,2)] assms by (blast intro: safe_update)

lemma safe_Err:
  assumes "safe F (g, P)" and "call p c g = Some (Err e g')" and "wf_call c"
    and "p \<notin> F \<Longrightarrow> worth l (holds g p)"
  shows "safe F (g', P(p := (l, Between)))"
proof (rule safe_update[OF assms(1)])
  show "good g'" "holds g' = (holds g)(p := holds g p)"
    using call_Err[OF safe_good[OF assms(1)] assms(3,2)] by simp_all
qed (use assms(4) in simp_all)

lemma safe_step:
  assumes "lock_step call F x y" and "safe F x"
  shows "safe F y"
  using assms
proof cases
  case (start_lock P p l g want)
  then show ?thesis
    using safeD[of F g P p] assms(2) by (auto intro!: safe_same simp: lock_script_safe)
next
  case (start_unlock P p l want g junk)
  then show ?thesis
    using safeD[of F g P p] assms(2) by (auto intro!: safe_same simp: unlock_script_safe)
next
  case (lock_call P p l c k g g')
  then show ?thesis
    using safeD[of F g P p] safe_wf[of F g P p] assms(2) by (auto intro!: safe_Ok[of F g P p c g'])
next
  case (lock_fails P p l c k g e g')
  then show ?thesis
    using safeD[of F g P p] safe_wf[of F g P p] assms(2) by (auto intro!: safe_Err[of F g P p c e g'])
next
  case (unlock_call P p l begun c k g g')
  then show ?thesis
    using safeD[of F g P p] safe_wf[of F g P p] assms(2) by (auto intro!: safe_Ok[of F g P p c g'])
next
  case (unlock_fails P p l begun c k g e g')
  then show ?thesis
    using safeD[of F g P p] safe_wf[of F g P p] assms(2) by (auto intro!: safe_Err[of F g P p c e g'])
next
  case (finish_lock P p l l' g)
  then show ?thesis using safeD[of F g P p] assms(2) by (auto intro!: safe_same)
next
  case (finish_unlock P p l begun l' g)
  then show ?thesis using safeD[of F g P p] assms(2) by (auto intro!: safe_same)
next
  case (keep_lock P p l g)
  then show ?thesis using safeD[of F g P p] assms(2) by (auto intro!: safe_same)
next
  case (keep_unlock P p l begun g)
  then show ?thesis using safeD[of F g P p] assms(2) by (auto intro!: safe_same)
qed

lemma safe_start: "good g \<Longrightarrow> safe F (g, all_free)"
  by (simp add: safe_def safe_proc_def all_free_def worth_def level_defs)

lemma safe_reachable:
  assumes "(lock_step call F)\<^sup>*\<^sup>* (g, all_free) (g', P)" and "good g"
  shows "safe F (g', P)"
  using assms(1)
proof (induction "(g', P)" arbitrary: g' P rule: rtranclp_induct)
  case base
  then show ?case using safe_start[OF assms(2)] by simp
next
  case (step y)
  then show ?case using safe_step by (cases y) blast
qed

lemma level_worth:
  assumes "safe F (g, P)" and "P p = (l, ph)" and "settled ph" and "p \<notin> F"
  shows "worth l (holds g p)"
  using safe_proc_settled[OF safeD[OF assms(1,2,4)] assms(3)] .

theorem writer_excludes:
  assumes "safe F (g, P)" and "P p = (EXCLUSIVE_LOCK, ph)" and "settled ph" and "p \<notin> F"
    and "P q = (l, ph')" and "settled ph'" and "q \<notin> F" and "p \<noteq> q"
  shows "l = NO_LOCK"
proof -
  note p = level_worth[OF assms(1-4)] and q = level_worth[OF assms(1,5-7)] and g = safe_good[OF assms(1)]
  have "holds g p SHARED_FIRST = 2" using p ranges(9) by (simp add: worth_def writes_shared_def)
  from exclusive[OF g assms(8) this] have "\<not> reads_shared (holds g q)"
    using ranges(9) by (force simp: reads_shared_def)
  with q show ?thesis by (auto simp: worth_def level_defs)
qed

theorem one_reserved:
  assumes "safe F (g, P)" and "P p = (RESERVED_LOCK, ph)" and "settled ph" and "p \<notin> F"
    and "P q = (RESERVED_LOCK, ph')" and "settled ph'" and "q \<notin> F"
  shows "p = q"
proof (rule ccontr)
  assume ne: "p \<noteq> q"
  have "holds g p RESERVED_BYTE = 2" "holds g q RESERVED_BYTE = 2"
    using level_worth[OF assms(1-4)] level_worth[OF assms(1,5-7)] by (simp_all add: worth_def)
  with exclusive[OF safe_good[OF assms(1)] ne] show False by simp
qed

text \<open>
  What an operation that fails halfway leaves behind. A failed \<^verbatim>\<open>SHARED\<close> request keeps its lock
  on the pending byte, the following unlock does not drop it, and no other process can get
  its own write lock there. A failed downgrade leaves \<^verbatim>\<open>eFileLock\<close> at its old level.
\<close>

lemma read_lock_blocks:
  assumes "good g" and "holds g p b = 1" and "b \<in> range_of off len" and "p \<noteq> q"
  shows "call q (Lock_range WRITE_LT off len) g \<noteq> Some (Ok () g')"
proof
  assume c: "call q (Lock_range WRITE_LT off len) g = Some (Ok () g')"
  have "good g'" and h: "holds g' = (holds g)(q := after_call (Lock_range WRITE_LT off len) (holds g q))"
    using call_Ok[OF assms(1) _ c] by simp_all
  have "holds g' q b = 2" "holds g' p b = 1" using h assms by simp_all
  with exclusive[OF \<open>good g'\<close>, of q p b] assms(4) show False by simp
qed

lemma shared_request_leaks:
  assumes g: "good g" and 1: "call p (Lock_range READ_LT PENDING_BYTE 1) g = Some (Ok () g1)"
    and 2: "call p (Lock_range READ_LT SHARED_FIRST SHARED_SIZE) g1 = Some (Err e g2)" and pq: "p \<noteq> q"
  shows "run_script (call p) NO_LOCK (nfs4Lock_script NO_LOCK SHARED_LOCK) g = Some (Ok (SQLITE_ERROR, NO_LOCK) g2)"
    and "run_script (call p) NO_LOCK (nfs4Unlock_script junk NO_LOCK NO_LOCK) g2 = Some (Ok (SQLITE_OK, NO_LOCK) g2)"
    and "holds g2 p PENDING_BYTE = 1"
    and "call q (Lock_range WRITE_LT PENDING_BYTE 1) g2 \<noteq> Some (Ok () g3)"
proof -
  have s1: "status_of (call p (Lock_range READ_LT PENDING_BYTE 1)) g = Some (Ok None g1)"
    and s2: "status_of (call p (Lock_range READ_LT SHARED_FIRST SHARED_SIZE)) g1 = Some (Ok (Some e) g2)"
    using 1 2 by (simp_all add: status_of_def)
  show "run_script (call p) NO_LOCK (nfs4Lock_script NO_LOCK SHARED_LOCK) g = Some (Ok (SQLITE_ERROR, NO_LOCK) g2)"
    using s1 s2 by (simp add: nfs4Lock_script_def assert_that_def level_defs bnd_def)
  show "run_script (call p) NO_LOCK (nfs4Unlock_script junk NO_LOCK NO_LOCK) g2 = Some (Ok (SQLITE_OK, NO_LOCK) g2)"
    by (simp add: nfs4Unlock_script_def assert_that_def level_defs)
  have g1: "good g1" "holds g1 p PENDING_BYTE = 1"
    using call_Ok[OF g _ 1] ranges(7) by simp_all
  have g2: "good g2" "holds g2 p PENDING_BYTE = 1"
    using call_Err[OF g1(1) _ 2] g1(2) by simp_all
  show "holds g2 p PENDING_BYTE = 1" by (rule g2(2))
  show "call q (Lock_range WRITE_LT PENDING_BYTE 1) g2 \<noteq> Some (Ok () g3)"
    by (rule read_lock_blocks[OF g2 ranges(7) pq])
qed

lemma downgrade_keeps_level:
  assumes g: "good g" and 1: "call p (Lock_range READ_LT SHARED_FIRST SHARED_SIZE) g = Some (Ok () g1)"
    and 2: "call p (Unlock_range READ_LT PENDING_BYTE 2) g1 = Some (Err e g2)"
  shows "run_script (call p) EXCLUSIVE_LOCK (nfs4Unlock_script junk EXCLUSIVE_LOCK SHARED_LOCK) g =
      Some (Ok (SQLITE_ERROR, EXCLUSIVE_LOCK) g2)"
    and "\<not> worth EXCLUSIVE_LOCK (holds g2 p)"
proof -
  have s1: "status_of (call p (Lock_range READ_LT SHARED_FIRST SHARED_SIZE)) g = Some (Ok None g1)"
    and s2: "status_of (call p (Unlock_range READ_LT PENDING_BYTE 2)) g1 = Some (Ok (Some e) g2)"
    using 1 2 by (simp_all add: status_of_def)
  show "run_script (call p) EXCLUSIVE_LOCK (nfs4Unlock_script junk EXCLUSIVE_LOCK SHARED_LOCK) g =
      Some (Ok (SQLITE_ERROR, EXCLUSIVE_LOCK) g2)"
    using s1 s2 by (simp add: nfs4Unlock_script_def assert_that_def level_defs bnd_def)
  have g1: "good g1" "holds g1 p SHARED_FIRST = 1"
    using call_Ok[OF g _ 1] ranges(9) by simp_all
  have "holds g2 p SHARED_FIRST = 1" using call_Err[OF g1(1) _ 2] g1(2) by simp
  then show "\<not> worth EXCLUSIVE_LOCK (holds g2 p)"
    using ranges(9) by (force simp: worth_def writes_shared_def level_defs)
qed

end

end
