(* ===== verification/Requests.thy ===== *)
theory Requests
  imports Client
begin

text \<open>
  The sending half of every call: a request is built in a buffer of the client, framed, and
  handed to the socket in one \<^verbatim>\<open>write\<close>. \<open>sends os w m s msg c'\<close> says which bytes \<open>m\<close> puts on
  the wire and which client it leaves; the lemmas \<open>..._request_sends\<close> give them for each
  request of \<^verbatim>\<open>rpc.c\<close> and \<^verbatim>\<open>client.c\<close>, as the encoding \<open>x_call\<close> of the operations of the
  protocol.
\<close>

section \<open>A request from allocation to the socket\<close>

text \<open>
  A call as it is built: record mark, header, number of operations, operations. \<open>x_call\<close> of
  \<open>Wire\<close> is the same with the operations encoded.
\<close>

definition x_msg :: "u32 \<Rightarrow> u32 \<Rightarrow> cells \<Rightarrow> cells" where
  "x_msg x k body =
     x32 (0x80000000 + word_of_nat (88 + length body)) @ call_header x @ x32 k @ body"

lemma x_call_msg: "x_call x ops = x_msg x (word_of_nat (length ops)) (concat (map x_op ops))"
  by (simp add: x_call_def x_msg_def Let_def)

lemma length_x_msg [simp]: "length (x_msg x k body) = 92 + length body"
  by (simp add: x_msg_def)

text \<open>A client that can build a request in \<open>w\<close>.\<close>

definition ready :: "bufref \<Rightarrow> client \<Rightarrow> bool" where
  "ready w c \<longleftrightarrow> wf_client c \<and> wf_buf (get_buf w c) \<and> 92 \<le> unat (b_capacity (get_buf w c))"

lemma wf_reset: "wf_buf b \<Longrightarrow> rep (b\<lparr>b_start := 0, b_end := 0\<rparr>) []"
  by (simp add: rep_def wf_buf_def data_def)

lemma writes_header: "writes (push_header x) (call_header x)"
proof -
  have s: "writes (push_string (cells_of (ascii ''ip-192-168-1-40'' @ [0])) 15)
      (xopaque (cells_of (ascii ''ip-192-168-1-40'')))"
    using writes_literal[of "ascii ''ip-192-168-1-40''"] by simp
  show ?thesis
    unfolding call_header_def push_header_def
    by (rule writes_cong, (rule writes_seqs_Cons writes_seqs_Nil writes_x32 s)+) simp
qed

lemma bump_stale:
  assumes "rep b xs" and "length xs + 4 \<le> unat (b_capacity b)"
  shows "\<exists>b' stale. bump 4 b = Some (Ok () b') \<and> rep b' (xs @ stale) \<and> length stale = 4 \<and>
    b_capacity b' = b_capacity b"
proof -
  note r = repD[OF assms(1)] and w = wf_bufD[OF repD(1)[OF assms(1)]]
  let ?b = "b\<lparr>b_end := b_end b + 4\<rparr>"
  let ?stale = "take 4 (drop (length xs) (b_contents b))"
  have e: "unat (b_end b + 4) = length xs + 4"
    using assms(2) w r(4) by (subst unat_add_small) simp_all
  have "take (length xs) (b_contents b) = xs" using r by (simp add: data_def)
  moreover have "take (length xs + 4) (b_contents b) = take (length xs) (b_contents b) @ ?stale"
    by (simp add: take_add)
  ultimately have "data ?b = xs @ ?stale" using e r(2) by (simp add: data_def)
  then have "rep ?b (xs @ ?stale)"
    using e assms(2) r by (auto simp: rep_def wf_buf_def word_le_nat_alt)
  moreover have "length ?stale = 4" using assms(2) w by simp
  ultimately show ?thesis by (auto simp: bump_def)
qed

lemma get_buf_xid [simp]: "get_buf w (c\<lparr>c_xid := x\<rparr>) = get_buf w c"
  by (cases w) simp_all

lemma set_buf_xid [simp]: "(set_buf w b c)\<lparr>c_xid := x\<rparr> = set_buf w b (c\<lparr>c_xid := x\<rparr>)"
  by (cases w) simp_all

lemma bufless_xid: "bufless (\<lambda>c. c\<lparr>c_xid := c_xid c + 1\<rparr>)"
  unfolding bufless_def wf_client_def by (intro conjI allI; case_tac w; simp)+

lemma unat_88: "unat (88 :: u32) = 88"
  by simp

lemma allocate_rpc_ok:
  assumes "ready w (s_client s)"
  obtains b stale where "allocate_rpc w s = Some (Ok \<lparr>r_opcountloc = 88, r_opcount = 0, r_b = w\<rparr>
      (s\<lparr>s_client := set_buf w b ((s_client s)\<lparr>c_xid := c_xid (s_client s) + 1\<rparr>)\<rparr>))"
    and "rep b (x32 0 @ call_header (c_xid (s_client s) + 1) @ stale)" and "length stale = 4"
proof -
  let ?c = "s_client s" and ?x = "c_xid (s_client s) + 1"
  let ?c' = "?c\<lparr>c_xid := ?x\<rparr>"
  have wf: "wf_buf (get_buf w ?c)" and cap: "92 \<le> unat (b_capacity (get_buf w ?c))"
    using assms by (simp_all add: ready_def)
  let ?b0 = "(get_buf w ?c)\<lparr>b_start := 0, b_end := 0\<rparr>"
  have b0: "rep ?b0 []" using wf by (rule wf_reset)
  obtain b1 where b1: "push_be32 0 ?b0 = Some (Ok () b1)" "rep b1 ([] @ x32 0)" "b_capacity ?b0 \<le> b_capacity b1"
    by (rule writesD[OF writes_x32[of 0] b0]) (simp add: limit_def)
  obtain b2 where b2: "push_header ?x b1 = Some (Ok () b2)"
      "rep b2 (([] @ x32 0) @ call_header ?x)" "b_capacity b1 \<le> b_capacity b2"
    by (rule writesD[OF writes_header[of ?x] b1(2)]) (simp add: limit_def)
  have "92 \<le> unat (b_capacity b2)"
    using cap b1(3) b2(3) by (simp add: word_le_nat_alt)
  then obtain b3 stale where b3: "bump 4 b2 = Some (Ok () b3)"
      "rep b3 ((([] @ x32 0) @ call_header ?x) @ stale)" "length stale = 4"
    using bump_stale[OF b2(2)] by auto
  have "unat (b_end b2) = unat (88 :: u32)" using repD(4)[OF b2(2)] by simp
  then have loc: "b_end b2 = 88" by (rule word_unat_eq_iff[THEN iffD2])
  have "allocate_rpc w s = Some (Ok \<lparr>r_opcountloc = 88, r_opcount = 0, r_b = w\<rparr> (s\<lparr>s_client := set_buf w b3 ?c'\<rparr>))"
    using b1(1) b2(1) b3(1) loc
    by (simp add: allocate_rpc_def set_client_def bnd_Ok on_buf_Ok)
  with b3(2,3) that show thesis by simp
qed


lemma store_inside:
  assumes "rep b (xs @ ys @ zs)" and "length ys' = length ys"
  shows "\<exists>b'. buf_store (length xs) ys' b = Some (Ok () b') \<and> rep b' (xs @ ys' @ zs)"
proof -
  note r = repD[OF assms(1)] and w = wf_bufD[OF repD(1)[OF assms(1)]]
  have fits: "length xs + length ys \<le> length (b_contents b)" using r(4) w by simp
  let ?m = "take (length xs) (b_contents b) @ ys' @ drop (length xs + length ys') (b_contents b)"
  have d: "take (length xs + (length ys + length zs)) (b_contents b) = xs @ ys @ zs"
    using r by (simp add: data_def)
  then have 1: "take (length xs) (b_contents b) = xs"
    by (metis append_eq_conv_conj take_take min.absorb1 le_add1)
  have "drop (length xs + length ys) (take (length xs + (length ys + length zs)) (b_contents b)) = zs"
    unfolding d by simp
  then have 2: "take (length zs) (drop (length xs + length ys) (b_contents b)) = zs"
    by (simp add: drop_take)
  have len: "length ?m = length (b_contents b)" using fits assms(2) by simp
  have "take (length xs + (length ys' + length zs)) ?m = xs @ ys' @ zs"
    using 2 assms(2) fits by (simp add: 1 min_def)
  then have "data (b\<lparr>b_contents := ?m\<rparr>) = xs @ ys' @ zs"
    using r(2,4) assms(2) by (simp add: data_def)
  moreover have "wf_buf (b\<lparr>b_contents := ?m\<rparr>)" using r(1) len by (simp add: wf_buf_def)
  ultimately have "rep (b\<lparr>b_contents := ?m\<rparr>) (xs @ ys' @ zs)" using r(2) by (simp add: rep_def)
  moreover have "buf_store (length xs) ys' b = Some (Ok () (b\<lparr>b_contents := ?m\<rparr>))"
    using fits assms(2) by (simp add: buf_store_def mem_store_def)
  ultimately show ?thesis by blast
qed

text \<open>
  \<open>sends os w m s msg c'\<close>: run in \<open>s\<close>, \<open>m\<close> hands exactly the bytes \<open>msg\<close> to the socket of
  the client, in one \<^verbatim>\<open>write\<close>, and returns normally just when all of them were taken; the
  client is \<open>c'\<close> then, but for the buffer \<open>w\<close>, which holds the message.
\<close>

definition sends :: "'w os \<Rightarrow> bufref \<Rightarrow> ('w st, unit) prog \<Rightarrow> 'w st \<Rightarrow> cells \<Rightarrow> client \<Rightarrow> bool" where
  "sends os w m s msg c' \<longleftrightarrow> (\<exists>b. rep b msg \<and>
     (case os_write os (c_fd (s_client s)) msg (s_world s) of (res, world) \<Rightarrow>
        let s' = s\<lparr>s_client := set_buf w b c', s_world := world\<rparr> in
        m s = (if word_of_int res = (word_of_nat (length msg) :: u32) then Some (Ok () s')
               else Some (Err ''failed rpc write'' s'))))"

lemma length_word: "rep b xs \<Longrightarrow> buffer_length b = word_of_nat (length xs)"
  using repD(2,4)[of b xs] by (metis buffer_length_def diff_zero word_unat_inverse)

text \<open>Whatever the header \<open>hdr\<close> is, of which only the length matters.\<close>

lemma rpc_send_any:
  assumes r: "r = \<lparr>r_opcountloc = 88, r_opcount = k, r_b = w\<rparr>"
    and buf: "rep (get_buf w (s_client s)) (mark @ hdr @ stale @ body)"
    and len: "length mark = 4" "length hdr = 84" "length stale = 4"
    and msg: "msg = x32 (0x80000000 + word_of_nat (88 + length body)) @ hdr @ x32 k @ body"
  shows "sends os w (rpc_send os r) s msg (s_client s)"
proof -
  let ?c = "s_client s"
  obtain b1 where b1: "buf_store (length (mark @ hdr)) (x32 k) (get_buf w ?c) = Some (Ok () b1)"
      "rep b1 ((mark @ hdr) @ x32 k @ body)"
    using store_inside[of "get_buf w ?c" "mark @ hdr" stale body "x32 k"] buf len by auto
  have l1: "buffer_length b1 = word_of_nat (92 + length body)"
    using length_word[OF b1(2)] len by simp
  let ?m = "0x80000000 + word_of_nat (88 + length body) :: u32"
  have m: "0x80000000 + buffer_length b1 - 4 = ?m"
    unfolding l1 by simp
  obtain b2 where b2: "buf_store (length ([] :: cells)) (x32 ?m) b1 = Some (Ok () b2)"
      "rep b2 ([] @ x32 ?m @ (hdr @ x32 k @ body))"
    using store_inside[of b1 "[]" mark "hdr @ x32 k @ body" "x32 ?m"] b1(2) len by auto
  have b2m: "rep b2 msg" using b2(2) by (simp add: msg)
  have load: "buf_load (unat (b_start b2)) (unat (buffer_length b2)) b2 = Some (Ok msg b2)"
    using repD[OF b2m] wf_bufD[OF repD(1)[OF b2m]]
    by (simp add: buf_load_def mem_load_def data_def)
  obtain res world where wr: "os_write os (c_fd ?c) msg (s_world s) = (res, world)"
    by fastforce
  have off: "length mark + length hdr = unat (88 :: u32)" using len by simp
  have "rpc_send os r s = (if word_of_int res = (word_of_nat (length msg) :: u32)
      then Some (Ok () (s\<lparr>s_client := set_buf w b2 ?c, s_world := world\<rparr>))
      else Some (Err ''failed rpc write'' (s\<lparr>s_client := set_buf w b2 ?c, s_world := world\<rparr>)))"
    using b1(1) b2(1) m load wr off length_word[OF b2m]
    by (simp add: rpc_send_def r bnd_Ok on_buf_Ok x32_def on_world_def)
  with b2m wr show ?thesis by (auto simp: sends_def Let_def)
qed

lemma rpc_send_ok:
  assumes "r = \<lparr>r_opcountloc = 88, r_opcount = k, r_b = w\<rparr>"
    and "rep (get_buf w (s_client s)) (mark @ call_header x @ stale @ body)"
    and "length mark = 4" and "length stale = 4"
  shows "sends os w (rpc_send os r) s (x_msg x k body) (s_client s)"
  by (rule rpc_send_any[OF assms(1,2,3) _ assms(4)]) (simp_all add: x_msg_def)

lemma sends_bnd:
  assumes "m s = Some (Ok r (s\<lparr>s_client := set_buf w b c'\<rparr>))"
    and "sends os w (rpc_send os r) (s\<lparr>s_client := set_buf w b c'\<rparr>) msg (set_buf w b c')"
    and "c_fd c' = c_fd (s_client s)"
  shows "sends os w (bnd m (rpc_send os)) s msg c'"
  using assms by (auto simp: sends_def bnd_Ok Let_def split: prod.splits)

lemma request_built:
  assumes e: "emits H (chain fs) e k u" and H: "(s_heap s, s_file s) = H"
    and c: "ready w (s_client s)"
    and c1: "c1 = (s_client s)\<lparr>c_xid := c_xid (s_client s) + 1\<rparr>"
    and len: "92 + length (e c1) \<le> limit"
  obtains b stale where "bnd (allocate_rpc w) (chain fs) s =
      Some (Ok \<lparr>r_opcountloc = 88, r_opcount = k, r_b = w\<rparr> (s\<lparr>s_client := set_buf w b (u c1)\<rparr>))"
    and "rep b (x32 0 @ call_header (c_xid c1) @ stale @ e c1)" and "length stale = 4"
proof -
  obtain b stale where b: "allocate_rpc w s = Some (Ok \<lparr>r_opcountloc = 88, r_opcount = 0, r_b = w\<rparr>
      (s\<lparr>s_client := set_buf w b c1\<rparr>))"
    "rep b (x32 0 @ call_header (c_xid c1) @ stale)" "length stale = 4"
    using allocate_rpc_ok[OF c] unfolding c1 by auto
  let ?s = "s\<lparr>s_client := set_buf w b c1\<rparr>" and ?r = "\<lparr>r_opcountloc = 88, r_opcount = 0, r_b = w\<rparr>"
  have u: "bufless u" and eb: "\<And>c w b. e (set_buf w b c) = e c" using e by (auto simp: emits_def)
  obtain b' where b': "chain fs ?r ?s = Some (Ok (?r\<lparr>r_opcount := r_opcount ?r + k\<rparr>)
      (?s\<lparr>s_client := set_buf (r_b ?r) b' (u (s_client ?s))\<rparr>))"
    "rep b' ((x32 0 @ call_header (c_xid c1) @ stale) @ e (s_client ?s))"
    by (rule emitsD[OF e, of ?s ?r "x32 0 @ call_header (c_xid c1) @ stale"])
      (use H b c len in \<open>simp_all add: eb ready_def wf_client_def c1\<close>)
  show thesis
    by (rule that[of b' stale]) (use b b' in \<open>simp_all add: bnd_Ok eb bufless_set[OF u]\<close>)
qed

lemma request_sends:
  assumes e: "emits H (chain fs) e k u" and H: "(s_heap s, s_file s) = H"
    and c: "ready w (s_client s)"
    and c1: "c1 = (s_client s)\<lparr>c_xid := c_xid (s_client s) + 1\<rparr>"
    and len: "92 + length (e c1) \<le> limit"
    and fd: "c_fd (u c1) = c_fd (s_client s)"
  shows "sends os w (bnd (bnd (allocate_rpc w) (chain fs)) (rpc_send os)) s
    (x_msg (c_xid c1) k (e c1)) (u c1)"
proof -
  obtain b stale where b: "bnd (allocate_rpc w) (chain fs) s =
      Some (Ok \<lparr>r_opcountloc = 88, r_opcount = k, r_b = w\<rparr> (s\<lparr>s_client := set_buf w b (u c1)\<rparr>))"
    "rep b (x32 0 @ call_header (c_xid c1) @ stale @ e c1)" "length stale = 4"
    using request_built[OF e H c c1 len] .
  have "sends os w (rpc_send os \<lparr>r_opcountloc = 88, r_opcount = k, r_b = w\<rparr>)
      (s\<lparr>s_client := set_buf w b (u c1)\<rparr>) (x_msg (c_xid c1) k (e c1)) (set_buf w b (u c1))"
    using rpc_send_ok[OF refl, of w "s\<lparr>s_client := set_buf w b (u c1)\<rparr>" "x32 0"] b(2,3) by simp
  with b(1) fd show ?thesis by (intro sends_bnd)
qed


section \<open>The requests\<close>

lemma config_boolean_default_true: "config_boolean getenv name True"
  by (simp add: config_boolean_def split: option.split)

lemma bnd_chain: "bnd (bnd m (chain fs)) (chain gs) = bnd m (chain (fs @ gs))"
  unfolding bnd_assoc by (rule arg_cong[of _ _ "bnd m"], rule ext, rule ext) (simp add: chain_append)

lemma emits_from_file [emit]: "emits (H, f) (k f) e n u \<Longrightarrow> emits (H, f) (from_file k) e n u"
  by (auto simp: emits_def from_file_def)

text \<open>A file that was opened: the sizes of its arrays.\<close>

definition wf_file :: "nfs_file \<Rightarrow> bool" where
  "wf_file f \<longleftrightarrow> length (f_filehandle f) = NFS4_FHSIZE \<and> unat (f_filehandle_len f) \<le> NFS4_FHSIZE \<and>
     length (sid_opaque (f_latest_sid f)) = NFS4_OTHER_SIZE \<and>
     length (sid_opaque (f_open_sid f)) = NFS4_OTHER_SIZE"

definition handle :: "nfs_file \<Rightarrow> cells" where
  "handle f = take (unat (f_filehandle_len f)) (f_filehandle f)"

lemma length_handle: "wf_file f \<Longrightarrow> length (handle f) = unat (f_filehandle_len f)"
  by (simp add: wf_file_def handle_def)

definition op_sequence :: "client \<Rightarrow> nfs_op" where
  "op_sequence c = Sequence (c_session c) (c_sequence c) 0 0 False"

definition next_call :: "client \<Rightarrow> client" where
  "next_call c = c\<lparr>c_xid := c_xid c + 1\<rparr>"

definition used_slot :: "client \<Rightarrow> client" where
  "used_slot c = c\<lparr>c_xid := c_xid c + 1, c_sequence := c_sequence c + 1\<rparr>"

lemma writes_handle:
  assumes "wf_file f"
  shows "writes (push_string (f_filehandle f) (ucast (f_filehandle_len f))) (xopaque (handle f))"
proof -
  have u: "unat (ucast (f_filehandle_len f) :: u32) = unat (f_filehandle_len f)"
    by (simp add: unsigned_ucast_eq take_bit_eq_mod order_less_le_trans[OF unsigned_less])
  have "writes (push_string (f_filehandle f) (ucast (f_filehandle_len f)))
      (xopaque (take (unat (ucast (f_filehandle_len f) :: u32)) (f_filehandle f)))"
    using assms by (intro writes_push_string) (simp add: u wf_file_def)
  then show ?thesis unfolding u handle_def .
qed

lemma length_x_sequence: "wf_client c \<Longrightarrow> length (x_op (op_sequence c)) = 36"
  by (simp add: op_sequence_def xfixed_def wf_client_def size_defs)

lemma length_x_putfh: "wf_file f \<Longrightarrow> length (x_op (Putfh (handle f))) \<le> 139"
  using length_xopaque_bound[of "handle f"] length_handle[of f] by (simp add: wf_file_def size_defs)

lemma length_x_stateid: "length (sid_opaque sid) = NFS4_OTHER_SIZE \<Longrightarrow> length (x_stateid sid) = 16"
  by (simp add: x_stateid_def xfixed_def size_defs)

lemma client_next_call [simp]:
  "c_session (c\<lparr>c_xid := x\<rparr>) = c_session c" "wf_client (c\<lparr>c_xid := x\<rparr>) = wf_client c"
  by (simp_all add: wf_client_def)

text \<open>A request on an open file: the arguments of the operation follow \<^verbatim>\<open>SEQUENCE\<close> and \<^verbatim>\<open>PUTFH\<close>.\<close>

lemma file_request_emits:
  assumes f: "wf_file f" and e: "emits (H, f) (chain gs) (\<lambda>c. x_op (op c)) 1 (\<lambda>c. c)"
  obtains fs where "bnd (file_rpc os) (chain gs) = bnd (allocate_rpc Forward) (chain fs)"
    and "emits (H, f) (chain fs) (\<lambda>c. x_op (op_sequence c) @ x_op (Putfh (handle f)) @
      x_op (op (c\<lparr>c_sequence := c_sequence c + 1\<rparr>))) 3 (\<lambda>c. c\<lparr>c_sequence := c_sequence c + 1\<rparr>)"
proof -
  let ?fs = "[push_sequence, push_op OP_PUTFH,
      if config_boolean (os_getenv os) ''NFS_USE_FILEHANDLE'' True
      then from_file (\<lambda>f. on_b (push_string (f_filehandle f) (ucast (f_filehandle_len f))))
      else from_file (\<lambda>f. push_resolution (f_path f))]"
  have "emits (H, f) (chain ?fs)
      (\<lambda>c. x_op (op_sequence c) @ x_op (Putfh (handle f))) 2 (\<lambda>c. c\<lparr>c_sequence := c_sequence c + 1\<rparr>)"
    unfolding eqTrueI[OF config_boolean_default_true] if_True
    by (rule emits_cong, (rule emit writes_handle f)+) (simp_all add: op_sequence_def)
  then have "emits (H, f) (\<lambda>r. bnd (chain ?fs r) (chain gs)) (\<lambda>c. x_op (op_sequence c) @ x_op (Putfh (handle f)) @
      x_op (op (c\<lparr>c_sequence := c_sequence c + 1\<rparr>))) 3 (\<lambda>c. c\<lparr>c_sequence := c_sequence c + 1\<rparr>)"
    using emits_bnd[OF _ e] by fastforce
  moreover have "(\<lambda>r. bnd (chain ?fs r) (chain gs)) = chain (?fs @ gs)"
    by (intro ext) (simp only: chain_append)
  ultimately show thesis
    by (intro that[of "?fs @ gs"]) (simp_all only: file_rpc_def bnd_chain)
qed

text \<open>What such a request holds, for the client \<open>c\<close> that makes it.\<close>

definition file_ops :: "nfs_file \<Rightarrow> (client \<Rightarrow> nfs_op) \<Rightarrow> client \<Rightarrow> nfs_op list" where
  "file_ops f op c = [op_sequence c, Putfh (handle f), op (used_slot c)]"

lemma file_ops_numbered:
  assumes "c1 = c\<lparr>c_xid := c_xid c + 1\<rparr>"
  shows "c1\<lparr>c_sequence := c_sequence c1 + 1\<rparr> = used_slot c"
    and "x_op (op_sequence c1) @ x_op (Putfh (handle f)) @ x_op (op (used_slot c)) =
      concat (map x_op (file_ops f op c))"
    and "c_xid c1 = c_xid c + 1"
  using assms by (simp_all add: used_slot_def file_ops_def op_sequence_def)

lemma length_file_ops:
  assumes "wf_client c" and "wf_file f" and "300 + length (x_op (op (used_slot c))) \<le> limit"
  shows "92 + length (concat (map x_op (file_ops f op c))) \<le> limit"
  using assms(3) length_x_sequence[OF assms(1)] length_x_putfh[OF assms(2)] by (simp add: file_ops_def del: x_op.simps)

lemma file_request_built:
  assumes c: "ready Forward (s_client s)" and f: "wf_file (s_file s)"
    and e: "emits (s_heap s, s_file s) (chain gs) (\<lambda>c. x_op (op c)) 1 (\<lambda>c. c)"
    and len: "300 + length (x_op (op (used_slot (s_client s)))) \<le> limit"
  obtains b stale where "bnd (file_rpc os) (chain gs) s = Some (Ok \<lparr>r_opcountloc = 88, r_opcount = 3, r_b = Forward\<rparr>
      (s\<lparr>s_client := set_buf Forward b (used_slot (s_client s))\<rparr>))"
    and "rep b (x32 0 @ call_header (c_xid (s_client s) + 1) @ stale @
      concat (map x_op (file_ops (s_file s) op (s_client s))))" and "length stale = 4"
proof -
  let ?c = "s_client s"
  have wf: "wf_client ?c" using c by (simp add: ready_def)
  obtain fs where fs: "bnd (file_rpc os) (chain gs) = bnd (allocate_rpc Forward) (chain fs)"
    "emits (s_heap s, s_file s) (chain fs) (\<lambda>c. x_op (op_sequence c) @ x_op (Putfh (handle (s_file s))) @
      x_op (op (c\<lparr>c_sequence := c_sequence c + 1\<rparr>))) 3 (\<lambda>c. c\<lparr>c_sequence := c_sequence c + 1\<rparr>)"
    using file_request_emits[OF f e] by blast
  note n = file_ops_numbered(1)[OF refl, of ?c] file_ops_numbered(2)[where c = ?c and f = "s_file s" and op = op, OF refl]
    file_ops_numbered(3)[OF refl, of ?c]
  show thesis
    by (rule request_built[OF fs(2) refl c refl, unfolded n(1), unfolded n(2,3)])
      (use length_file_ops[OF wf f, of op, OF len] that[unfolded fs(1)] in blast)+
qed

lemma file_request:
  assumes c: "ready Forward (s_client s)" and f: "wf_file (s_file s)"
    and e: "emits (s_heap s, s_file s) (chain gs) (\<lambda>c. x_op (op c)) 1 (\<lambda>c. c)"
    and len: "300 + length (x_op (op (used_slot (s_client s)))) \<le> limit"
  shows "sends os Forward (bnd (bnd (file_rpc os) (chain gs)) (rpc_send os)) s
    (x_call (c_xid (s_client s) + 1)
       [op_sequence (s_client s), Putfh (handle (s_file s)), op (used_slot (s_client s))])
    (used_slot (s_client s))"
proof -
  let ?c = "s_client s"
  have wf: "wf_client ?c" using c by (simp add: ready_def)
  obtain fs where fs: "bnd (file_rpc os) (chain gs) = bnd (allocate_rpc Forward) (chain fs)"
    "emits (s_heap s, s_file s) (chain fs) (\<lambda>c. x_op (op_sequence c) @ x_op (Putfh (handle (s_file s))) @
      x_op (op (c\<lparr>c_sequence := c_sequence c + 1\<rparr>))) 3 (\<lambda>c. c\<lparr>c_sequence := c_sequence c + 1\<rparr>)"
    using file_request_emits[OF f e] by blast
  note n = file_ops_numbered(1)[OF refl, of ?c] file_ops_numbered(2)[where c = ?c and f = "s_file s" and op = op, OF refl]
    file_ops_numbered(3)[OF refl, of ?c]
  have "x_msg (c_xid ?c + 1) 3 (concat (map x_op (file_ops (s_file s) op ?c))) = x_call (c_xid ?c + 1)
      [op_sequence ?c, Putfh (handle (s_file s)), op (used_slot ?c)]"
    unfolding x_call_msg file_ops_def by simp
  moreover have fd: "c_fd (used_slot ?c) = c_fd ?c" by (simp add: used_slot_def)
  ultimately show ?thesis using request_sends[OF fs(2) refl c refl, of os]
    unfolding n(2) n(1) fs(1) n(3) using length_file_ops[OF wf f, of op, OF len] fd by simp
qed


lemma wf_fileD:
  assumes "wf_file f"
  shows "length (sid_opaque (f_latest_sid f)) = NFS4_OTHER_SIZE"
    and "length (sid_opaque (f_open_sid f)) = NFS4_OTHER_SIZE"
  using assms by (simp_all add: wf_file_def)

lemma read_request_sends:
  assumes "ready Forward (s_client s)" and "wf_file (s_file s)"
  shows "sends os Forward (bnd (read_request os off n) (rpc_send os)) s
    (x_call (c_xid (s_client s) + 1)
       [op_sequence (s_client s), Putfh (handle (s_file s)), Read (f_latest_sid (s_file s)) off n])
    (used_slot (s_client s))"
  unfolding read_request_def
  by (rule file_request[where op = "\<lambda>_. Read (f_latest_sid (s_file s)) off n", OF assms],
      rule emits_cong, (rule emit wf_fileD assms)+)
    (simp_all add: length_x_stateid wf_fileD assms limit_def)

lemma write_request_sends:
  assumes "ready Forward (s_client s)" and "wf_file (s_file s)"
    and "unat n \<le> length mem" and "unat n \<le> 2 ^ 29"
  shows "sends os Forward (bnd (write_request os mem off n) (rpc_send os)) s
    (x_call (c_xid (s_client s) + 1)
       [op_sequence (s_client s), Putfh (handle (s_file s)),
        Write (f_latest_sid (s_file s)) off FILE_SYNC4 (take (unat n) mem)])
    (used_slot (s_client s))"
proof -
  have "length (xopaque (take (unat n) mem)) \<le> 2 ^ 29 + 7"
    using length_xopaque_bound[of "take (unat n) mem"] assms(3,4) by simp
  then have l: "300 + length (x_op (Write (f_latest_sid (s_file s)) off FILE_SYNC4 (take (unat n) mem))) \<le> limit"
    by (simp add: length_x_stateid[OF wf_fileD(1)[OF assms(2)]] limit_def)
  show ?thesis
    unfolding write_request_def
    by (rule file_request[where op = "\<lambda>_. Write (f_latest_sid (s_file s)) off FILE_SYNC4 (take (unat n) mem)",
          OF assms(1,2)], rule emits_cong,
        (rule emit writes_push_string[OF assms(3)] wf_fileD assms)+) (rule l | simp)+
qed

lemma size_request_sends:
  assumes "ready Forward (s_client s)" and "wf_file (s_file s)"
  shows "sends os Forward (bnd (size_request os) (rpc_send os)) s
    (x_call (c_xid (s_client s) + 1)
       [op_sequence (s_client s), Putfh (handle (s_file s)), Getattr [16]])
    (used_slot (s_client s))"
  unfolding size_request_def
  by (rule file_request[where op = "\<lambda>_. Getattr [16]", OF assms], rule emits_cong, (rule emit)+)
    (simp_all add: xbitmap_def limit_def FATTR4_SIZE_def)

lemma length_x_owner: "length (x_owner (client_owner c)) \<le> 40"
proof -
  have "length (xopaque (cells_of (butlast (owner_string v)))) \<le> 23 + 7" for v
    using length_xopaque_bound[of "cells_of (butlast (owner_string v))"] length_owner_string[of v]
    by auto
  from this[of "c_instance_verifier c"] show ?thesis
    by (simp add: client_owner_def xfixed_def)
qed

lemma lock_request_sends:
  assumes "ready Forward (s_client s)" and "wf_file (s_file s)"
  shows "sends os Forward (bnd (lock_request os ty off n) (rpc_send os)) s
    (x_call (c_xid (s_client s) + 1)
       [op_sequence (s_client s), Putfh (handle (s_file s)),
        Lock ty False off n 0 (f_open_sid (s_file s)) 0 (client_owner (s_client s))])
    (used_slot (s_client s))"
proof -
  have own: "client_owner (used_slot (s_client s)) = client_owner (s_client s)"
    by (simp add: client_owner_def used_slot_def)
  have l: "300 + length (x_op (Lock ty False off n 0 (f_open_sid (s_file s)) 0
      (client_owner (used_slot (s_client s))))) \<le> limit"
    using length_x_owner[of "used_slot (s_client s)"]
    by (simp add: length_x_stateid wf_fileD assms limit_def)
  show ?thesis
    unfolding lock_request_def push_bare_sequence_def push_lock_sequence_def own[symmetric]
    by (rule file_request[where op = "\<lambda>c. Lock ty False off n 0 (f_open_sid (s_file s)) 0 (client_owner c)",
          OF assms], rule emits_cong, (rule emit wf_fileD assms)+) (rule l | simp)+
qed

lemma unlock_request_sends:
  assumes "ready Forward (s_client s)" and "wf_file (s_file s)"
  shows "sends os Forward (bnd (unlock_request os ty off n) (rpc_send os)) s
    (x_call (c_xid (s_client s) + 1)
       [op_sequence (s_client s), Putfh (handle (s_file s)),
        Locku ty 0 (f_latest_sid (s_file s)) off n])
    (used_slot (s_client s))"
  unfolding unlock_request_def push_bare_sequence_def
  by (rule file_request[where op = "\<lambda>_. Locku ty 0 (f_latest_sid (s_file s)) off n", OF assms],
      rule emits_cong, (rule emit wf_fileD assms)+)
    (simp_all add: length_x_stateid wf_fileD assms limit_def)


section \<open>Paths\<close>

definition lookups :: "u8 list list \<Rightarrow> nfs_op list" where
  "lookups comps = map (\<lambda>bs. Lookup (cells_of bs)) comps"

lemma emits_same: "emits H f e k u \<Longrightarrow> f = g \<Longrightarrow> emits H g e k u"
  by simp

lemma emits_deref:
  assumes p: "deref p H = Some (Ok b H)" and g: "emits (H, f) (g b) e n u"
  shows "emits (H, f) (\<lambda>r. bnd (on_heap (deref p)) (\<lambda>i. g i r)) e n u"
proof -
  have "bnd (on_heap (deref p)) (\<lambda>i. g i r) s = g b r s" if "s_heap s = H" for r s
  proof -
    have "on_heap (deref p) s = Some (Ok b (s\<lparr>s_heap := H\<rparr>))"
      using p that by (simp add: on_heap_def zoom_def)
    then have "on_heap (deref p) s = Some (Ok b s)" using that by simp
    then show ?thesis by (simp add: bnd_Ok)
  qed
  then show ?thesis using g unfolding emits_def by simp
qed

lemma emits_push_lookups:
  assumes "list_all2 (\<lambda>p bs. \<exists>b. deref p H = Some (Ok b H) \<and> holds_bytes b bs) ps comps"
  shows "emits (H, f) (push_lookups ps :: 'w push) (\<lambda>_. concat (map x_op (lookups comps)))
    (word_of_nat (length comps)) (\<lambda>c. c)"
  using assms
proof (induction ps comps rule: list_all2_induct)
  case Nil
  have "emits (H, f) (push_lookups []) (\<lambda>_. []) 0 (\<lambda>c. c)"
    by (rule emits_same[OF emits_ret], rule ext) simp
  then show ?case by (simp add: lookups_def del: push_lookups.simps)
next
  case (Cons p ps bs comps)
  then obtain b where b: "deref p H = Some (Ok b H)" "wf_buf b" "data b = cells_of bs" by blast
  let ?g = "\<lambda>i r. bnd (on_b (push_string (mem_at_start i) (buffer_length i)) r) (push_lookups ps :: 'w push)"
  have "emits (H, f) (?g b) (\<lambda>c. xopaque (data b) @ concat (map x_op (lookups comps)))
      (0 + word_of_nat (length comps)) (\<lambda>c. c)"
    by (rule emits_bnd[OF emits_on_b[OF writes_push_buffer[OF b(2)]] Cons.IH])
  from emits_bnd[OF emits_push_op_x[where op = OP_LOOKUP] emits_deref[where g = ?g, OF b(1) this]]
  have "emits (H, f) (\<lambda>r. bnd (push_op OP_LOOKUP r) (\<lambda>r. bnd (on_heap (deref p)) (\<lambda>i. ?g i r)))
      (\<lambda>c. x32 OP_LOOKUP @ xopaque (data b) @ concat (map x_op (lookups comps)))
      (1 + (0 + word_of_nat (length comps))) (\<lambda>c. c)" .
  moreover have "(\<lambda>r. bnd (push_op OP_LOOKUP r) (\<lambda>r. bnd (on_heap (deref p)) (\<lambda>i. ?g i r))) =
      (push_lookups (p # ps) :: 'w push)"
    by (rule ext) simp
  ultimately show ?case using b(3) by (simp add: lookups_def)
qed

lemma emits_foreach:
  assumes "path_of H v comps"
  shows "emits (H, f) (\<lambda>r. bnd (vector_foreach v) (\<lambda>ps. push_lookups ps r))
    (\<lambda>_. concat (map x_op (lookups comps))) (word_of_nat (length comps)) (\<lambda>c. c)"
proof -
  obtain ps where "vrep v ps"
    and ps: "list_all2 (\<lambda>p bs. \<exists>b. deref p H = Some (Ok b H) \<and> holds_bytes b bs) ps comps"
    using assms by (auto simp: path_of_def)
  then have foreach: "vector_foreach v s = Some (Ok ps s)" for s :: "'a st"
    by (simp add: vector_foreach_ok)
  have "(\<lambda>r. bnd (vector_foreach v) (\<lambda>ps. push_lookups ps r)) = (push_lookups ps :: 'a push)"
    by (intro ext) (simp add: bnd_Ok[OF foreach])
  with emits_same[OF emits_push_lookups[OF ps]] show ?thesis by metis
qed

lemma emits_push_resolution:
  assumes "path_of H v comps"
  shows "emits (H, f) (push_resolution v) (\<lambda>_. concat (map x_op (Putrootfh # lookups comps)))
    (1 + word_of_nat (length comps)) (\<lambda>c. c)"
proof (rule emits_same)
  show "emits (H, f) (\<lambda>r. bnd (push_op OP_PUTROOTFH r) (\<lambda>r. bnd (vector_foreach v) (\<lambda>ps. push_lookups ps r)))
      (\<lambda>_. concat (map x_op (Putrootfh # lookups comps))) (1 + word_of_nat (length comps)) (\<lambda>c. c)"
    by (rule emits_cong[OF emits_bnd[OF emits_push_op_x emits_foreach[OF assms]]]) simp_all
qed (simp add: push_resolution_def fun_eq_iff)

definition root_handle :: "client \<Rightarrow> nfs_op" where
  "root_handle c = Putfh (c_root_filehandle c)"

lemma emits_push_resolution_rfh:
  assumes "path_of H v comps"
  shows "emits (H, f) (push_resolution_rfh v)
    (\<lambda>c. concat (map x_op (root_handle c # lookups comps))) (1 + word_of_nat (length comps)) (\<lambda>c. c)"
proof -
  let ?pre = "[push_op OP_PUTFH,
      from_client (\<lambda>c. on_b (push_string (c_root_filehandle c) (word_of_nat NFS4_FHSIZE)))]"
  have w: "wf_client c \<Longrightarrow> writes (push_string (c_root_filehandle c) (word_of_nat NFS4_FHSIZE))
      (xopaque (c_root_filehandle c))" for c
    by (rule writes_whole_string) (simp add: wf_client_def size_defs)
  have "emits (H, f) (chain ?pre) (\<lambda>c. x_op (root_handle c)) 1 (\<lambda>c. c)"
    by (rule emits_cong, (rule emits_chain_Cons emits_chain_Nil emits_push_op_x emits_from_client
          emits_on_b w | assumption | (simp; fail))+) (simp_all add: root_handle_def)
  from emits_bnd[OF this emits_foreach[OF assms]]
  have "emits (H, f) (\<lambda>r. bnd (chain ?pre r) (\<lambda>r. bnd (vector_foreach v) (\<lambda>ps. push_lookups ps r)))
      (\<lambda>c. concat (map x_op (root_handle c # lookups comps))) (1 + word_of_nat (length comps)) (\<lambda>c. c)"
    by (rule emits_cong) simp_all
  then show ?thesis
    by (rule emits_same) (rule ext, rule ext, simp only: push_resolution_rfh_def)
qed


lemma vrep_butlast:
  assumes "vrep v (ps @ [p])"
  shows "vrep (v\<lparr>b_end := b_end v - 8\<rparr>) ps"
proof -
  note v = vrepD[OF assms] and w = wf_bufD[OF vrepD(1)[OF assms]]
  have "(8 :: u32) \<le> b_end v" using v(3) by (simp add: word_le_nat_alt)
  then have e: "unat (b_end v - 8) = unat (b_end v) - 8" by (simp add: unat_sub)
  have "data (v\<lparr>b_end := b_end v - 8\<rparr>) = take (8 * length ps) (data v)"
    using v(3) e by (simp add: data_def min_def)
  also have "\<dots> = cells_of (concat (map le64 ps))" using v(2) by (simp add: take_map)
  finally show ?thesis
    using v(1,3) w e by (simp add: vrep_def wf_buf_def word_le_nat_alt)
qed

lemma vector_last:
  assumes "vrep v (ps @ [p])"
  shows "vector_get (vector_length v - 1) v = Some (Ok p v)"
proof -
  have "vector_length v = word_of_nat (Suc (length ps))"
    using unat_vector_length[OF assms] by (metis length_append_singleton word_unat_inverse)
  then have "vector_length v - 1 = word_of_nat (length ps)" by simp
  then show ?thesis using vector_get_ok[OF assms, of "length ps"] by (simp add: nth_append)
qed

lemma initial_path:
  assumes "path_of H v (init @ [l])"
  obtains p b where "path_of H (v\<lparr>b_end := b_end v - 8\<rparr>) init"
    and "vector_get (vector_length v - 1) v = Some (Ok p v)"
    and "deref p H = Some (Ok b H)" and "holds_bytes b l"
proof -
  from assms obtain qs where "vrep v qs"
    "list_all2 (\<lambda>p bs. \<exists>b. deref p H = Some (Ok b H) \<and> holds_bytes b bs) qs (init @ [l])"
    by (auto simp: path_of_def)
  then obtain ps p where v: "vrep v (ps @ [p])"
    and ps: "list_all2 (\<lambda>p bs. \<exists>b. deref p H = Some (Ok b H) \<and> holds_bytes b bs) ps init"
    and p: "\<exists>b. deref p H = Some (Ok b H) \<and> holds_bytes b l"
    by (auto simp: list_all2_append2 list_all2_Cons2)
  from ps vrep_butlast[OF v] have "path_of H (v\<lparr>b_end := b_end v - 8\<rparr>) init"
    by (auto simp: path_of_def)
  with vector_last[OF v] p that show thesis by blast
qed

lemma emits_initial_path:
  fixes g :: "buffer \<Rightarrow> 'w push"
  assumes "path_of H v (init @ [l])"
    and g: "\<And>b. wf_buf b \<Longrightarrow> data b = cells_of l \<Longrightarrow> emits (H, f) (g b) e n (\<lambda>c. c)"
  shows "emits (H, f)
    (\<lambda>r. bnd (push_initial_path v r) (\<lambda>(r, p). bnd (on_heap (deref p)) (\<lambda>final. g final r)))
    (\<lambda>c. concat (map x_op (root_handle c # lookups init)) @ e c)
    (1 + word_of_nat (length init) + n) (\<lambda>c. c)"
proof -
  obtain p b where p: "path_of H (v\<lparr>b_end := b_end v - 8\<rparr>) init"
    "vector_get (vector_length v - 1) v = Some (Ok p v)"
    "deref p H = Some (Ok b H)" "wf_buf b" "data b = cells_of l"
    using initial_path[OF assms(1)] by metis
  have "emits (H, f)
      (\<lambda>r. bnd (push_resolution_rfh (v\<lparr>b_end := b_end v - 8\<rparr>) r)
         (\<lambda>r. bnd (on_heap (deref p)) (\<lambda>final. g final r)))
      (\<lambda>c. concat (map x_op (root_handle c # lookups init)) @ e c)
      (1 + word_of_nat (length init) + n) (\<lambda>c. c)"
    by (rule emits_bnd[OF emits_push_resolution_rfh[OF p(1)] emits_deref[where g = g, OF p(3) g[OF p(4,5)]]])
  then show ?thesis
  proof (rule emits_same)
    have get: "bnd (on_local v (vector_get (vector_length v - 1))) k s = k (p, v) s" for s :: "'w st" and k
      by (rule bnd_Ok) (rule on_local_Ok[where m = "vector_get (vector_length v - 1)", OF p(2)])
    show "(\<lambda>r. bnd (push_resolution_rfh (v\<lparr>b_end := b_end v - 8\<rparr>) r)
         (\<lambda>r. bnd (on_heap (deref p)) (\<lambda>final. g final r))) =
      (\<lambda>r. bnd (push_initial_path v r) (\<lambda>(r, p). bnd (on_heap (deref p)) (\<lambda>final. g final r)))"
      by (rule ext) (simp add: push_initial_path_def bnd_assoc, rule arg_cong[of _ _ "bnd _"],
          rule ext, rule ext, simp add: get)
  qed
qed

lemma used_slot_next: "(\<lambda>c. c\<lparr>c_sequence := c_sequence c + 1\<rparr>) (c\<lparr>c_xid := c_xid c + 1\<rparr>) = used_slot c"
  by (simp add: used_slot_def)

lemma length_x_ops: "length (x_call x ops) = 92 + length (concat (map x_op ops))"
  by (simp add: x_call_msg)

text \<open>A request that starts with \<^verbatim>\<open>SEQUENCE\<close>, in either buffer.\<close>

lemma sequence_request:
  assumes c: "ready w (s_client s)"
    and e: "emits (s_heap s, s_file s) g (\<lambda>c. concat (map x_op (ops c))) (word_of_nat (length (ops (used_slot (s_client s))))) (\<lambda>c. c)"
    and len: "length (x_call 0 (op_sequence (s_client s) # ops (used_slot (s_client s)))) \<le> limit"
    and m: "m = bnd (allocate_rpc w) (\<lambda>r. bnd (push_sequence r) g)"
  shows "sends os w (bnd m (rpc_send os)) s
    (x_call (c_xid (s_client s) + 1) (op_sequence (s_client s) # ops (used_slot (s_client s))))
    (used_slot (s_client s))"
proof -
  let ?c = "s_client s" and ?c1 = "(s_client s)\<lparr>c_xid := c_xid (s_client s) + 1\<rparr>"
  let ?enc = "\<lambda>c. x_op (op_sequence c) @ concat (map x_op (ops (c\<lparr>c_sequence := c_sequence c + 1\<rparr>)))"
  let ?n = "1 + word_of_nat (length (ops (used_slot ?c))) :: u32"
  have s: "emits (s_heap s, s_file s) push_sequence (\<lambda>c. x_op (op_sequence c)) 1
      (\<lambda>c. c\<lparr>c_sequence := c_sequence c + 1\<rparr>)"
    using emits_push_sequence by (simp add: op_sequence_def)
  have chain1: "chain [\<lambda>r. bnd (push_sequence r) g] = (\<lambda>r. bnd (push_sequence r) g)"
  proof (intro ext)
    fix r s
    have "bnd (bnd (push_sequence r) g) ret s = bnd (push_sequence r) g s"
      by (simp add: bnd_def del: ret_run split: option.split out.split) simp
    then show "chain [\<lambda>r. bnd (push_sequence r) g] r s = bnd (push_sequence r) g s"
      by (metis (no_types, lifting) chain.simps ext)
  qed
  have e': "emits (s_heap s, s_file s) (chain [\<lambda>r. bnd (push_sequence r) g]) ?enc ?n
      (\<lambda>c. c\<lparr>c_sequence := c_sequence c + 1\<rparr>)"
    unfolding chain1 using emits_bnd[OF s e] by simp
  have used: "?c1\<lparr>c_sequence := c_sequence ?c1 + 1\<rparr> = used_slot ?c"
    by (simp add: used_slot_def)
  have seq: "op_sequence ?c1 = op_sequence ?c" by (simp add: op_sequence_def)
  have l: "92 + length (?enc ?c1) \<le> limit"
    using len unfolding used seq length_x_ops by simp
  have msg: "x_msg (c_xid ?c1) ?n (x_op (op_sequence ?c) @ concat (map x_op (ops (used_slot ?c)))) =
      x_call (c_xid ?c + 1) (op_sequence ?c # ops (used_slot ?c))"
    unfolding x_call_msg by simp
  have "sends os w (bnd (bnd (allocate_rpc w) (chain [\<lambda>r. bnd (push_sequence r) g])) (rpc_send os)) s
      (x_msg (c_xid ?c1) ?n (?enc ?c1)) (?c1\<lparr>c_sequence := c_sequence ?c1 + 1\<rparr>)"
    by (rule request_sends[OF e' refl c refl l]) simp
  then show ?thesis unfolding used seq msg m chain1 .
qed


lemma bnd_ret_right [simp]: "bnd m ret = m"
  by (rule ext) (simp add: bnd_def split: option.split out.split)

lemma chain_Cons: "chain (f # fs) = (\<lambda>r. bnd (f r) (chain fs))"
  by (rule ext) simp

lemma chain_Nil: "chain [] = ret"
  by (rule ext) simp

lemma chain_single: "chain [f] = f"
  by (simp only: chain_Cons chain_Nil bnd_ret_right)

lemma chain_two: "chain [f, g] = (\<lambda>r. bnd (f r) g)"
  by (subst chain_Cons) (simp only: chain_single)

lemma chain_three: "chain [f, g, h] = (\<lambda>r. bnd (f r) (\<lambda>r. bnd (g r) h))"
  by (subst chain_Cons) (simp only: chain_two)

lemma exists_request_sends:
  assumes "ready Forward (s_client s)" and p: "path_of (s_heap s) path comps"
    and ops: "ops = op_sequence (s_client s) # Putrootfh # lookups comps @ [Getfh]"
    and "length (x_call 0 ops) \<le> limit"
  shows "sends os Forward (bnd (exists_request path) (rpc_send os)) s
    (x_call (c_xid (s_client s) + 1) ops) (used_slot (s_client s))"
  unfolding ops
proof (rule sequence_request[where ops = "\<lambda>_. Putrootfh # lookups comps @ [Getfh]"])
  show "emits (s_heap s, s_file s) (\<lambda>r. bnd (push_resolution path r) (push_op OP_GETFH))
      (\<lambda>c. concat (map x_op (Putrootfh # lookups comps @ [Getfh])))
      (word_of_nat (length (Putrootfh # lookups comps @ [Getfh]))) (\<lambda>c. c)"
    by (rule emits_cong[OF emits_bnd[OF emits_push_resolution[OF p] emits_push_op_x]])
      (simp_all add: lookups_def)
qed (use assms in \<open>simp_all add: exists_request_def chain_three\<close>)

lemma get_root_fh_request_sends:
  assumes "ready Reverse (s_client s)"
  shows "sends os Reverse (bnd get_root_fh_request (rpc_send os)) s
    (x_call (c_xid (s_client s) + 1) [op_sequence (s_client s), Putrootfh, Getfh])
    (used_slot (s_client s))"
proof (rule sequence_request[where ops = "\<lambda>_. [Putrootfh, Getfh]"])
  show "emits (s_heap s, s_file s) (\<lambda>r. bnd (push_op OP_PUTROOTFH r) (push_op OP_GETFH))
      (\<lambda>c. concat (map x_op [Putrootfh, Getfh])) (word_of_nat (length [Putrootfh, Getfh])) (\<lambda>c. c)"
    by (rule emits_cong[OF emits_bnd[OF emits_push_op_x emits_push_op_x]]) simp_all
qed (use assms length_x_sequence[of "s_client s"] in
    \<open>simp_all add: get_root_fh_request_def chain_three length_x_ops ready_def limit_def\<close>)

lemma reclaim_complete_request_sends:
  assumes "ready Reverse (s_client s)"
  shows "sends os Reverse (bnd reclaim_complete_request (rpc_send os)) s
    (x_call (c_xid (s_client s) + 1) [op_sequence (s_client s), Reclaim_complete False])
    (used_slot (s_client s))"
proof (rule sequence_request[where ops = "\<lambda>_. [Reclaim_complete False]"])
  show "emits (s_heap s, s_file s) (\<lambda>r. bnd (push_op OP_RECLAIM_COMPLETE r) (on_b (push_be32 0)))
      (\<lambda>c. concat (map x_op [Reclaim_complete False])) (word_of_nat (length [Reclaim_complete False])) (\<lambda>c. c)"
    by (rule emits_cong[OF emits_bnd[OF emits_push_op_x emits_on_b[OF writes_x32]]])
      (simp_all add: xbool_def)
qed (use assms length_x_sequence[of "s_client s"] in
    \<open>simp_all add: reclaim_complete_request_def chain_three length_x_ops ready_def limit_def\<close>)

definition open_ops :: "client \<Rightarrow> u8 list list \<Rightarrow> u8 list \<Rightarrow> bool \<Rightarrow> bool \<Rightarrow> nfs_op list" where
  "open_ops c init l writable create = root_handle c # lookups init @
     [Open 0 (if writable then OPEN4_SHARE_ACCESS_BOTH else OPEN4_SHARE_ACCESS_READ) 0 (client_owner c)
        (open_how create) (cells_of l), Getfh]"

lemma open_request_sends:
  assumes "ready Forward (s_client s)" and p: "path_of (s_heap s) path (init @ [l])"
    and ops: "ops = op_sequence (s_client s) # open_ops (used_slot (s_client s)) init l writable create"
    and "length (x_call 0 ops) \<le> limit"
  shows "sends os Forward (bnd (open_request path writable create) (rpc_send os)) s
    (x_call (c_xid (s_client s) + 1) ops) (used_slot (s_client s))"
  unfolding ops
proof (rule sequence_request[where ops = "\<lambda>c. open_ops c init l writable create"])
  let ?acc = "if writable then OPEN4_SHARE_ACCESS_BOTH else OPEN4_SHARE_ACCESS_READ"
  let ?e = "\<lambda>c. x_op (Open 0 ?acc 0 (client_owner c) (open_how create) (cells_of l)) @ x_op Getfh"
  have g: "emits (s_heap s, s_file s) (\<lambda>r. chain [push_open b ?acc create, push_op OP_GETFH] r) ?e 2 (\<lambda>c. c)"
    if "wf_buf b" "data b = cells_of l" for b
    unfolding chain_two that(2)[symmetric]
    by (rule emits_cong[OF emits_bnd[OF emits_push_open[OF that(1)] emits_push_op_x]]) simp_all
  show "emits (s_heap s, s_file s) (\<lambda>r. bnd (push_initial_path path r) (\<lambda>(r, p).
        bnd (on_heap (deref p)) (\<lambda>final. chain [push_open final ?acc create, push_op OP_GETFH] r)))
      (\<lambda>c. concat (map x_op (open_ops c init l writable create)))
      (word_of_nat (length (open_ops (used_slot (s_client s)) init l writable create))) (\<lambda>c. c)"
    by (rule emits_cong[OF emits_initial_path[OF p g]])
      (simp_all add: open_ops_def lookups_def del: x_op.simps chain.simps)
qed (use assms in \<open>simp_all add: open_request_def Let_def\<close>)

definition delete_ops :: "client \<Rightarrow> u8 list list \<Rightarrow> u8 list \<Rightarrow> nfs_op list" where
  "delete_ops c init l = root_handle c # lookups init @ [Remove (cells_of l)]"

lemma delete_request_sends:
  assumes "ready Forward (s_client s)" and p: "path_of (s_heap s) path (init @ [l])"
    and ops: "ops = op_sequence (s_client s) # delete_ops (used_slot (s_client s)) init l"
    and "length (x_call 0 ops) \<le> limit"
  shows "sends os Forward (bnd (delete_request path) (rpc_send os)) s
    (x_call (c_xid (s_client s) + 1) ops) (used_slot (s_client s))"
  unfolding ops
proof (rule sequence_request[where ops = "\<lambda>c. delete_ops c init l"])
  have g: "emits (s_heap s, s_file s)
      (\<lambda>r. chain [push_op OP_REMOVE, on_b (push_string (mem_at_start b) (buffer_length b))] r)
      (\<lambda>c. x_op (Remove (cells_of l))) 1 (\<lambda>c. c)"
    if "wf_buf b" "data b = cells_of l" for b
    unfolding chain_two that(2)[symmetric]
    by (rule emits_cong[OF emits_bnd[OF emits_push_op_x emits_on_b[OF writes_push_buffer[OF that(1)]]]]) simp_all
  show "emits (s_heap s, s_file s) (\<lambda>r. bnd (push_initial_path path r) (\<lambda>(r, p).
        bnd (on_heap (deref p)) (\<lambda>final.
          chain [push_op OP_REMOVE, on_b (push_string (mem_at_start final) (buffer_length final))] r)))
      (\<lambda>c. concat (map x_op (delete_ops c init l)))
      (word_of_nat (length (delete_ops (used_slot (s_client s)) init l))) (\<lambda>c. c)"
    by (rule emits_cong[OF emits_initial_path[OF p g]])
      (simp_all add: delete_ops_def lookups_def del: x_op.simps chain.simps)
qed (use assms in \<open>simp_all add: delete_request_def\<close>)


text \<open>The three requests that have no session yet, or that end it.\<close>

lemma plain_request:
  assumes c: "ready Reverse (s_client s)"
    and e: "emits (s_heap s, s_file s) (chain fs) (\<lambda>c. x_op (op c)) 1 u"
    and len: "92 + length (x_op (op (next_call (s_client s)))) \<le> limit"
    and fd: "\<And>c. c_fd (u c) = c_fd c"
  shows "sends os Reverse (bnd (bnd (allocate_rpc Reverse) (chain fs)) (rpc_send os)) s
    (x_call (c_xid (s_client s) + 1) [op (next_call (s_client s))]) (u (next_call (s_client s)))"
proof -
  have "sends os Reverse (bnd (bnd (allocate_rpc Reverse) (chain fs)) (rpc_send os)) s
    (x_msg (c_xid (next_call (s_client s))) 1 (x_op (op (next_call (s_client s))))) (u (next_call (s_client s)))"
    by (rule request_sends[OF e refl c _ len]) (simp_all add: next_call_def fd)
  then show ?thesis by (simp add: x_call_msg next_call_def)
qed

definition session_started :: "client \<Rightarrow> client" where
  "session_started c = c\<lparr>c_xid := c_xid c + 1, c_sequence := 1, c_lock_sequence := 1,
     c_server_sequence := c_server_sequence c + 1\<rparr>"

lemma bufless_session_started [simp]:
  "bufless (\<lambda>c. c\<lparr>c_sequence := 1\<rparr>)" "bufless (\<lambda>c. c\<lparr>c_lock_sequence := 1\<rparr>)"
  "bufless (\<lambda>c. c\<lparr>c_server_sequence := c_server_sequence c + 1\<rparr>)"
  unfolding bufless_def wf_client_def by (intro conjI allI; case_tac w; simp)+

definition op_create_session :: "client \<Rightarrow> nfs_op" where
  "op_create_session c = Create_session (cells_of (le64 (c_clientid c))) (c_server_sequence c)
     CREATE_SESSION4_FLAG_PERSIST (client_channel c) (client_channel c) 0x7b [0]"

lemma create_session_request_sends:
  assumes "ready Reverse (s_client s)"
  shows "sends os Reverse (bnd create_session_request (rpc_send os)) s
    (x_call (c_xid (s_client s) + 1) [op_create_session (s_client s)]) (session_started (s_client s))"
proof -
  let ?u = "\<lambda>c. c\<lparr>c_sequence := 1, c_lock_sequence := 1, c_server_sequence := c_server_sequence c + 1\<rparr>"
  let ?fs = "[update_client (\<lambda>c. c\<lparr>c_sequence := 1\<rparr>),
        update_client (\<lambda>c. c\<lparr>c_lock_sequence := 1\<rparr>),
        push_create_session,
        update_client (\<lambda>c. c\<lparr>c_server_sequence := c_server_sequence c + 1\<rparr>)]"
  have e: "emits (s_heap s, s_file s) (chain ?fs) (\<lambda>c. x_op (op_create_session c)) 1 ?u"
    by (rule emits_cong, (rule emits_chain_Cons emits_chain_Nil emits_update_client emits_push_create_session
          | (simp; fail))+)
      (simp_all add: op_create_session_def client_channel_def fun_eq_iff)
  have op: "op_create_session (next_call (s_client s)) = op_create_session (s_client s)"
    and u: "?u (next_call (s_client s)) = session_started (s_client s)"
    by (simp_all add: op_create_session_def next_call_def client_channel_def session_started_def)
  have l: "92 + length (x_op (op_create_session (next_call (s_client s)))) \<le> limit"
    by (simp add: op_create_session_def xbitmap_def xfixed_def limit_def)
  show ?thesis
    using plain_request[OF assms e l, of os] unfolding op u create_session_request_def by simp
qed

lemma destroy_session_request_sends:
  assumes "ready Reverse (s_client s)"
  shows "sends os Reverse (bnd destroy_session_request (rpc_send os)) s
    (x_call (c_xid (s_client s) + 1) [Destroy_session (c_session (s_client s))]) (next_call (s_client s))"
proof -
  have e: "emits (s_heap s, s_file s) (chain [push_op OP_DESTROY_SESSION,
      from_client (\<lambda>c. push_session_id (c_session c))]) (\<lambda>c. x_op (Destroy_session (c_session c))) 1 (\<lambda>c. c)"
    by (rule emits_wf_cong, rule emits_cong, (rule emit | (simp add: wf_client_sizes; fail))+)
      (simp_all add: xfixed_def wf_client_sizes size_defs)
  have l: "92 + length (x_op (Destroy_session (c_session (next_call (s_client s))))) \<le> limit"
    using assms by (simp add: next_call_def ready_def wf_client_def size_defs xfixed_def limit_def)
  show ?thesis
    using plain_request[OF assms e l, of os] unfolding destroy_session_request_def
    by (simp add: next_call_def)
qed

definition op_exchange_id :: "u8 list \<Rightarrow> client \<Rightarrow> nfs_op" where
  "op_exchange_id name c = Exchange_id (cells_of (c_instance_verifier c)) (cells_of name) 0
     (cells_of author) (cells_of version) 0 0"

text \<open>The owner is random: sixteen bytes of whatever \<^verbatim>\<open>rand\<close> makes the client choose.\<close>

lemma exchange_id_request_sends:
  assumes c: "ready Reverse (s_client s)" and W: "s_world s \<in> W" "\<And>w. w \<in> W \<Longrightarrow> snd (os_rand os w) \<in> W"
  shows "\<exists>name. \<exists>world \<in> W. length name = 16 \<and>
    sends os Reverse (\<lambda>_. bnd (exchange_id_request os) (rpc_send os) s) (s\<lparr>s_world := world\<rparr>)
      (x_call (c_xid (s_client s) + 1) [op_exchange_id name (s_client s)]) (next_call (s_client s))"
proof -
  let ?c1 = "next_call (s_client s)" and ?r = "\<lparr>r_opcountloc = 88, r_opcount = 0, r_b = Reverse\<rparr>"
  obtain b stale where b: "allocate_rpc Reverse s = Some (Ok ?r (s\<lparr>s_client := set_buf Reverse b ?c1\<rparr>))"
    "rep b (x32 0 @ call_header (c_xid ?c1) @ stale)" "length stale = 4"
    using allocate_rpc_ok[OF c] by (auto simp: next_call_def)
  let ?s1 = "s\<lparr>s_client := set_buf Reverse b ?c1\<rparr>"
  obtain name world where n: "fill_random os 16 ?s1 = Some (Ok name (?s1\<lparr>s_world := world\<rparr>))" "length name = 16"
      "world \<in> W"
    using fill_random_ok[of 16 ?s1 W os] W by auto
  let ?s2 = "?s1\<lparr>s_world := world\<rparr>" and ?op = "op_exchange_id name (s_client s)"
  have same: "op_exchange_id name (c\<lparr>c_xid := x, c_reverse := d\<rparr>) = op_exchange_id name c" for c x d
    by (simp add: op_exchange_id_def)
  have l: "length (x_op ?op) \<le> 300"
  proof -
    have "length (xopaque (cells_of author)) \<le> 19" "length (xopaque (cells_of version)) \<le> 41"
      "length (xopaque (cells_of name)) \<le> 23"
      using length_xopaque_bound[of "cells_of author"] length_xopaque_bound[of "cells_of version"]
        length_xopaque_bound[of "cells_of name"] n(2) by (simp_all add: author_def version_def)
    moreover have "length (xfixed (cells_of (c_instance_verifier (s_client s)))) = 8"
      using c by (simp add: ready_def wf_client_def size_defs xfixed_def)
    ultimately show ?thesis by (simp add: op_exchange_id_def)
  qed
  have e: "emits (s_heap s, s_file s) (exchange_id_args name) (\<lambda>c. x_op (op_exchange_id name c)) 1 (\<lambda>c. c)"
    using emits_exchange_id_args[OF n(2)] by (simp add: op_exchange_id_def)
  obtain b' where b': "exchange_id_args name ?r ?s2 = Some (Ok (?r\<lparr>r_opcount := r_opcount ?r + 1\<rparr>)
      (?s2\<lparr>s_client := set_buf (r_b ?r) b' (s_client ?s2)\<rparr>))"
    "rep b' ((x32 0 @ call_header (c_xid ?c1) @ stale) @ x_op (op_exchange_id name (s_client ?s2)))"
    by (rule emitsD[OF e, of ?s2 ?r "x32 0 @ call_header (c_xid ?c1) @ stale"])
      (use b c l in \<open>simp_all add: same ready_def wf_client_def next_call_def limit_def del: x_op.simps\<close>)
  let ?s3 = "s\<lparr>s_client := set_buf Reverse b' ?c1, s_world := world\<rparr>"
  have b'1: "exchange_id_args name ?r ?s2 = Some (Ok \<lparr>r_opcountloc = 88, r_opcount = 1, r_b = Reverse\<rparr> ?s3)"
    using b'(1) by simp
  have push: "push_exchange_id os ?r ?s1 = Some (Ok \<lparr>r_opcountloc = 88, r_opcount = 1, r_b = Reverse\<rparr> ?s3)"
    unfolding push_exchange_id_def using b'1 by (subst bnd_Ok[where m = "fill_random os 16", OF n(1)])
  have built: "exchange_id_request os s = Some (Ok \<lparr>r_opcountloc = 88, r_opcount = 1, r_b = Reverse\<rparr> ?s3)"
    unfolding exchange_id_request_def using push by (subst bnd_Ok[where m = "allocate_rpc Reverse", OF b(1)])
  have "rep b' (x32 0 @ call_header (c_xid ?c1) @ stale @ x_op ?op)"
    using b'(2) by (simp add: same next_call_def del: x_op.simps)
  then have "sends os Reverse (rpc_send os \<lparr>r_opcountloc = 88, r_opcount = 1, r_b = Reverse\<rparr>) ?s3
      (x_msg (c_xid ?c1) 1 (x_op ?op)) (set_buf Reverse b' ?c1)"
    using rpc_send_ok[OF refl, where s = ?s3 and w = Reverse and k = 1 and os = os and mark = "x32 0"
        and x = "c_xid ?c1" and stale = stale and body = "x_op ?op"] b(3)
    by (simp del: x_op.simps)
  then have "sends os Reverse (\<lambda>_. bnd (exchange_id_request os) (rpc_send os) s) (s\<lparr>s_world := world\<rparr>)
      (x_msg (c_xid ?c1) 1 (x_op ?op)) ?c1"
    using built by (auto simp: sends_def bnd_Ok Let_def next_call_def split: prod.splits simp del: x_op.simps)
  then have "sends os Reverse (\<lambda>_. bnd (exchange_id_request os) (rpc_send os) s) (s\<lparr>s_world := world\<rparr>)
      (x_call (c_xid (s_client s) + 1) [?op]) ?c1"
    by (simp add: x_call_msg next_call_def del: x_op.simps)
  with n(2,3) show ?thesis by blast
qed

end
