(* ===== verification/Transport.thy ===== *)
theory Transport
  imports Requests
begin

text \<open>
  The receiving half of a call and the call as a whole. \<open>delivers\<close>, \<open>answers\<close> and
  \<open>responds\<close> say what the socket of a server does that takes a request and answers it with
  one record; \<open>call_ok\<close> and \<open>call_refused\<close> say what \<^verbatim>\<open>transact\<close> makes of it, for a
  request that was built by a program \<open>m\<close> of \<open>Requests\<close>. The clients before and after differ in
  their buffers, which is what \<open>apart\<close> leaves open.
\<close>

text \<open>The order in which updates of the state are written.\<close>

lemma st_order [simp]:
  "s\<lparr>s_world := w, s_client := c\<rparr> = s\<lparr>s_client := c, s_world := w\<rparr>"
  "s\<lparr>s_bad := b, s_client := c\<rparr> = s\<lparr>s_client := c, s_bad := b\<rparr>"
  "s\<lparr>s_file := f, s_client := c\<rparr> = s\<lparr>s_client := c, s_file := f\<rparr>"
  "s\<lparr>s_mem := m, s_client := c\<rparr> = s\<lparr>s_client := c, s_mem := m\<rparr>"
  "s\<lparr>s_bad := b, s_file := f\<rparr> = s\<lparr>s_file := f, s_bad := b\<rparr>"
  "s\<lparr>s_world := w, s_file := f\<rparr> = s\<lparr>s_file := f, s_world := w\<rparr>"
  "s\<lparr>s_world := w, s_bad := b\<rparr> = s\<lparr>s_bad := b, s_world := w\<rparr>"
  "s\<lparr>s_world := w, s_mem := m\<rparr> = s\<lparr>s_mem := m, s_world := w\<rparr>"
  "s\<lparr>s_mem := m, s_bad := b\<rparr> = s\<lparr>s_bad := b, s_mem := m\<rparr>"
  by (cases s; simp)+

section \<open>What the socket delivers\<close>

text \<open>
  \<open>delivers os fd n bs w w'\<close>: calls of \<^verbatim>\<open>read(fd, _, n)\<close>, starting in the world \<open>w\<close>, return the
  bytes \<open>bs\<close> in one piece or several, none of them empty, and leave the world \<open>w'\<close>.
\<close>

inductive delivers :: "'w os \<Rightarrow> int \<Rightarrow> nat \<Rightarrow> u8 list \<Rightarrow> 'w \<Rightarrow> 'w \<Rightarrow> bool" for os fd n where
  nothing: "delivers os fd n [] w w"
| piece: "os_read os fd n w = (Some c, w1) \<Longrightarrow> c \<noteq> [] \<Longrightarrow> delivers os fd n bs w1 w2 \<Longrightarrow>
    delivers os fd n (c @ bs) w w2"

lemma delivers_once: "os_read os fd n w = (Some bs, w') \<Longrightarrow> bs \<noteq> [] \<Longrightarrow> delivers os fd n bs w w'"
  using delivers.piece[OF _ _ delivers.nothing] by fastforce

lemma read_fully_delivered:
  assumes "delivers os fd n bs w w'" and "sz + length bs = n" and "off + n \<le> length mem" and "s_world s = w"
  shows "read_fully os fd n off sz mem s =
    Some (Ok (Some n, take (off + sz) mem @ cells_of bs @ drop (off + n) mem) (s\<lparr>s_world := w'\<rparr>))"
  using assms
proof (induction arbitrary: sz mem s rule: delivers.induct)
  case (nothing w)
  then have "sz = n" by simp
  moreover have "s\<lparr>s_world := w\<rparr> = s" using nothing.prems(3) by (cases s) simp
  ultimately show ?case using nothing by (subst read_fully.simps) simp
next
  case (piece w c w1 bs w2)
  let ?mem = "take (off + sz) mem @ cells_of c @ drop (off + sz + length c) mem"
  have fits: "off + sz + length c \<le> length mem" and len: "length ?mem = length mem"
    using piece.prems by auto
  have st: "mem_store (off + sz) (cells_of c) mem = Some ?mem"
    using fits by (simp add: mem_store_def)
  have lt: "sz < n" using piece.hyps(2) piece.prems(1) by (cases c) simp_all
  have "read_fully os fd n off (sz + length c) ?mem (s\<lparr>s_world := w1\<rparr>) =
      Some (Ok (Some n, take (off + (sz + length c)) ?mem @ cells_of bs @ drop (off + n) ?mem)
        (s\<lparr>s_world := w1\<rparr>\<lparr>s_world := w2\<rparr>))"
    using piece.prems len by (intro piece.IH) simp_all
  moreover have "take (off + (sz + length c)) ?mem = take (off + sz) mem @ cells_of c"
    using fits by (cases c) (auto simp: min_def)
  moreover have "drop (off + n) ?mem = drop (off + n) mem"
    using fits piece.prems by (cases c) (auto simp: min_def ac_simps)
  ultimately show ?case
    using piece.hyps(1) lt st piece.prems(3) by (subst read_fully.simps) simp
qed

text \<open>At the end of the stream \<^verbatim>\<open>read\<close> returns zero, and the loop goes on for ever.\<close>

lemma read_fully_at_end:
  assumes "read_fully os fd n off sz mem s = Some r"
  shows "\<not> (sz < n \<and> off + n \<le> length mem \<and> s_world s \<in> W \<and>
      (\<forall>w \<in> W. \<exists>w' \<in> W. os_read os fd n w = (Some [], w')))"
proof (rule read_fully.raw_induct[where P = "\<lambda>os fd n off sz mem s r. \<not> (sz < n \<and>
      off + n \<le> length mem \<and> s_world s \<in> W \<and> (\<forall>w \<in> W. \<exists>w' \<in> W. os_read os fd n w = (Some [], w')))",
      OF _ assms], rule notI)
  fix loop :: "'a os \<Rightarrow> int \<Rightarrow> nat \<Rightarrow> nat \<Rightarrow> nat \<Rightarrow> cells \<Rightarrow> 'a st \<Rightarrow> ('a st, nat option \<times> cells) out option"
    and os :: "'a os" and fd n off sz mem s r
  assume IH: "\<And>os fd n off sz mem s r. loop os fd n off sz mem s = Some r \<Longrightarrow> \<not> (sz < n \<and>
      off + n \<le> length mem \<and> s_world s \<in> W \<and> (\<forall>w \<in> W. \<exists>w' \<in> W. os_read os fd n w = (Some [], w')))"
    and run: "(if sz < n then case os_read os fd n (s_world s) of
        (None, w) \<Rightarrow> Some (Ok (None, mem) (s\<lparr>s_world := w\<rparr>))
      | (Some bs, w) \<Rightarrow> (case mem_store (off + sz) (cells_of bs) mem of None \<Rightarrow> Some (Crash Out_of_bounds)
          | Some mem' \<Rightarrow> loop os fd n off (sz + length bs) mem' (s\<lparr>s_world := w\<rparr>))
      else Some (Ok (Some sz, mem) s)) = Some r"
    and pre: "sz < n \<and> off + n \<le> length mem \<and> s_world s \<in> W \<and>
      (\<forall>w \<in> W. \<exists>w' \<in> W. os_read os fd n w = (Some [], w'))"
  then obtain w' where w: "w' \<in> W" "os_read os fd n (s_world s) = (Some [], w')" by blast
  have "mem_store (off + sz) [] mem = Some mem" using pre by (simp add: mem_store_def)
  with w run pre have "loop os fd n off sz mem (s\<lparr>s_world := w'\<rparr>) = Some r" by simp
  from IH[OF this] pre w show False by simp
qed

lemma read_fully_hangs:
  assumes "s_world s \<in> W" and "\<forall>w \<in> W. \<exists>w' \<in> W. os_read os fd n w = (Some [], w')"
    and "sz < n" and "off + n \<le> length mem"
  shows "read_fully os fd n off sz mem s = None"
  using read_fully_at_end[of os fd n off sz mem s _ W] assms
  by (cases "read_fully os fd n off sz mem s") blast+


section \<open>A reply as it is framed and started\<close>

text \<open>
  \<open>answers os fd payload w w'\<close>: the socket delivers a record mark that announces \<open>payload\<close>,
  then the payload. The top bit of the mark (last fragment) may be set or not.
\<close>

definition answers :: "'w os \<Rightarrow> int \<Rightarrow> u8 list \<Rightarrow> 'w \<Rightarrow> 'w \<Rightarrow> bool" where
  "answers os fd payload w w' \<longleftrightarrow> (\<exists>mark w1. mark AND 0x7fffffff = word_of_nat (length payload) \<and>
     delivers os fd 4 (be32 mark) w w1 \<and> delivers os fd (length payload) payload w1 w')"

lemma those_cells [simp]: "those (cells_of bs) = Some bs"
  by (induction bs) simp_all

lemma read_response_ok:
  assumes ans: "answers os (c_fd (s_client s)) payload (s_world s) w'"
    and b: "rep (get_buf w (s_client s)) []" and len: "length payload \<le> limit"
  shows "\<exists>b. read_response os w s = Some (Ok () (s\<lparr>s_client := set_buf w b (s_client s), s_world := w'\<rparr>)) \<and>
    cur b payload \<and> b_capacity (get_buf w (s_client s)) \<le> b_capacity b"
proof -
  let ?n = "word_of_nat (length payload) :: u32"
  have n: "unat ?n = length payload" using len by (simp add: limit_def unat_of_nat_small)
  from ans obtain mark w1 where mark: "mark AND 0x7fffffff = ?n"
    and d1: "delivers os (c_fd (s_client s)) 4 (be32 mark) (s_world s) w1"
    and d2: "delivers os (c_fd (s_client s)) (length payload) payload w1 w'"
    by (auto simp: answers_def)
  have r1: "read_fully os (c_fd (s_client s)) 4 0 0 (fresh_cells 4) s =
      Some (Ok (Some 4, cells_of (be32 mark)) (s\<lparr>s_world := w1\<rparr>))"
    using read_fully_delivered[OF d1, of 0 0 "fresh_cells 4" s] by (simp add: fresh_cells_def)
  obtain b1 where b1: "buffer_extend ?n (get_buf w (s_client s)) = Some (Ok () b1)" "rep b1 []"
      "length payload \<le> unat (b_capacity b1)" "b_capacity (get_buf w (s_client s)) \<le> b_capacity b1"
    using buffer_extend_rep[OF b, of ?n] n len by auto
  let ?s1 = "s\<lparr>s_client := set_buf w b1 (s_client s), s_world := w1\<rparr>"
  let ?mem = "cells_of payload @ drop (length payload) (b_contents b1)"
  note wb = wf_bufD[OF repD(1)[OF b1(2)]] and rb = repD[OF b1(2)]
  have r2: "read_fully os (c_fd (s_client s)) (length payload) 0 0 (b_contents b1) ?s1 =
      Some (Ok (Some (length payload), ?mem) (?s1\<lparr>s_world := w'\<rparr>))"
    using read_fully_delivered[OF d2, of 0 0 "b_contents b1" ?s1] b1(3) wb by simp
  let ?b = "b1\<lparr>b_contents := ?mem, b_end := ?n\<rparr>"
  have "length ?mem = length (b_contents b1)" using b1(3) wb by simp
  then have "cur ?b payload"
    using rb wb n b1(3) by (simp add: cur_def wf_buf_def data_def word_le_nat_alt)
  moreover have "read_response os w s =
      Some (Ok () (s\<lparr>s_client := set_buf w ?b (s_client s), s_world := w'\<rparr>))"
    using r1 r2 b1(1) n rb(2) mark
    by (simp add: read_response_def bnd_Ok on_buf_Ok codec_simps Let_def)
  ultimately show ?thesis using b1(4) by auto
qed

text \<open>The head of the reply to a call with the transaction \<open>xid\<close>, up to the status of the compound.\<close>

definition reply_head :: "u32 \<Rightarrow> u32 \<Rightarrow> u8 list" where
  "reply_head xid nstatus = be32 xid @ be32 1 @ be32 NFS4_OK @ be32 0 @ be32 0 @ be32 0 @ be32 nstatus"

lemma bufless_flag: "beside (\<lambda>s. s\<lparr>s_bad := x\<rparr>)"
  by (simp add: beside_def)

lemma goes_client [go]:
  assumes "\<And>w b c. f (set_buf w b c) = f c"
  shows "goes w (gets (\<lambda>s. f (s_client s))) t bs (f (s_client t)) t bs"
  using assms by (auto simp: goes_def at_def)

lemma goes_parse_rpc:
  assumes "c_xid (s_client t) = xid"
  shows "goes w (parse_rpc w) t (reply_head xid NFS4_OK @ be32 0 @ bs) () (t\<lparr>s_bad := False\<rparr>) bs"
proof -
  have xid: "goes w (gets (\<lambda>s. c_xid (s_client s))) (t\<lparr>s_bad := False\<rparr>) r xid (t\<lparr>s_bad := False\<rparr>) r" for r
    using goes_client[of c_xid w "t\<lparr>s_bad := False\<rparr>" r] assms by simp
  show ?thesis
    unfolding parse_rpc_def reply_head_def append_assoc
    by (rule goes_bnd[OF goes_modify[OF bufless_flag]], rule goes_bnd[OF xid],
        (rule goes_bnd[OF goes_verify] goes_bnd[OF goes_read32] goes_verify
          | simp only: simp_thms if_False)+)
qed

lemma fails_nfs_error: "codestring nfsstatus v = Some cause \<Longrightarrow> fails w (nfs_error v) t bs cause t bs"
  by (simp add: nfs_error_def fails_def)

lemma fails_parse_rpc:
  assumes "c_xid (s_client t) = xid" and "nstatus \<noteq> NFS4_OK" and "codestring nfsstatus nstatus = Some cause"
  shows "fails w (parse_rpc w) t (reply_head xid nstatus @ bs) cause
    (t\<lparr>s_bad := nstatus = NFS4ERR_BADSESSION\<rparr>) bs"
proof -
  have xid: "goes w (gets (\<lambda>s. c_xid (s_client s))) (t\<lparr>s_bad := False\<rparr>) r xid (t\<lparr>s_bad := False\<rparr>) r" for r
    using goes_client[of c_xid w "t\<lparr>s_bad := False\<rparr>" r] assms by simp
  have "goes w (if nstatus = NFS4ERR_BADSESSION then modify (\<lambda>s. s\<lparr>s_bad := True\<rparr>) else ret ())
      (t\<lparr>s_bad := False\<rparr>) bs () (t\<lparr>s_bad := nstatus = NFS4ERR_BADSESSION\<rparr>) bs"
    using goes_modify[OF bufless_flag[of True], of w "t\<lparr>s_bad := False\<rparr>" bs]
      goes_ret[of w "()" "t\<lparr>s_bad := False\<rparr>" bs] by auto
  note last = fails_bnd_later[OF this fails_nfs_error[OF assms(3)]]
  show ?thesis
    unfolding parse_rpc_def reply_head_def append_assoc
    by (rule fails_bnd_later[OF goes_modify[OF bufless_flag]], rule fails_bnd_later[OF xid],
        (rule fails_bnd_later[OF goes_verify] fails_bnd_later[OF goes_read32] last
          | simp only: simp_thms if_False if_True assms(2))+)
qed


section \<open>Skipping to the result\<close>

text \<open>The results \<^verbatim>\<open>read_until\<close> knows how to step over.\<close>

datatype past =
    Past_sequence "u8 list" u32 "u8 list"
  | Past_putrootfh
  | Past_putfh
  | Past_lookup

fun x_past :: "past \<Rightarrow> u8 list" where
  "x_past (Past_sequence sess sq slots) = be32 OP_SEQUENCE @ be32 0 @ sess @ be32 sq @ slots"
| "x_past Past_putrootfh = be32 OP_PUTROOTFH @ be32 0"
| "x_past Past_putfh = be32 OP_PUTFH @ be32 0"
| "x_past Past_lookup = be32 OP_LOOKUP @ be32 0"

fun wf_past :: "past \<Rightarrow> bool" where
  "wf_past (Past_sequence sess sq slots) \<longleftrightarrow> length sess = 16 \<and> length slots = 16"
| "wf_past _ \<longleftrightarrow> True"

definition stepped_over :: "u32 set" where
  "stepped_over = {OP_SEQUENCE, OP_PUTROOTFH, OP_PUTFH, OP_LOOKUP}"

lemmas step_ops = OP_SEQUENCE_def OP_PUTROOTFH_def OP_PUTFH_def OP_LOOKUP_def

lemma read_until_unfold:
  "read_until_loop w which =
     bnd (on_buf w read_beu32) (\<lambda>op.
       if op = which then ret ()
       else
       bnd (on_buf w read_beu32) (\<lambda>code.
         if code \<noteq> 0 then nfs_error code
         else if op = OP_SEQUENCE then
           bnd (on_buf w (skip (word_of_nat NFS4_SESSIONID_SIZE))) (\<lambda>_.
           bnd (on_buf w read_beu32) (\<lambda>seq.
           bnd (on_buf w (skip 16)) (\<lambda>_. read_until_loop w which)))
         else if op = OP_PUTROOTFH then read_until_loop w which
         else if op = OP_PUTFH then read_until_loop w which
         else if op = OP_LOOKUP then read_until_loop w which
         else err ''unhandled scan code''))"
  by (rule ext) (rule read_until_loop.simps)

lemma goes_read_until_found: "goes w (read_until_loop w which) t (be32 which @ bs) () t bs"
  by (subst read_until_unfold, rule goes_bnd[OF goes_read32]) (simp add: goes_ret del: ret_run)

lemma goes_read_until_plain:
  assumes "goes w (read_until_loop w which) t bs () t' bs'" and "op \<in> {OP_PUTROOTFH, OP_PUTFH, OP_LOOKUP}"
    and "op \<noteq> which"
  shows "goes w (read_until_loop w which) t (be32 op @ be32 0 @ bs) () t' bs'"
proof -
  have ops: "op \<noteq> OP_SEQUENCE" "op = OP_PUTROOTFH \<or> op = OP_PUTFH \<or> op = OP_LOOKUP"
    using assms(2) by (auto simp: step_ops)
  show ?thesis
    by (subst read_until_unfold, rule goes_bnd[OF goes_read32], subst if_not_P[OF assms(3)],
        rule goes_bnd[OF goes_read32]) (use ops assms(1) in auto)
qed

lemma goes_read_until_sequence:
  assumes "goes w (read_until_loop w which) t bs () t' bs'" and "OP_SEQUENCE \<noteq> which"
    and "length ss = 16" and "length slots = 16"
  shows "goes w (read_until_loop w which) t (be32 OP_SEQUENCE @ be32 0 @ ss @ be32 sq @ slots @ bs) () t' bs'"
proof -
  have len: "length ss = unat (word_of_nat NFS4_SESSIONID_SIZE :: u32)"
      "length slots = unat (16 :: u32)" using assms by (simp_all add: size_defs)
  from assms(2) show ?thesis
    by (subst read_until_unfold, intro goes_bnd[OF goes_read32])
      (simp, intro goes_bnd[OF goes_read32], simp,
       rule goes_bnd[OF goes_skip[OF len(1)]], rule goes_bnd[OF goes_read32],
       rule goes_bnd[OF goes_skip[OF len(2)]], rule assms(1))
qed

lemma goes_read_until_step:
  assumes "goes w (read_until_loop w which) t bs () t' bs'" and "wf_past d" and "which \<notin> stepped_over"
  shows "goes w (read_until_loop w which) t (x_past d @ bs) () t' bs'"
  using assms goes_read_until_plain[OF assms(1)] goes_read_until_sequence[OF assms(1)]
  by (cases d) (auto simp: stepped_over_def)

lemma goes_read_until:
  assumes "list_all wf_past ds" and "which \<notin> stepped_over"
  shows "goes w (read_until w which) t (be32 n @ concat (map x_past ds) @ be32 which @ bs) () t bs"
proof -
  have "goes w (read_until_loop w which) t (concat (map x_past ds) @ be32 which @ bs) () t bs"
    using assms(1)
    by (induction ds) (simp_all add: goes_read_until_found goes_read_until_step[OF _ _ assms(2)])
  then show ?thesis unfolding read_until_def by (rule goes_bnd[OF goes_read32])
qed

lemma fails_read_until_here:
  assumes "op \<noteq> which" and "code \<noteq> 0" and "codestring nfsstatus code = Some cause"
  shows "fails w (read_until_loop w which) t (be32 op @ be32 code @ bs) cause t bs"
  by (subst read_until_unfold, rule fails_bnd_later[OF goes_read32], subst if_not_P[OF assms(1)],
      rule fails_bnd_later[OF goes_read32]) (simp add: fails_nfs_error[OF assms(3)] assms(2))


section \<open>One transaction\<close>

text \<open>What \<^verbatim>\<open>base_transact\<close> does after the request was sent.\<close>

definition receive :: "'w os \<Rightarrow> u32 \<Rightarrow> bufref \<Rightarrow> ('w st, unit) prog" where
  "receive os op w =
     bnd (on_buf w (modify (\<lambda>b. b\<lparr>b_start := 0, b_end := 0\<rparr>))) (\<lambda>_.
     bnd (read_response os w) (\<lambda>_.
     bnd (parse_rpc w) (\<lambda>_.
     bnd (read_until w op) (\<lambda>_.
     bnd (on_buf w read_beu32) (\<lambda>code.
     if code = 0 then ret () else nfs_error code)))))"

lemma base_transact_alt: "base_transact os r op w = bnd (rpc_send os r) (\<lambda>_. receive os op w)"
  by (simp add: base_transact_def receive_def)

text \<open>
  The reply to a call: the results of the operations before \<open>op\<close>, then \<open>op\<close> with the status
  \<open>code\<close> and what follows it.
\<close>

definition reply :: "u32 \<Rightarrow> past list \<Rightarrow> u32 \<Rightarrow> u32 \<Rightarrow> u8 list \<Rightarrow> u8 list" where
  "reply xid ds op code rest = reply_head xid NFS4_OK @ be32 0 @ be32 (word_of_nat (length ds + 1)) @
     concat (map x_past ds) @ be32 op @ be32 code @ rest"

text \<open>The reply of a server that stopped at the first operation with the status \<open>nstatus\<close>.\<close>

definition refusal :: "u32 \<Rightarrow> u32 \<Rightarrow> u8 list \<Rightarrow> u8 list" where
  "refusal xid nstatus rest = reply_head xid nstatus @ rest"

definition received :: "bufref \<Rightarrow> buffer \<Rightarrow> 'w \<Rightarrow> bool \<Rightarrow> 'w st \<Rightarrow> 'w st" where
  "received w b world bad s =
     s\<lparr>s_client := set_buf w b (s_client s), s_bad := bad, s_world := world\<rparr>"

lemma received_simps [simp]:
  "s_client (received w b world bad s) = set_buf w b (s_client s)"
  "s_bad (received w b world bad s) = bad"
  "s_world (received w b world bad s) = world"
  "s_file (received w b world bad s) = s_file s"
  "s_heap (received w b world bad s) = s_heap s"
  "s_mem (received w b world bad s) = s_mem s"
  by (simp_all add: received_def)

lemma receive_reads:
  assumes ans: "answers os (c_fd (s_client s)) payload (s_world s) w'"
    and b: "wf_buf (get_buf w (s_client s))" and len: "length payload \<le> limit"
  obtains b s1 where "receive os op w s = bnd (parse_rpc w) (\<lambda>_.
     bnd (read_until w op) (\<lambda>_.
     bnd (on_buf w read_beu32) (\<lambda>code.
     if code = 0 then ret () else nfs_error code))) s1"
    and "at w s1 (received w b w' (s_bad s) s) payload"
    and "wf_buf b" and "b_capacity (get_buf w (s_client s)) \<le> b_capacity b"
proof -
  let ?b0 = "(get_buf w (s_client s))\<lparr>b_start := 0, b_end := 0\<rparr>"
  let ?s = "s\<lparr>s_client := set_buf w ?b0 (s_client s)\<rparr>"
  have r: "on_buf w (modify (\<lambda>b. b\<lparr>b_start := 0, b_end := 0\<rparr>)) s = Some (Ok () ?s)"
    by (rule on_buf_Ok) simp
  obtain b1 where b1: "read_response os w ?s =
      Some (Ok () (?s\<lparr>s_client := set_buf w b1 (s_client ?s), s_world := w'\<rparr>))"
      "cur b1 payload" "b_capacity (get_buf w (s_client ?s)) \<le> b_capacity b1"
    using read_response_ok[of os ?s payload w' w] ans len wf_reset[OF b] by auto
  let ?s1 = "received w b1 w' (s_bad s) s"
  have eq: "s\<lparr>s_client := set_buf w b1 (s_client s), s_world := w'\<rparr> = ?s1"
    by (cases s) (simp add: received_def)
  have "at w ?s1 ?s1 payload" using b1(2) by (intro at_start) simp
  moreover have "wf_buf b1" using b1(2) by (simp add: cur_def)
  ultimately show thesis
    using that[of ?s1 b1] b1(1,3) eq r by (simp add: receive_def bnd_Ok)
qed

lemma goesD: "goes w m t bs a t' bs' \<Longrightarrow> at w s t bs \<Longrightarrow> \<exists>s'. m s = Some (Ok a s') \<and> at w s' t' bs'"
  by (simp add: goes_def)

lemma failsD: "fails w m t bs c t' bs' \<Longrightarrow> at w s t bs \<Longrightarrow> \<exists>s'. m s = Some (Err c s') \<and> at w s' t' bs'"
  by (simp add: fails_def)

lemma received_bad: "(received w b world bad s)\<lparr>s_bad := x\<rparr> = received w b world x s"
  by (simp add: received_def)

lemma receive_ok:
  assumes "answers os (c_fd (s_client s)) (reply (c_xid (s_client s)) ds op 0 rest) (s_world s) w'"
    and "wf_buf (get_buf w (s_client s))" and "length (reply (c_xid (s_client s)) ds op 0 rest) \<le> limit"
    and "list_all wf_past ds" and "op \<notin> stepped_over"
  shows "\<exists>b s'. receive os op w s = Some (Ok () s') \<and> at w s' (received w b w' False s) rest \<and>
    wf_buf b \<and> b_capacity (get_buf w (s_client s)) \<le> b_capacity b"
proof -
  let ?k = "bnd (parse_rpc w) (\<lambda>_. bnd (read_until w op) (\<lambda>_.
     bnd (on_buf w read_beu32) (\<lambda>code. if code = 0 then ret () else nfs_error code)))"
  obtain b s1 where b: "receive os op w s = ?k s1"
      "at w s1 (received w b w' (s_bad s) s) (reply (c_xid (s_client s)) ds op 0 rest)"
      "wf_buf b" "b_capacity (get_buf w (s_client s)) \<le> b_capacity b"
    using receive_reads[OF assms(1-3)] .
  have fin: "goes w (if (0 :: u32) = 0 then ret () else nfs_error 0) (received w b w' False s) rest () (received w b w' False s) rest"
    by (simp add: goes_ret del: ret_run)
  have "goes w ?k (received w b w' (s_bad s) s) (reply (c_xid (s_client s)) ds op 0 rest) ()
      (received w b w' False s) rest"
    unfolding reply_def
    by (rule goes_bnd[OF goes_parse_rpc], simp, unfold received_bad,
        rule goes_bnd[OF goes_read_until[OF assms(4,5)]], rule goes_bnd[OF goes_read32], rule fin)
  from goesD[OF this b(2)] show ?thesis using b by auto
qed

lemma receive_refused:
  assumes "answers os (c_fd (s_client s)) (refusal (c_xid (s_client s)) nstatus rest) (s_world s) w'"
    and "wf_buf (get_buf w (s_client s))" and "length (refusal (c_xid (s_client s)) nstatus rest) \<le> limit"
    and "nstatus \<noteq> NFS4_OK" and "codestring nfsstatus nstatus = Some cause"
  shows "\<exists>b s'. receive os op w s = Some (Err cause s') \<and>
    at w s' (received w b w' (nstatus = NFS4ERR_BADSESSION) s) rest \<and>
    wf_buf b \<and> b_capacity (get_buf w (s_client s)) \<le> b_capacity b"
proof -
  let ?k = "bnd (parse_rpc w) (\<lambda>_. bnd (read_until w op) (\<lambda>_.
     bnd (on_buf w read_beu32) (\<lambda>code. if code = 0 then ret () else nfs_error code)))"
  obtain b s1 where b: "receive os op w s = ?k s1"
      "at w s1 (received w b w' (s_bad s) s) (refusal (c_xid (s_client s)) nstatus rest)"
      "wf_buf b" "b_capacity (get_buf w (s_client s)) \<le> b_capacity b"
    using receive_reads[OF assms(1-3)] .
  have "fails w ?k (received w b w' (s_bad s) s) (refusal (c_xid (s_client s)) nstatus rest) cause
      (received w b w' (nstatus = NFS4ERR_BADSESSION) s) rest"
    unfolding refusal_def
    using fails_parse_rpc[OF refl assms(4,5), of w "received w b w' (s_bad s) s" rest]
    by (intro fails_bnd_here) (simp add: received_bad)
  from failsD[OF this b(2)] show ?thesis using b by auto
qed


section \<open>Transactions without a lost session\<close>

text \<open>A program that neither reads nor writes the flag behind \<^verbatim>\<open>badsession\<close>.\<close>

definition flagless :: "('w st, 'a) prog \<Rightarrow> bool" where
  "flagless m \<longleftrightarrow> (\<forall>s x. m (s\<lparr>s_bad := x\<rparr>) = map_option (map_out (\<lambda>t. t\<lparr>s_bad := x\<rparr>) id) (m s))"

named_theorems flag \<open>programs that leave the flag alone\<close>

lemma flagless_bnd [flag]:
  assumes "flagless m" and "\<And>a. flagless (k a)"
  shows "flagless (bnd m k)"
  unfolding flagless_def
proof (intro allI)
  fix s :: "'a st" and x
  have m: "m (s\<lparr>s_bad := x\<rparr>) = map_option (map_out (\<lambda>t. t\<lparr>s_bad := x\<rparr>) id) (m s)"
    using assms(1) by (simp add: flagless_def)
  show "bnd m k (s\<lparr>s_bad := x\<rparr>) = map_option (map_out (\<lambda>t. t\<lparr>s_bad := x\<rparr>) id) (bnd m k s)"
    using assms(2) by (simp add: bnd_def m flagless_def split: option.split out.split)
qed

lemma flagless_on_buf [flag]: "flagless (on_buf w m)"
  by (auto simp: flagless_def on_buf_def on_client_def zoom_def option.map_comp o_def out.map_comp
      intro!: option.map_cong out.map_cong)

lemma flagless_client [flag]: "flagless (gets (\<lambda>s. f (s_client s)))"
  by (simp add: flagless_def)

lemma flagless_world [flag]: "flagless (on_world f)"
  by (simp add: flagless_def on_world_def split: prod.split)

lemma flagless_check [flag]: "flagless (check c b)"
  by (simp add: flagless_def)

lemma flagless_rpc_send: "flagless (rpc_send os r)"
  unfolding rpc_send_def by (intro flag)

lemma flaglessD: "flagless m \<Longrightarrow> m s = Some (Ok a t) \<Longrightarrow> m (s\<lparr>s_bad := x\<rparr>) = Some (Ok a (t\<lparr>s_bad := x\<rparr>))"
  by (simp add: flagless_def)

lemma flagless_keeps:
  assumes "flagless m" and "m s = Some (Ok a t)"
  shows "s_bad t = s_bad s"
proof -
  have "s\<lparr>s_bad := s_bad s\<rparr> = s" by simp
  with flaglessD[OF assms, of "s_bad s"] assms(2) have "t = t\<lparr>s_bad := s_bad s\<rparr>" by simp
  then show ?thesis by (metis st.select_convs(4) st.update_convs(4) st.surjective)
qed

lemma bnd_OkE:
  assumes "bnd m k s = Some (Ok a t)"
  obtains r s1 where "m s = Some (Ok r s1)" and "k r s1 = Some (Ok a t)"
  using assms by (auto simp: bnd_def split: option.splits out.splits)

lemma transact_loop_step:
  "transact_loop os r op w tries st s =
     (if tries < 2 \<and> s_bad s then
        bnd (status_of (base_transact os r op w)) (\<lambda>st.
        bnd (gets s_bad) (\<lambda>bad.
          if bad then
            bnd (rpc_connection_with os (transact os)) (\<lambda>_.
            bnd (replay_rpc r) (\<lambda>_.
            transact_loop os r op w (Suc tries) st))
          else transact_loop os r op w tries st)) s
      else of_status st s)"
proof -
  have "(\<lambda>r op w. with_flag True (transact_loop os r op w 0 None)) = transact os"
    by (intro ext) (simp add: transact_def)
  then show ?thesis by (subst transact_loop.simps) (simp only:)
qed

lemma transact_loop_settled: "\<not> s_bad s \<Longrightarrow> transact_loop os r op w tries st s = of_status st s"
  by (subst transact_loop_step) simp

lemma transact_loop_once:
  assumes "status_of (base_transact os r op w) (s\<lparr>s_bad := True\<rparr>) = Some (Ok st s')" and "\<not> s_bad s'"
  shows "transact_loop os r op w 0 None (s\<lparr>s_bad := True\<rparr>) = of_status st s'"
proof (subst transact_loop_step)
  show "(if 0 < (2 :: nat) \<and> s_bad (s\<lparr>s_bad := True\<rparr>) then
        bnd (status_of (base_transact os r op w)) (\<lambda>st.
        bnd (gets s_bad) (\<lambda>bad.
          if bad then
            bnd (rpc_connection_with os (transact os)) (\<lambda>_.
            bnd (replay_rpc r) (\<lambda>_.
            transact_loop os r op w (Suc 0) st))
          else transact_loop os r op w 0 st)) (s\<lparr>s_bad := True\<rparr>)
      else of_status None (s\<lparr>s_bad := True\<rparr>)) = of_status st s'"
    using assms by (simp add: bnd_Ok[of "status_of (base_transact os r op w)"] transact_loop_settled)
qed

lemma transact_Ok:
  assumes "base_transact os r op w (s\<lparr>s_bad := True\<rparr>) = Some (Ok () s')" and "\<not> s_bad s'"
  shows "transact os r op w s = Some (Ok () (s'\<lparr>s_bad := s_bad s\<rparr>))"
proof -
  have "status_of (base_transact os r op w) (s\<lparr>s_bad := True\<rparr>) = Some (Ok None s')"
    using assms(1) by (simp add: status_of_def)
  then show ?thesis
    unfolding transact_def with_flag_def using assms(2) by (simp add: transact_loop_once)
qed

lemma transact_Err:
  assumes "base_transact os r op w (s\<lparr>s_bad := True\<rparr>) = Some (Err c s')" and "\<not> s_bad s'"
  shows "transact os r op w s = Some (Err c (s'\<lparr>s_bad := s_bad s\<rparr>))"
proof -
  have "status_of (base_transact os r op w) (s\<lparr>s_bad := True\<rparr>) = Some (Ok (Some c) s')"
    using assms(1) by (simp add: status_of_def)
  then show ?thesis
    unfolding transact_def with_flag_def using assms(2) by (simp add: transact_loop_once)
qed

text \<open>A client between two calls: both buffers can take a request.\<close>

definition idle :: "client \<Rightarrow> bool" where
  "idle c \<longleftrightarrow> ready Forward c \<and> ready Reverse c"

lemma idle_wf: "idle c \<Longrightarrow> wf_buf (get_buf w c)"
  by (cases w) (simp_all add: idle_def ready_def)

lemma ready_rep: "rep b msg \<Longrightarrow> 92 \<le> length msg \<Longrightarrow> wf_client c \<Longrightarrow> ready w (set_buf w b c)"
  using repD[of b msg] wf_bufD[of b] by (simp add: ready_def)

lemma ready_other: "u \<noteq> w \<Longrightarrow> ready u (set_buf w b c) = ready u c"
  by (simp add: ready_def get_set_buf_other)

lemma at_flag: "at w s t bs \<Longrightarrow> at w (s\<lparr>s_bad := x\<rparr>) (t\<lparr>s_bad := x\<rparr>) bs"
  by (fastforce simp: at_def)

text \<open>
  What the two halves of a call say together: after \<open>m\<close> has built its request in \<open>u\<close>, and the
  socket has taken it, the state is \<open>sent\<close>.
\<close>

lemma sends_sent:
  assumes m: "sends os u (bnd m (rpc_send os)) s msg c'"
    and wr: "os_write os (c_fd (s_client s)) msg (s_world s) = (int (length msg), w1)"
  obtains r s0 b where "m s = Some (Ok r s0)" and "rep b msg"
    and "rpc_send os r (s0\<lparr>s_bad := x\<rparr>) = Some (Ok () (s\<lparr>s_client := set_buf u b c', s_bad := x, s_world := w1\<rparr>))"
    and "s_bad s0 = s_bad s"
proof -
  obtain b where b: "rep b msg"
      "bnd m (rpc_send os) s = Some (Ok () (s\<lparr>s_client := set_buf u b c', s_world := w1\<rparr>))"
    using m wr by (auto simp: sends_def Let_def)
  then obtain r s0 where r: "m s = Some (Ok r s0)"
      "rpc_send os r s0 = Some (Ok () (s\<lparr>s_client := set_buf u b c', s_world := w1\<rparr>))"
    by (auto elim: bnd_OkE)
  have "s_bad s0 = s_bad s" using flagless_keeps[OF flagless_rpc_send r(2)] by simp
  then show thesis using that[OF r(1) b(1)] flaglessD[OF flagless_rpc_send r(2), of x] by simp
qed


section \<open>A call and its reply\<close>

text \<open>
  \<open>responds os fd msg payload w w'\<close>: in the world \<open>w\<close> the socket takes the message \<open>msg\<close> whole
  and then delivers \<open>payload\<close>. \<open>apart c d\<close>: the clients differ in their buffers only.
\<close>

definition responds :: "'w os \<Rightarrow> int \<Rightarrow> cells \<Rightarrow> u8 list \<Rightarrow> 'w \<Rightarrow> 'w \<Rightarrow> bool" where
  "responds os fd msg payload w w' \<longleftrightarrow> (\<exists>w1. os_write os fd msg w = (int (length msg), w1) \<and>
     answers os fd payload w1 w')"

definition bare :: "client \<Rightarrow> client" where
  "bare c = c\<lparr>c_forward := allocate_buffer 0, c_reverse := allocate_buffer 0\<rparr>"

definition apart :: "client \<Rightarrow> client \<Rightarrow> bool" where
  "apart c d \<longleftrightarrow> bare c = bare d"

lemma apart_refl [simp]: "apart c c"
  by (simp add: apart_def)

lemma apart_trans: "apart a b \<Longrightarrow> apart b c \<Longrightarrow> apart a c"
  by (simp add: apart_def)

lemma bare_set_buf [simp]: "bare (set_buf w b c) = bare c"
  by (cases w) (simp_all add: bare_def)

lemma apart_set_buf [simp]: "apart (set_buf w b c) d \<longleftrightarrow> apart c d"
  by (simp add: apart_def)

lemma apart_field: "apart c d \<Longrightarrow> (\<And>c. f c = f (bare c)) \<Longrightarrow> f c = f d"
  unfolding apart_def by metis

lemma apart_fields:
  assumes "apart c d"
  shows "c_fd c = c_fd d" and "c_xid c = c_xid d" and "c_session c = c_session d"
    and "c_sequence c = c_sequence d" and "c_maxreq c = c_maxreq d" and "c_maxresp c = c_maxresp d"
    and "c_instance_verifier c = c_instance_verifier d" and "c_root_filehandle c = c_root_filehandle d"
    and "wf_client c = wf_client d"
  by (rule apart_field[OF assms], simp add: bare_def wf_client_def)+

lemma at_idle:
  assumes "at w s t bs" and "idle (s_client t)"
  obtains c where "s = t\<lparr>s_client := c\<rparr>" and "apart c (s_client t)" and "idle c"
proof -
  from assms(1) obtain b where b: "s = t\<lparr>s_client := set_buf w b (s_client t)\<rparr>" "cur b bs"
      "same_store (get_buf w (s_client t)) b" by (auto simp: at_def)
  have "idle (set_buf w b (s_client t))"
    using assms(2) b(2,3) by (cases w) (simp_all add: idle_def ready_def cur_def same_store_def wf_client_def)
  with b(1) that show thesis by simp
qed

text \<open>The first half of a call, up to the state in which the reply is received.\<close>

lemma call_sent:
  assumes m: "sends os u (bnd m (rpc_send os)) s msg c'"
    and wr: "os_write os (c_fd (s_client s)) msg (s_world s) = (int (length msg), w1)"
    and c': "idle c'" and long: "92 \<le> length msg"
  obtains r s0 s1 where "m s = Some (Ok r s0)" and "s_bad s0 = s_bad s"
    and "base_transact os r op w (s0\<lparr>s_bad := x\<rparr>) = receive os op w s1"
    and "s1 = s\<lparr>s_client := s_client s1, s_bad := x, s_world := w1\<rparr>"
    and "apart (s_client s1) c'" and "idle (s_client s1)"
proof -
  obtain r s0 b where b: "m s = Some (Ok r s0)" "rep b msg" "s_bad s0 = s_bad s"
      "rpc_send os r (s0\<lparr>s_bad := x\<rparr>) = Some (Ok () (s\<lparr>s_client := set_buf u b c', s_bad := x, s_world := w1\<rparr>))"
    using sends_sent[OF m wr, where x = x] by metis
  let ?s1 = "s\<lparr>s_client := set_buf u b c', s_bad := x, s_world := w1\<rparr>"
  have "idle (set_buf u b c')"
    using c' ready_rep[OF b(2) long, of c'] ready_rep[OF b(2) long, of c' u]
    by (cases u) (auto simp: idle_def ready_def wf_client_def)
  moreover have "base_transact os r op w (s0\<lparr>s_bad := x\<rparr>) = receive os op w ?s1"
    unfolding base_transact_alt using b(4) by (rule bnd_Ok)
  ultimately show thesis using that[of r s0 ?s1] b(1,3) by simp
qed

lemma idle_received: "idle (s_client s) \<Longrightarrow> wf_buf b \<Longrightarrow>
   b_capacity (get_buf w (s_client s)) \<le> b_capacity b \<Longrightarrow> idle (s_client (received w b w' x s))"
  by (cases w) (auto simp: idle_def ready_def received_def wf_client_def word_le_nat_alt)


text \<open>What a call asks of the server, and what it gets.\<close>

definition accepted :: "'w os \<Rightarrow> cells \<Rightarrow> client \<Rightarrow> past list \<Rightarrow> u32 \<Rightarrow> u8 list \<Rightarrow> 'w st \<Rightarrow> 'w \<Rightarrow> bool" where
  "accepted os msg c' ds op rest s w' \<longleftrightarrow>
     responds os (c_fd (s_client s)) msg (reply (c_xid c') ds op 0 rest) (s_world s) w' \<and>
     length (reply (c_xid c') ds op 0 rest) \<le> limit \<and> list_all wf_past ds \<and> op \<notin> stepped_over"

lemma base_call_ok:
  assumes m: "sends os u (bnd m (rpc_send os)) s msg c'" and c': "idle c'" "c_fd c' = c_fd (s_client s)"
    and long: "92 \<le> length msg" and acc: "accepted os msg c' ds op rest s w'"
  obtains r s0 c s' where "m s = Some (Ok r s0)" and "s_bad s0 = s_bad s"
    and "base_transact os r op w (s0\<lparr>s_bad := x\<rparr>) = Some (Ok () s')"
    and "at w s' (s\<lparr>s_client := c, s_bad := False, s_world := w'\<rparr>) rest" and "apart c c'" and "idle c"
proof -
  from acc obtain w1 where wr: "os_write os (c_fd (s_client s)) msg (s_world s) = (int (length msg), w1)"
      and ans: "answers os (c_fd (s_client s)) (reply (c_xid c') ds op 0 rest) w1 w'"
    by (auto simp: accepted_def responds_def)
  obtain r s0 s1 where b: "m s = Some (Ok r s0)" "s_bad s0 = s_bad s"
      "base_transact os r op w (s0\<lparr>s_bad := x\<rparr>) = receive os op w s1"
      "s1 = s\<lparr>s_client := s_client s1, s_bad := x, s_world := w1\<rparr>"
      "apart (s_client s1) c'" "idle (s_client s1)"
    using call_sent[OF m wr c'(1) long] .
  have w1: "s_world s1 = w1" by (subst b(4)) simp
  note f = apart_fields[OF b(5)]
  have "\<exists>b2 s'. receive os op w s1 = Some (Ok () s') \<and> at w s' (received w b2 w' False s1) rest \<and>
      wf_buf b2 \<and> b_capacity (get_buf w (s_client s1)) \<le> b_capacity b2"
    using ans acc idle_wf[OF b(6)]
    by (intro receive_ok[where ds = ds]) (simp_all add: f c' w1 accepted_def)
  then obtain b2 s' where r: "receive os op w s1 = Some (Ok () s')"
      "at w s' (received w b2 w' False s1) rest" and b2: "wf_buf b2"
      "b_capacity (get_buf w (s_client s1)) \<le> b_capacity b2" by blast
  let ?c = "set_buf w b2 (s_client s1)"
  have "received w b2 w' False s1 = s\<lparr>s_client := ?c, s_bad := False, s_world := w'\<rparr>"
    by (subst b(4)) (simp add: received_def)
  moreover have "idle ?c" using idle_received[OF b(6) b2] by simp
  ultimately show thesis using that[of r s0 s' ?c] b r by simp
qed

lemma base_call_refused:
  assumes m: "sends os u (bnd m (rpc_send os)) s msg c'" and c': "idle c'" "c_fd c' = c_fd (s_client s)"
    and long: "92 \<le> length msg"
    and resp: "responds os (c_fd (s_client s)) msg (refusal (c_xid c') nstatus rest) (s_world s) w'"
    and len: "length (refusal (c_xid c') nstatus rest) \<le> limit"
    and st: "nstatus \<noteq> NFS4_OK" "codestring nfsstatus nstatus = Some cause"
  obtains r s0 c s' where "m s = Some (Ok r s0)" and "s_bad s0 = s_bad s"
    and "base_transact os r op w (s0\<lparr>s_bad := x\<rparr>) = Some (Err cause s')"
    and "at w s' (s\<lparr>s_client := c, s_bad := nstatus = NFS4ERR_BADSESSION, s_world := w'\<rparr>) rest"
    and "apart c c'" and "idle c"
proof -
  from resp obtain w1 where wr: "os_write os (c_fd (s_client s)) msg (s_world s) = (int (length msg), w1)"
      and ans: "answers os (c_fd (s_client s)) (refusal (c_xid c') nstatus rest) w1 w'"
    by (auto simp: responds_def)
  obtain r s0 s1 where b: "m s = Some (Ok r s0)" "s_bad s0 = s_bad s"
      "base_transact os r op w (s0\<lparr>s_bad := x\<rparr>) = receive os op w s1"
      "s1 = s\<lparr>s_client := s_client s1, s_bad := x, s_world := w1\<rparr>"
      "apart (s_client s1) c'" "idle (s_client s1)"
    using call_sent[OF m wr c'(1) long] .
  have w1: "s_world s1 = w1" by (subst b(4)) simp
  note f = apart_fields[OF b(5)]
  have "\<exists>b2 s'. receive os op w s1 = Some (Err cause s') \<and>
      at w s' (received w b2 w' (nstatus = NFS4ERR_BADSESSION) s1) rest \<and>
      wf_buf b2 \<and> b_capacity (get_buf w (s_client s1)) \<le> b_capacity b2"
    using ans len st idle_wf[OF b(6)]
    by (intro receive_refused) (simp_all add: f c' w1)
  then obtain b2 s' where r: "receive os op w s1 = Some (Err cause s')"
      "at w s' (received w b2 w' (nstatus = NFS4ERR_BADSESSION) s1) rest" and b2: "wf_buf b2"
      "b_capacity (get_buf w (s_client s1)) \<le> b_capacity b2" by blast
  let ?c = "set_buf w b2 (s_client s1)"
  have "received w b2 w' x s1 = s\<lparr>s_client := ?c, s_bad := x, s_world := w'\<rparr>" for x
    by (subst b(4)) (simp add: received_def)
  moreover have "idle ?c" using idle_received[OF b(6) b2] by simp
  ultimately show thesis using that[of r s0 s' ?c] b r by simp
qed

text \<open>The calls of \<^verbatim>\<open>transact\<close>.\<close>

lemma restore_flag:
  "s_bad s0 = s_bad s \<Longrightarrow> at w s' (s\<lparr>s_client := c, s_bad := x, s_world := w'\<rparr>) rest \<Longrightarrow>
   at w (s'\<lparr>s_bad := s_bad s0\<rparr>) (s\<lparr>s_client := c, s_world := w'\<rparr>) rest"
  using at_flag[of w s' "s\<lparr>s_client := c, s_bad := x, s_world := w'\<rparr>" rest "s_bad s0"]
  by (cases s) (simp del: st_order)

lemma at_bad: "at w s' t bs \<Longrightarrow> s_bad s' = s_bad t"
  by (auto simp: at_def)

lemma call_ok:
  assumes m: "sends os u (bnd m (rpc_send os)) s msg c'" and c': "idle c'" "c_fd c' = c_fd (s_client s)"
    and long: "92 \<le> length msg" and acc: "accepted os msg c' ds op rest s w'"
  obtains c s' where "bnd m (\<lambda>r. transact os r op w) s = Some (Ok () s')"
    and "at w s' (s\<lparr>s_client := c, s_world := w'\<rparr>) rest" and "apart c c'" and "idle c"
proof -
  obtain r s0 c s' where b: "m s = Some (Ok r s0)" "s_bad s0 = s_bad s"
    "base_transact os r op w (s0\<lparr>s_bad := True\<rparr>) = Some (Ok () s')"
    "at w s' (s\<lparr>s_client := c, s_bad := False, s_world := w'\<rparr>) rest" "apart c c'" "idle c"
    using base_call_ok[OF m c' long acc, where x = True] by metis
  have "\<not> s_bad s'" using at_bad[OF b(4)] by simp
  from transact_Ok[OF b(3) this] show thesis
    using that[OF _ restore_flag[OF b(2,4)] b(5,6)] by (simp add: bnd_Ok[where m = m, OF b(1)])
qed

lemma call_refused:
  assumes m: "sends os u (bnd m (rpc_send os)) s msg c'" and c': "idle c'" "c_fd c' = c_fd (s_client s)"
    and long: "92 \<le> length msg"
    and resp: "responds os (c_fd (s_client s)) msg (refusal (c_xid c') nstatus rest) (s_world s) w'"
    and len: "length (refusal (c_xid c') nstatus rest) \<le> limit"
    and st: "nstatus \<noteq> NFS4_OK" "codestring nfsstatus nstatus = Some cause" "nstatus \<noteq> NFS4ERR_BADSESSION"
  obtains c where "bnd m (\<lambda>r. transact os r op w) s = Some (Err cause (s\<lparr>s_client := c, s_world := w'\<rparr>))"
    and "apart c c'" and "idle c"
proof -
  obtain r s0 c s' where b: "m s = Some (Ok r s0)" "s_bad s0 = s_bad s"
    "base_transact os r op w (s0\<lparr>s_bad := True\<rparr>) = Some (Err cause s')"
    "at w s' (s\<lparr>s_client := c, s_bad := nstatus = NFS4ERR_BADSESSION, s_world := w'\<rparr>) rest" "apart c c'" "idle c"
    using base_call_refused[OF m c' long resp len st(1,2), where x = True] by metis
  have "\<not> s_bad s'" using at_bad[OF b(4)] st(3) by simp
  note r = transact_Err[OF b(3) this]
  obtain c2 where "s'\<lparr>s_bad := s_bad s0\<rparr> = s\<lparr>s_client := c, s_world := w'\<rparr>\<lparr>s_client := c2\<rparr>" "apart c2 c" "idle c2"
    using at_idle[OF restore_flag[OF b(2,4)]] b(6) by auto
  then show thesis
    using that[of c2] r b(5) by (simp add: bnd_Ok[where m = m, OF b(1)] apart_trans)
qed

text \<open>A server that closes the connection instead of answering: the call never returns.\<close>

lemma receive_hangs:
  assumes "idle (s_client s)" and "s_world s \<in> W" and "\<forall>w \<in> W. \<exists>w' \<in> W. os_read os (c_fd (s_client s)) 4 w = (Some [], w')"
  shows "receive os op w s = None"
proof -
  let ?b0 = "(get_buf w (s_client s))\<lparr>b_start := 0, b_end := 0\<rparr>"
  let ?s = "s\<lparr>s_client := set_buf w ?b0 (s_client s)\<rparr>"
  have r: "on_buf w (modify (\<lambda>b. b\<lparr>b_start := 0, b_end := 0\<rparr>)) s = Some (Ok () ?s)"
    by (rule on_buf_Ok) simp
  have "read_fully os (c_fd (s_client ?s)) 4 0 0 (fresh_cells 4) ?s = None"
    by (rule read_fully_hangs[where W = W]) (use assms in \<open>simp_all add: fresh_cells_def\<close>)
  then have "read_response os w ?s = None"
    unfolding read_response_def by (simp add: bnd_None)
  then show ?thesis unfolding receive_def by (simp add: bnd_Ok[where m = "on_buf w (modify (\<lambda>b. b\<lparr>b_start := 0, b_end := 0\<rparr>))", OF r] bnd_None)
qed

lemma call_hangs:
  assumes m: "sends os u (bnd m (rpc_send os)) s msg c'" and c': "idle c'" "c_fd c' = c_fd (s_client s)"
    and long: "92 \<le> length msg"
    and wr: "os_write os (c_fd (s_client s)) msg (s_world s) = (int (length msg), w1)"
    and eof: "w1 \<in> W" "\<forall>w \<in> W. \<exists>w' \<in> W. os_read os (c_fd (s_client s)) 4 w = (Some [], w')"
  shows "bnd m (\<lambda>r. bnd (transact os r op w) k) s = None"
proof -
  obtain r s0 s1 where b: "m s = Some (Ok r s0)" "s_bad s0 = s_bad s"
      "base_transact os r op w (s0\<lparr>s_bad := True\<rparr>) = receive os op w s1"
      "s1 = s\<lparr>s_client := s_client s1, s_bad := True, s_world := w1\<rparr>"
      "apart (s_client s1) c'" "idle (s_client s1)"
    using call_sent[OF m wr c'(1) long, where x = True and op = op and w = w] by metis
  have "s_world s1 = w1" by (subst b(4)) simp
  moreover have "c_fd (s_client s1) = c_fd (s_client s)" using apart_fields(1)[OF b(5)] c'(2) by simp
  ultimately have "receive os op w s1 = None" using eof by (intro receive_hangs[OF b(6), where W = W]) simp_all
  then have "status_of (base_transact os r op w) (s0\<lparr>s_bad := True\<rparr>) = None"
    using b(3) by (intro status_of_None) simp
  then have "transact_loop os r op w 0 None (s0\<lparr>s_bad := True\<rparr>) = None"
    by (subst transact_loop_step) (simp add: bnd_None)
  then have "transact os r op w s0 = None" by (simp add: transact_def with_flag_def)
  then show ?thesis by (simp add: bnd_Ok[where m = m, OF b(1)] bnd_None)
qed

text \<open>A reader that returns whatever is left in the buffer, and leaves a well-formed buffer.\<close>

definition total :: "bufref \<Rightarrow> ('w st, 'a) prog \<Rightarrow> bool" where
  "total w m \<longleftrightarrow> (\<forall>s t bs. at w s t bs \<longrightarrow> (\<exists>s' t' bs'. at w s' t' bs' \<and>
     ((\<exists>a. m s = Some (Ok a s')) \<or> (\<exists>c. m s = Some (Err c s')))))"

lemma total_bnd:
  fixes m :: "('w st, 'a) prog"
  assumes "total w m" and "\<And>a. total w (k a)"
  shows "total w (bnd m k)"
  unfolding total_def
proof (intro allI impI)
  fix s t :: "'w st" and bs assume "at w s t bs"
  with assms(1) obtain s' t' bs' where 1: "at w s' t' bs'" "(\<exists>a. m s = Some (Ok a s')) \<or> (\<exists>c. m s = Some (Err c s'))"
    unfolding total_def by metis
  from 1(2) show "\<exists>s' t' bs'. at w s' t' bs' \<and>
      ((\<exists>a. bnd m k s = Some (Ok a s')) \<or> (\<exists>c. bnd m k s = Some (Err c s')))"
  proof
    assume "\<exists>a. m s = Some (Ok a s')"
    then obtain a where a: "m s = Some (Ok a s')" by blast
    from assms(2)[of a] 1(1) obtain s2 t2 bs2 where "at w s2 t2 bs2"
      "(\<exists>b. k a s' = Some (Ok b s2)) \<or> (\<exists>c. k a s' = Some (Err c s2))" unfolding total_def by metis
    then show ?thesis by (auto simp: bnd_Ok[where m = m, OF a])
  next
    assume "\<exists>c. m s = Some (Err c s')"
    with 1(1) show ?thesis by (intro exI[of _ s'] exI[of _ t'] exI[of _ bs']) (auto simp: bnd_Err[where m = m])
  qed
qed

lemma total_simple:
  "total w (ret a)" "total w (err c)" "total w (gets g)" "total w (check c b)" "total w (nfs_error v)"
proof -
  obtain c where "codestring nfsstatus v = Some c" using nfsstatus_answers[of v] by auto
  then show "total w (nfs_error v)" by (auto simp: total_def nfs_error_def)
qed (auto simp: total_def)

lemma total_modify: "beside f \<Longrightarrow> total w (modify f)"
  unfolding total_def using goesD[OF goes_modify] by (metis (no_types, lifting))

lemma total_if: "total w m \<Longrightarrow> total w n \<Longrightarrow> total w (if b then m else n)"
  by simp

lemma total_read32: "total w (on_buf w read_beu32)"
  unfolding total_def
proof (intro allI impI)
  fix s t :: "'a st" and bs assume at: "at w s t bs"
  show "\<exists>s' t' bs'. at w s' t' bs' \<and> ((\<exists>a. on_buf w read_beu32 s = Some (Ok a s')) \<or>
      (\<exists>c. on_buf w read_beu32 s = Some (Err c s')))"
  proof (cases "length bs < 4")
    case True
    then have "get32 bs = Some (Err ''out of data'' bs)" by (simp add: get32_def take_bytes_def bnd_def)
    then have "fails w (on_buf w read_beu32) t bs ''out of data'' t bs"
      by (intro fails_refines[OF refines_on_buf[OF parses_read_beu32]]) (auto simp: bytes_left_def zoom_def)
    from failsD[OF this at] show ?thesis by blast
  next
    case False
    then have "be32 (of_be32 (take 4 bs)) @ drop 4 bs = bs" by (simp add: codec_simps)
    with goesD[OF goes_read32, of w s t "of_be32 (take 4 bs)" "drop 4 bs"] at show ?thesis by auto
  qed
qed

lemma total_verify: "total w (on_buf w (verify_and_adv v))"
  unfolding total_def
proof (intro allI impI)
  fix s t :: "'a st" and bs assume at: "at w s t bs"
  have r: "refines w (on_buf w (verify_and_adv v)) (bytes_left (expect32 v))"
    by (rule refines_on_buf[OF parses_verify])
  show "\<exists>s' t' bs'. at w s' t' bs' \<and> ((\<exists>a. on_buf w (verify_and_adv v) s = Some (Ok a s')) \<or>
      (\<exists>c. on_buf w (verify_and_adv v) s = Some (Err c s')))"
  proof (cases "expect32 v bs")
    case (Some out)
    with refines_Ok[OF r at] refines_Err[OF r at] show ?thesis
      by - (cases out; fastforce simp: bytes_left_def zoom_def expect32_def get32_def take_bytes_def bnd_def split: if_splits)
  qed (simp add: expect32_def get32_def take_bytes_def bnd_def split: if_splits)
qed

lemma total_parse_rpc: "total w (parse_rpc w)"
  unfolding parse_rpc_def
  by (intro total_bnd total_if total_read32 total_verify total_simple total_modify bufless_flag)

text \<open>
  A step over bytes that the reply does not have is not checked, and the bound of the next read
  wraps around: it takes what lies behind the end.
\<close>

lemma small_uint: "unat (w :: u32) < 2 ^ 31 \<Longrightarrow> uint w < 2 ^ 31"
  using of_nat_less_iff[of "unat w" "2 ^ 31", where ?'a = int] by simp

lemma skip_past_end:
  assumes "wf_buf b" and "length (data b) < unat n" and "unat (b_start b) + unat n + 4 \<le> unat (b_capacity b)"
    and "take 4 (drop (unat (b_start b) + unat n) (b_contents b)) = cells_of bs"
  shows "bnd (skip n) (\<lambda>_. read_beu32) b = Some (Ok (of_be32 bs) (b\<lparr>b_start := b_start b + n + 4\<rparr>))"
proof -
  note w = wf_bufD[OF assms(1)] and l = length_data[OF assms(1)]
  have st: "unat (b_start b + n) = unat (b_start b) + unat n"
    using assms(3) w(3) by (intro unat_add_small) simp
  have p: "(2 :: int) ^ 32 = 4294967296" "(2 :: int) ^ 31 = 2147483648" by simp_all
  have ge: "\<not> b_end b - (b_start b + n) < 4"
  proof -
    have lt: "unat (b_end b) < unat (b_start b + n)" using assms(2) l w(1) st by simp
    have "uint (b_end b - (b_start b + n)) = (uint (b_end b) - uint (b_start b + n)) mod 2 ^ 32"
      by (simp add: uint_word_ariths)
    also have "\<dots> = uint (b_end b) - uint (b_start b + n) + 2 ^ 32"
    proof -
      have "uint (b_end b) < uint (b_start b + n)" using lt by (simp add: word_less_nat_alt[symmetric] word_less_def)
      moreover have "0 \<le> uint (b_end b)" "uint (b_start b + n) < 2 ^ 32"
        using unsigned_less[of "b_start b + n", where 'a = int] by simp_all
      ultimately have "0 \<le> uint (b_end b) - uint (b_start b + n) + 2 ^ 32"
          "uint (b_end b) - uint (b_start b + n) + 2 ^ 32 < 2 ^ 32" by linarith+
      then have "(uint (b_end b) - uint (b_start b + n) + 2 ^ 32) mod 2 ^ 32 = uint (b_end b) - uint (b_start b + n) + 2 ^ 32"
        by (rule mod_pos_pos_trivial)
      then show ?thesis by simp
    qed
    finally have e: "uint (b_end b - (b_start b + n)) = uint (b_end b) - uint (b_start b + n) + 2 ^ 32" .
    have "unat (b_start b + n) < 2 ^ 31" using st assms(3) w(3) by linarith
    then have "uint (b_start b + n) < 2 ^ 31" by (rule small_uint)
    moreover have "0 \<le> uint (b_end b)" by simp
    ultimately have "4 \<le> uint (b_end b - (b_start b + n))" unfolding e p by linarith
    then show ?thesis by (simp add: word_less_def)
  qed
  have ml: "mem_load (unat (b_start b) + unat n) 4 (b_contents b) = Some (cells_of bs)"
    using assms(3,4) w(4) by (simp add: mem_load_def)
  show ?thesis
    using ge st by (simp add: skip_def read_beu32_def bnd_def buf_bytes_def buf_load_def ml)
qed

end
