(* ===== verification/Calls.thy ===== *)
theory Calls
  imports Transport
begin

text \<open>
  Every operation of the client as one exchange with the server: which request it puts on the
  wire and what it makes of the answer. \<open>leaves m s a t\<close> is the result of an operation that
  the server carried out, \<open>rejects m s cause t\<close> of one it refused.
\<close>

section \<open>Running a call\<close>

text \<open>
  \<open>leaves m s a t\<close>: in the state \<open>s\<close>, \<open>m\<close> returns \<open>a\<close> and leaves the state \<open>t\<close>, but for what
  the two buffers hold, which can take the next request. \<open>rejects m s cause t\<close>: the same
  with an error status.
\<close>

definition leaves :: "('w st, 'a) prog \<Rightarrow> 'w st \<Rightarrow> 'a \<Rightarrow> 'w st \<Rightarrow> bool" where
  "leaves m s a t \<longleftrightarrow> (\<exists>c. m s = Some (Ok a (t\<lparr>s_client := c\<rparr>)) \<and> apart c (s_client t) \<and> idle c)"

definition rejects :: "('w st, 'a) prog \<Rightarrow> 'w st \<Rightarrow> string \<Rightarrow> 'w st \<Rightarrow> bool" where
  "rejects m s cause t \<longleftrightarrow> (\<exists>c. m s = Some (Err cause (t\<lparr>s_client := c\<rparr>)) \<and> apart c (s_client t) \<and> idle c)"

lemma long_x_call: "92 \<le> length (x_call x ops)"
  by (simp add: length_x_ops)

lemma idle_update:
  assumes "bufless u" and "idle c"
  shows "idle (u c)"
  using assms bufless_get[OF assms(1), of Forward] bufless_get[OF assms(1), of Reverse]
  by (simp add: idle_def ready_def bufless_wf)

lemma idle_ready: "idle c \<Longrightarrow> ready w c"
  by (cases w) (simp_all add: idle_def)

lemma apart_bufless:
  assumes upd: "bufless upd" and "apart c d"
  shows "apart (upd c) (upd d)"
proof -
  have "bare (upd d) = upd (bare d)" for d
    using upd unfolding bufless_def bare_def by (metis set_buf.simps)
  then show ?thesis using assms(2) by (metis apart_def)
qed

text \<open>A call whose reply also changes the client, by \<open>upd\<close>.\<close>

lemma call_updates:
  assumes m: "sends os u (bnd m (rpc_send os)) s msg c'" and c': "idle c'" "c_fd c' = c_fd (s_client s)"
    and long: "92 \<le> length msg" and acc: "accepted os msg c' ds op rest s w'"
    and k: "\<And>c. apart c c' \<Longrightarrow> goes w k (s\<lparr>s_client := c, s_world := w'\<rparr>) rest a (t\<lparr>s_client := upd c\<rparr>) rest'"
    and upd: "bufless upd"
  shows "leaves (bnd m (\<lambda>r. bnd (transact os r op w) (\<lambda>_. k))) s a (t\<lparr>s_client := upd c'\<rparr>)"
proof -
  obtain c s' where b: "bnd m (\<lambda>r. transact os r op w) s = Some (Ok () s')"
      "at w s' (s\<lparr>s_client := c, s_world := w'\<rparr>) rest" "apart c c'" "idle c"
    using call_ok[OF m c' long acc, where w = w] by metis
  obtain s2 where s2: "k s' = Some (Ok a s2)" "at w s2 (t\<lparr>s_client := upd c\<rparr>) rest'"
    using goesD[OF k[OF b(3)] b(2)] by blast
  obtain c2 where c2: "s2 = t\<lparr>s_client := c2\<rparr>" "apart c2 (upd c)" "idle c2"
    using at_idle[OF s2(2)] idle_update[OF upd b(4)] by auto
  have "bnd m (\<lambda>r. bnd (transact os r op w) (\<lambda>_. k)) s = bnd (bnd m (\<lambda>r. transact os r op w)) (\<lambda>_. k) s"
    by (simp add: bnd_assoc)
  also have "\<dots> = k s'" by (rule bnd_Ok[where m = "bnd m (\<lambda>r. transact os r op w)", OF b(1)])
  finally show ?thesis
    using s2(1) c2 apart_bufless[OF upd b(3)] unfolding leaves_def
    by (intro exI[of _ c2]) (simp add: apart_trans)
qed

lemmas call_leaves = call_updates[where upd = "\<lambda>c. c", OF _ _ _ _ _ _ bufless_id]

lemma call_alone:
  assumes m: "sends os u (bnd m (rpc_send os)) s msg c'" and c': "idle c'" "c_fd c' = c_fd (s_client s)"
    and long: "92 \<le> length msg" and acc: "accepted os msg c' ds op rest s w'"
  shows "leaves (bnd m (\<lambda>r. transact os r op w)) s () (s\<lparr>s_client := c', s_world := w'\<rparr>)"
proof -
  have "goes w (ret ()) (s\<lparr>s_client := c, s_world := w'\<rparr>) rest () (s\<lparr>s_world := w'\<rparr>\<lparr>s_client := c\<rparr>) rest" for c
    by (simp add: goes_ret del: ret_run)
  from call_leaves[OF m c' long acc this] show ?thesis by simp
qed

lemma call_rejects:
  assumes m: "sends os u (bnd m (rpc_send os)) s msg c'" and c': "idle c'" "c_fd c' = c_fd (s_client s)"
    and long: "92 \<le> length msg"
    and resp: "responds os (c_fd (s_client s)) msg (refusal (c_xid c') nstatus rest) (s_world s) w'"
    and len: "length (refusal (c_xid c') nstatus rest) \<le> limit"
    and st: "nstatus \<noteq> NFS4_OK" "codestring nfsstatus nstatus = Some cause" "nstatus \<noteq> NFS4ERR_BADSESSION"
  shows "rejects (bnd m (\<lambda>r. bnd (transact os r op w) k)) s cause (s\<lparr>s_client := c', s_world := w'\<rparr>)"
proof -
  obtain c where b: "bnd m (\<lambda>r. transact os r op w) s = Some (Err cause (s\<lparr>s_client := c, s_world := w'\<rparr>))"
      "apart c c'" "idle c"
    using call_refused[OF m c' long resp len st, where w = w] by metis
  have "bnd m (\<lambda>r. bnd (transact os r op w) k) s = bnd (bnd m (\<lambda>r. transact os r op w)) k s"
    by (simp add: bnd_assoc)
  also have "\<dots> = Some (Err cause (s\<lparr>s_client := c, s_world := w'\<rparr>))"
    by (rule bnd_Err[where m = "bnd m (\<lambda>r. transact os r op w)", OF b(1)])
  finally show ?thesis using b(2,3) unfolding rejects_def by (intro exI[of _ c]) simp
qed

text \<open>A call that is accepted, but whose reply the code cannot use.\<close>

lemma call_fails_late:
  assumes m: "sends os u (bnd m (rpc_send os)) s msg c'" and c': "idle c'" "c_fd c' = c_fd (s_client s)"
    and long: "92 \<le> length msg" and acc: "accepted os msg c' ds op rest s w'"
    and k: "\<And>c. apart c c' \<Longrightarrow> fails w k (s\<lparr>s_client := c, s_world := w'\<rparr>) rest cause (t\<lparr>s_client := c\<rparr>) rest'"
  shows "rejects (bnd m (\<lambda>r. bnd (transact os r op w) (\<lambda>_. k))) s cause (t\<lparr>s_client := c'\<rparr>)"
proof -
  obtain c s' where b: "bnd m (\<lambda>r. transact os r op w) s = Some (Ok () s')"
      "at w s' (s\<lparr>s_client := c, s_world := w'\<rparr>) rest" "apart c c'" "idle c"
    using call_ok[OF m c' long acc, where w = w] by metis
  obtain s2 where s2: "k s' = Some (Err cause s2)" "at w s2 (t\<lparr>s_client := c\<rparr>) rest'"
    using failsD[OF k[OF b(3)] b(2)] by blast
  obtain c2 where c2: "s2 = t\<lparr>s_client := c2\<rparr>" "apart c2 c" "idle c2"
    using at_idle[OF s2(2)] b(4) by auto
  have "bnd m (\<lambda>r. bnd (transact os r op w) (\<lambda>_. k)) s = bnd (bnd m (\<lambda>r. transact os r op w)) (\<lambda>_. k) s"
    by (simp add: bnd_assoc)
  also have "\<dots> = k s'" by (rule bnd_Ok[where m = "bnd m (\<lambda>r. transact os r op w)", OF b(1)])
  finally show ?thesis
    using s2(1) c2 apart_trans[OF c2(2) b(3)] unfolding rejects_def by (intro exI[of _ c2]) simp
qed

section \<open>Calls on an open file\<close>

lemma bufless_used_slot: "bufless used_slot"
  unfolding bufless_def wf_client_def used_slot_def by (intro conjI allI; case_tac w; simp)+

lemma idle_used_slot [simp]: "idle c \<Longrightarrow> idle (used_slot c)"
  by (rule idle_update[OF bufless_used_slot])

lemma used_slot_fields [simp]:
  "c_fd (used_slot c) = c_fd c" "c_xid (used_slot c) = c_xid c + 1" "c_sequence (used_slot c) = c_sequence c + 1"
  "c_session (used_slot c) = c_session c" "c_maxresp (used_slot c) = c_maxresp c" "c_maxreq (used_slot c) = c_maxreq c"
  by (simp_all add: used_slot_def)

lemma goes_gets [go]:
  "(\<And>w b. f (t\<lparr>s_client := set_buf w b (s_client t)\<rparr>) = f t) \<Longrightarrow> goes w (gets f) t bs (f t) t bs"
  by (auto simp: goes_def at_def)

lemma read_chunk_ok:
  assumes c: "idle (s_client s)" and f: "wf_file (s_file s)" and mem: "dest + length got \<le> length (s_mem s)"
    and len: "length got < 2 ^ 32"
    and acc: "accepted os
      (x_call (c_xid (s_client s) + 1)
        [op_sequence (s_client s), Putfh (handle (s_file s)), Read (f_latest_sid (s_file s)) off n])
      (used_slot (s_client s)) ds OP_READ (be32 eof @ be32 (word_of_nat (length got)) @ got @ tail) s w'"
  shows "leaves (read_chunk os dest off n) s ()
    (s\<lparr>s_client := used_slot (s_client s),
       s_mem := take dest (s_mem s) @ cells_of got @ drop (dest + length got) (s_mem s), s_world := w'\<rparr>)"
proof -
  let ?k = "bnd (on_buf Reverse (skip 4)) (\<lambda>_.
     bnd (on_buf Reverse read_beu32) (\<lambda>len.
     bnd (on_buf Reverse (load_start (unat len))) (\<lambda>xs.
     bnd (gets (\<lambda>s. mem_store dest xs (s_mem s))) (\<lambda>mem.
     case mem of
       None \<Rightarrow> crash Out_of_bounds
     | Some mem \<Rightarrow> modify (\<lambda>s. s\<lparr>s_mem := mem\<rparr>)))))"
  let ?mem = "take dest (s_mem s) @ cells_of got @ drop (dest + length got) (s_mem s)"
  have n: "length got = unat (word_of_nat (length got) :: u32)" using len by (simp add: unat_of_nat_small)
  have st: "mem_store dest (cells_of got) (s_mem s) = Some ?mem" using mem by (simp add: mem_store_def)
  have k: "goes Reverse ?k (s\<lparr>s_client := c, s_world := w'\<rparr>)
      (be32 eof @ be32 (word_of_nat (length got)) @ got @ tail) ()
      (s\<lparr>s_mem := ?mem, s_world := w'\<rparr>\<lparr>s_client := c\<rparr>) (got @ tail)" for c
  proof (rule goes_bnd[OF goes_skip[of "be32 eof"]], simp, rule goes_bnd[OF goes_read32],
      rule goes_bnd[OF goes_load[OF n]], rule goes_bnd[OF goes_gets])
    have "beside (\<lambda>s. s\<lparr>s_mem := ?mem\<rparr>)" by (simp add: beside_def)
    from goes_modify[OF this, of Reverse "s\<lparr>s_client := c, s_world := w'\<rparr>" "got @ tail"]
    show "goes Reverse (case mem_store dest (cells_of got) (s_mem (s\<lparr>s_client := c, s_world := w'\<rparr>)) of
        None \<Rightarrow> crash Out_of_bounds | Some mem \<Rightarrow> modify (\<lambda>s. s\<lparr>s_mem := mem\<rparr>))
      (s\<lparr>s_client := c, s_world := w'\<rparr>) (got @ tail) () (s\<lparr>s_mem := ?mem, s_world := w'\<rparr>\<lparr>s_client := c\<rparr>) (got @ tail)"
      using st by simp
  qed simp
  show ?thesis
    unfolding read_chunk_def
    using call_leaves[OF read_request_sends[OF idle_ready[OF c] f] idle_used_slot[OF c] _ long_x_call acc k]
    by simp
qed


text \<open>The length in the reply is not compared with what was asked for.\<close>

lemma read_chunk_overrun:
  assumes c: "idle (s_client s)" and f: "wf_file (s_file s)" and mem: "length (s_mem s) < dest + length got"
    and len: "length got < 2 ^ 32"
    and acc: "accepted os
      (x_call (c_xid (s_client s) + 1)
        [op_sequence (s_client s), Putfh (handle (s_file s)), Read (f_latest_sid (s_file s)) off n])
      (used_slot (s_client s)) ds OP_READ (be32 eof @ be32 (word_of_nat (length got)) @ got @ tail) s w'"
  shows "read_chunk os dest off n s = Some (Crash Out_of_bounds)"
proof -
  have n: "length got = unat (word_of_nat (length got) :: u32)" using len by (simp add: unat_of_nat_small)
  obtain c1 s' where b: "bnd (read_request os off n) (\<lambda>r. transact os r OP_READ Reverse) s = Some (Ok () s')"
      "at Reverse s' (s\<lparr>s_client := c1, s_world := w'\<rparr>) (be32 eof @ be32 (word_of_nat (length got)) @ got @ tail)"
    using call_ok[OF read_request_sends[OF idle_ready[OF c] f] idle_used_slot[OF c] _ long_x_call acc, where w = Reverse]
    by (metis used_slot_fields(1))
  let ?t = "s\<lparr>s_client := c1, s_world := w'\<rparr>"
  obtain s2 where s2: "on_buf Reverse (skip 4) s' = Some (Ok () s2)" "at Reverse s2 ?t (be32 (word_of_nat (length got)) @ got @ tail)"
    using goesD[OF goes_skip[of "be32 eof" 4] b(2)] by auto
  obtain s3 where s3: "on_buf Reverse read_beu32 s2 = Some (Ok (word_of_nat (length got)) s3)" "at Reverse s3 ?t (got @ tail)"
    using goesD[OF goes_read32 s2(2)] by auto
  obtain s4 where s4: "on_buf Reverse (load_start (unat (word_of_nat (length got) :: u32))) s3 = Some (Ok (cells_of got) s4)" "at Reverse s4 ?t (got @ tail)"
    using goesD[OF goes_load[OF n] s3(2)] by auto
  have "s_mem s4 = s_mem s" using s4(2) by (auto simp: at_def)
  then have st: "mem_store dest (cells_of got) (s_mem s4) = None" using mem by (simp add: mem_store_def)
  from b(1) obtain r s0 where r: "read_request os off n s = Some (Ok r s0)" "transact os r OP_READ Reverse s0 = Some (Ok () s')"
    by (rule bnd_OkE)
  show ?thesis
    unfolding read_chunk_def
    by (simp add: bnd_Ok[where m = "read_request os off n", OF r(1)] bnd_Ok[where m = "transact os r OP_READ Reverse", OF r(2)]
      bnd_Ok[where m = "on_buf Reverse (skip 4)", OF s2(1)] bnd_Ok[where m = "on_buf Reverse read_beu32", OF s3(1)]
      bnd_Ok[where m = "on_buf Reverse (load_start (unat (word_of_nat (length got) :: u32)))", OF s4(1)] st)
qed

lemma write_chunk_ok:
  assumes c: "idle (s_client s)" and f: "wf_file (s_file s)"
    and mem: "src + unat n \<le> length (s_mem s)" and n: "unat n \<le> 2 ^ 29"
    and acc: "accepted os
      (x_call (c_xid (s_client s) + 1)
        [op_sequence (s_client s), Putfh (handle (s_file s)),
         Write (f_latest_sid (s_file s)) off FILE_SYNC4 (take (unat n) (drop src (s_mem s)))])
      (used_slot (s_client s)) ds OP_WRITE rest s w'"
  shows "leaves (write_chunk os src off n) s () (s\<lparr>s_client := used_slot (s_client s), s_world := w'\<rparr>)"
proof -
  have "write_chunk os src off n s =
      bnd (write_request os (drop src (s_mem s)) off n) (\<lambda>r. transact os r OP_WRITE Reverse) s"
    by (simp add: write_chunk_def)
  moreover have "unat n \<le> length (drop src (s_mem s))" using mem by simp
  note call_alone[OF write_request_sends[OF idle_ready[OF c] f this n] idle_used_slot[OF c] _ long_x_call acc,
      where w = Reverse]
  ultimately show ?thesis by (simp add: leaves_def)
qed

lemma goes_parse_latest:
  assumes "length other = 12"
  shows "goes w (ignoring (parse_stateid w latest_sid)) (s\<lparr>s_client := c, s_world := w'\<rparr>) (be32 sq @ other @ rest) ()
    (s\<lparr>s_file := (s_file s)\<lparr>f_latest_sid := \<lparr>sid_sequence = sq, sid_opaque = cells_of other\<rparr>\<rparr>, s_world := w'\<rparr>
       \<lparr>s_client := c\<rparr>) rest"
  by (rule goes_eq[OF goes_ignoring[OF goes_parse_stateid]])
    (simp_all add: assms latest_sid_def)

definition new_sid :: "u32 \<Rightarrow> u8 list \<Rightarrow> nfs_file \<Rightarrow> nfs_file" where
  "new_sid sq other f = f\<lparr>f_latest_sid := \<lparr>sid_sequence = sq, sid_opaque = cells_of other\<rparr>\<rparr>"

lemma lock_range_ok:
  assumes c: "idle (s_client s)" and f: "wf_file (s_file s)" and other: "length other = 12"
    and acc: "accepted os
      (x_call (c_xid (s_client s) + 1)
        [op_sequence (s_client s), Putfh (handle (s_file s)),
         Lock ty False off n 0 (f_open_sid (s_file s)) 0 (client_owner (s_client s))])
      (used_slot (s_client s)) ds OP_LOCK (be32 sq @ other @ rest) s w'"
  shows "leaves (lock_range os ty off n) s ()
    (s\<lparr>s_client := used_slot (s_client s), s_file := new_sid sq other (s_file s), s_world := w'\<rparr>)"
  unfolding lock_range_def new_sid_def
  using call_leaves[OF lock_request_sends[OF idle_ready[OF c] f] idle_used_slot[OF c] _ long_x_call acc
      goes_parse_latest[OF other]]
  by simp

lemma unlock_range_ok:
  assumes c: "idle (s_client s)" and f: "wf_file (s_file s)" and other: "length other = 12"
    and acc: "accepted os
      (x_call (c_xid (s_client s) + 1)
        [op_sequence (s_client s), Putfh (handle (s_file s)),
         Locku ty 0 (f_latest_sid (s_file s)) off n])
      (used_slot (s_client s)) ds OP_LOCKU (be32 sq @ other @ rest) s w'"
  shows "leaves (unlock_range os ty off n) s ()
    (s\<lparr>s_client := used_slot (s_client s), s_file := new_sid sq other (s_file s), s_world := w'\<rparr>)"
  unfolding unlock_range_def new_sid_def
  using call_leaves[OF unlock_request_sends[OF idle_ready[OF c] f] idle_used_slot[OF c] _ long_x_call acc
      goes_parse_latest[OF other]]
  by simp

lemma lock_range_refused:
  assumes c: "idle (s_client s)" and f: "wf_file (s_file s)"
    and resp: "responds os (c_fd (s_client s))
      (x_call (c_xid (s_client s) + 1)
        [op_sequence (s_client s), Putfh (handle (s_file s)),
         Lock ty False off n 0 (f_open_sid (s_file s)) 0 (client_owner (s_client s))])
      (refusal (c_xid (s_client s) + 1) nstatus rest) (s_world s) w'"
    and len: "length (refusal (c_xid (s_client s) + 1) nstatus rest) \<le> limit"
    and st: "nstatus \<noteq> NFS4_OK" "codestring nfsstatus nstatus = Some cause" "nstatus \<noteq> NFS4ERR_BADSESSION"
  shows "rejects (lock_range os ty off n) s cause (s\<lparr>s_client := used_slot (s_client s), s_world := w'\<rparr>)"
  unfolding lock_range_def
  using call_rejects[OF lock_request_sends[OF idle_ready[OF c] f] idle_used_slot[OF c] _ long_x_call _ _ st]
    resp len by simp

text \<open>The size is taken from the last eight bytes of the reply, whatever attributes it lists.\<close>

lemma parses_last64:
  "parses (modify (\<lambda>b. b\<lparr>b_start := b_end b - 8\<rparr>)) (\<lambda>bs. if length bs < 8 then None
     else Some (Ok () (drop (length bs - 8) bs)))"
proof (rule parsesI)
  fix b bs assume b: "cur b bs"
  show "case (if length bs < 8 then None else Some (Ok () (drop (length bs - 8) bs))) of
      None \<Rightarrow> True
    | Some (Ok a bs') \<Rightarrow> \<exists>b'. modify (\<lambda>b. b\<lparr>b_start := b_end b - 8\<rparr>) b = Some (Ok a b') \<and> cur b' bs' \<and> same_store b b'
    | Some (Err c bs') \<Rightarrow> \<exists>b'. modify (\<lambda>b. b\<lparr>b_start := b_end b - 8\<rparr>) b = Some (Err c b') \<and> cur b' bs' \<and> same_store b b'
    | Some (Crash f) \<Rightarrow> modify (\<lambda>b. b\<lparr>b_start := b_end b - 8\<rparr>) b = Some (Crash f)"
  proof (cases "length bs < 8")
    case False
    then have "(8 :: u32) \<le> buffer_length b" using cur_length[OF b] by (simp add: word_le_nat_alt)
    then have "unat (buffer_length b - 8) = length bs - 8" using cur_length[OF b] by (simp add: unat_sub)
    moreover have "b_end b - 8 = b_start b + (buffer_length b - 8)" by (simp add: buffer_length_def)
    ultimately show ?thesis
      using False cur_advance[OF b, of "buffer_length b - 8"] by (simp add: same_store_def algebra_simps)
  qed simp
qed

lemma goes_last64 [go]:
  "goes w (on_buf w (modify (\<lambda>b. b\<lparr>b_start := b_end b - 8\<rparr>))) t (pre @ be64 x) () t (be64 x)"
  by (rule goes_parses[OF parses_last64]) simp

lemma file_size_ok:
  assumes c: "idle (s_client s)" and f: "wf_file (s_file s)"
    and acc: "accepted os
      (x_call (c_xid (s_client s) + 1)
        [op_sequence (s_client s), Putfh (handle (s_file s)), Getattr [16]])
      (used_slot (s_client s)) ds OP_GETATTR (attrs @ be64 sz) s w'"
  shows "leaves (file_size os) s sz (s\<lparr>s_client := used_slot (s_client s), s_world := w'\<rparr>)"
proof -
  have k: "goes Reverse (bnd (on_buf Reverse (modify (\<lambda>b. b\<lparr>b_start := b_end b - 8\<rparr>))) (\<lambda>_. on_buf Reverse read_beu64))
      (s\<lparr>s_client := c, s_world := w'\<rparr>) (attrs @ be64 sz) sz (s\<lparr>s_world := w'\<rparr>\<lparr>s_client := c\<rparr>) []" for c
    using goes_read64[where bs = "[]"] by (intro goes_bnd[OF goes_last64]) simp
  show ?thesis
    unfolding file_size_def
    using call_leaves[OF size_request_sends[OF idle_ready[OF c] f] idle_used_slot[OF c] _ long_x_call acc k]
    by simp
qed

section \<open>Calls on a path\<close>

lemma exists_ok:
  assumes c: "idle (s_client s)" and p: "path_of (s_heap s) path comps"
    and ops: "ops = op_sequence (s_client s) # Putrootfh # lookups comps @ [Getfh]"
    and len: "length (x_call 0 ops) \<le> limit"
    and acc: "accepted os (x_call (c_xid (s_client s) + 1) ops) (used_slot (s_client s)) ds OP_GETFH rest s w'"
  shows "leaves (exists os path) s () (s\<lparr>s_client := used_slot (s_client s), s_world := w'\<rparr>)"
  unfolding exists_def
  using call_alone[OF exists_request_sends[OF idle_ready[OF c] p ops len] idle_used_slot[OF c] _ long_x_call acc]
  by simp

lemma exists_refused:
  assumes c: "idle (s_client s)" and p: "path_of (s_heap s) path comps"
    and ops: "ops = op_sequence (s_client s) # Putrootfh # lookups comps @ [Getfh]"
    and len: "length (x_call 0 ops) \<le> limit"
    and resp: "responds os (c_fd (s_client s)) (x_call (c_xid (s_client s) + 1) ops)
      (refusal (c_xid (s_client s) + 1) nstatus rest) (s_world s) w'"
    and len': "length (refusal (c_xid (s_client s) + 1) nstatus rest) \<le> limit"
    and st: "nstatus \<noteq> NFS4_OK" "codestring nfsstatus nstatus = Some cause" "nstatus \<noteq> NFS4ERR_BADSESSION"
  shows "rejects (exists os path) s cause (s\<lparr>s_client := used_slot (s_client s), s_world := w'\<rparr>)"
proof -
  have "exists os path = bnd (exists_request path) (\<lambda>r. bnd (transact os r OP_GETFH Reverse) ret)"
    by (simp add: exists_def)
  then show ?thesis
    using call_rejects[OF exists_request_sends[OF idle_ready[OF c] p ops len] idle_used_slot[OF c] _ long_x_call _ _ st,
        where k = ret] resp len' by simp
qed

lemma delete_ok:
  assumes c: "idle (s_client s)" and p: "path_of (s_heap s) path (init @ [l])"
    and ops: "ops = op_sequence (s_client s) # delete_ops (used_slot (s_client s)) init l"
    and len: "length (x_call 0 ops) \<le> limit"
    and acc: "accepted os (x_call (c_xid (s_client s) + 1) ops) (used_slot (s_client s)) ds OP_REMOVE rest s w'"
  shows "leaves (delete os path) s () (s\<lparr>s_client := used_slot (s_client s), s_world := w'\<rparr>)"
  unfolding delete_def
  using call_alone[OF delete_request_sends[OF idle_ready[OF c] p ops len] idle_used_slot[OF c] _ long_x_call acc]
  by simp


section \<open>Opening a file\<close>

lemma on_file_modify: "on_file (modify g) = modify (\<lambda>s. s\<lparr>s_file := g (s_file s)\<rparr>)"
  by (rule ext) (simp add: on_file_def zoom_def)

lemma goes_on_file [go]: "goes w (on_file (modify g)) t bs () (t\<lparr>s_file := g (s_file t)\<rparr>) bs"
  unfolding on_file_modify by (rule goes_modify[OF beside_file])

lemma goes_check [go]: "b \<Longrightarrow> goes w (check c b) t bs () t bs"
  by (simp add: goes_def)

text \<open>The file after a successful open with the handle \<open>fh\<close>.\<close>

definition opened_as :: "u32 \<Rightarrow> u8 list \<Rightarrow> u8 list \<Rightarrow> nfs_file \<Rightarrow> nfs_file" where
  "opened_as sq other fh f = (opened sq other f)\<lparr>f_filehandle_len := word_of_nat (length fh),
     f_filehandle := cells_of fh @ drop (length fh) (f_filehandle f)\<rparr>"

lemma wf_opened_as:
  assumes "length (f_filehandle f) = NFS4_FHSIZE" and "length fh \<le> NFS4_FHSIZE" and "length other = 12"
  shows "wf_file (opened_as sq other fh f)" and "handle (opened_as sq other fh f) = cells_of fh"
proof -
  have u: "unat (word_of_nat (length fh) :: u8) = length fh"
    using assms(2) by (simp add: size_defs unat_of_nat)
  then show "wf_file (opened_as sq other fh f)" "handle (opened_as sq other fh f) = cells_of fh"
    using assms by (simp_all add: wf_file_def handle_def opened_as_def opened_def Let_def size_defs)
qed

definition open_reply :: "u32 \<Rightarrow> u8 list \<Rightarrow> u32 \<Rightarrow> u64 \<Rightarrow> u64 \<Rightarrow> u32 \<Rightarrow> u32 list \<Rightarrow> u8 list \<Rightarrow> u8 list \<Rightarrow> u8 list" where
  "open_reply sq other atomic before after rflags attrs fh rest =
     open_result sq other atomic before after rflags attrs @ be32 OPEN_DELEGATE_NONE @
     be32 OP_GETFH @ be32 0 @ be32 (word_of_nat (length fh)) @ fh @ rest"

lemma short_handle:
  assumes "length fh \<le> NFS4_FHSIZE"
  shows "unat (word_of_nat (length fh) :: u32) = length fh"
    and "unat (ucast (ucast (word_of_nat (length fh) :: u32) :: u8) :: u32) = length fh"
    and "(ucast (word_of_nat (length fh) :: u32) :: u8) = word_of_nat (length fh)"
proof -
  show 1: "unat (word_of_nat (length fh) :: u32) = length fh"
    using assms by (simp add: size_defs unat_of_nat_small)
  show 3: "(ucast (word_of_nat (length fh) :: u32) :: u8) = word_of_nat (length fh)"
    by (rule word_unat_eq_iff[THEN iffD2]) (use assms in \<open>simp add: unsigned_ucast_eq take_bit_eq_mod 1 size_defs unat_of_nat\<close>)
  show "unat (ucast (ucast (word_of_nat (length fh) :: u32) :: u8) :: u32) = length fh"
    unfolding 3 using assms by (simp add: unsigned_ucast_eq take_bit_eq_mod size_defs unat_of_nat)
qed

lemma goes_file_handle:
  assumes fh: "length fh \<le> NFS4_FHSIZE" and arr: "length (f_filehandle (s_file t)) = NFS4_FHSIZE"
  shows "goes w
    (bnd (on_buf w read_beu32) (\<lambda>len.
     bnd (check ''encoding mismatch'' (unat len \<le> NFS4_FHSIZE)) (\<lambda>_.
     bnd (on_file (modify (\<lambda>f. f\<lparr>f_filehandle_len := ucast len\<rparr>))) (\<lambda>_.
     bnd (on_buf w (read_buffer (ucast (ucast len :: u8)))) (\<lambda>xs.
     bnd (gets (\<lambda>s. mem_store 0 xs (f_filehandle (s_file s)))) (\<lambda>fh.
     case fh of
       None \<Rightarrow> crash Out_of_bounds
     | Some fh \<Rightarrow> on_file (modify (\<lambda>f. f\<lparr>f_filehandle := fh\<rparr>))))))))
    t (be32 (word_of_nat (length fh)) @ fh @ rest) ()
    (t\<lparr>s_file := (s_file t)\<lparr>f_filehandle_len := word_of_nat (length fh),
       f_filehandle := cells_of fh @ drop (length fh) (f_filehandle (s_file t))\<rparr>\<rparr>) rest"
proof -
  note u = short_handle[OF fh]
  let ?t = "t\<lparr>s_file := (s_file t)\<lparr>f_filehandle_len := word_of_nat (length fh)\<rparr>\<rparr>"
  have 1: "goes w (on_file (modify (\<lambda>f. f\<lparr>f_filehandle_len := ucast (word_of_nat (length fh) :: u32)\<rparr>))) t bs () ?t bs" for bs
    unfolding u(3) by (rule goes_on_file)
  have 2: "length fh = unat (ucast (ucast (word_of_nat (length fh) :: u32) :: u8) :: u32)" using u(2) by simp
  have st: "mem_store 0 (cells_of fh) (f_filehandle (s_file ?t)) =
      Some (cells_of fh @ drop (length fh) (f_filehandle (s_file t)))"
    using fh arr by (simp add: mem_store_def)
  show ?thesis
    by (rule goes_bnd[OF goes_read32], rule goes_bnd[OF goes_check], simp add: u fh, rule goes_bnd[OF 1],
        rule goes_bnd[OF goes_read_buffer[OF 2]], rule goes_bnd[OF goes_gets], simp)
      (simp only: st option.case, rule goes_eq[OF goes_on_file]; simp)
qed

lemma goes_opened:
  assumes other: "length other = 12" and attrs: "length attrs < 2 ^ 30" and fh: "length fh \<le> NFS4_FHSIZE"
    and arr: "length (f_filehandle (s_file t)) = NFS4_FHSIZE"
  shows "goes w
    (bnd (parse_open None w) (\<lambda>_.
     bnd (on_buf w (verify_and_adv OP_GETFH)) (\<lambda>_.
     bnd (on_buf w (verify_and_adv 0)) (\<lambda>_.
     bnd (on_buf w read_beu32) (\<lambda>len.
     bnd (check ''encoding mismatch'' (unat len \<le> NFS4_FHSIZE)) (\<lambda>_.
     bnd (on_file (modify (\<lambda>f. f\<lparr>f_filehandle_len := ucast len\<rparr>))) (\<lambda>_.
     bnd (on_buf w (read_buffer (ucast (ucast len :: u8)))) (\<lambda>xs.
     bnd (gets (\<lambda>s. mem_store 0 xs (f_filehandle (s_file s)))) (\<lambda>fh.
     case fh of
       None \<Rightarrow> crash Out_of_bounds
     | Some fh \<Rightarrow> on_file (modify (\<lambda>f. f\<lparr>f_filehandle := fh\<rparr>))))))))))) t
    (open_reply sq other atomic before after rflags attrs fh rest) ()
    (t\<lparr>s_file := opened_as sq other fh (s_file t)\<rparr>) rest"
proof -
  let ?t = "t\<lparr>s_file := opened sq other (s_file t)\<rparr>"
  have "length (f_filehandle (s_file ?t)) = NFS4_FHSIZE" using arr by (simp add: opened_def Let_def)
  note h = goes_file_handle[OF fh this]
  show ?thesis
    unfolding open_reply_def
    by (rule goes_eq, rule goes_bnd[OF goes_parse_open[OF other attrs delegation_none]],
        rule goes_bnd[OF goes_verify], rule goes_bnd[OF goes_verify], rule h)
      (simp_all add: opened_as_def opened_def Let_def)
qed


lemma file_open_internal_ok:
  assumes c: "idle (s_client s)" and p: "path_of (s_heap s) path (init @ [l])"
    and arr: "length (f_filehandle (s_file s)) = NFS4_FHSIZE" and fh: "length fh \<le> NFS4_FHSIZE"
    and other: "length other = 12" and attrs: "length attrs < 2 ^ 30"
    and ops: "ops = op_sequence (s_client s) # open_ops (used_slot (s_client s)) init l writable create"
    and len: "length (x_call 0 ops) \<le> limit"
    and acc: "accepted os (x_call (c_xid (s_client s) + 1) ops) (used_slot (s_client s)) ds OP_OPEN
      (open_reply sq other atomic before after rflags attrs fh rest) s w'"
  shows "leaves (file_open_internal os None path writable create) s ()
    (s\<lparr>s_client := used_slot (s_client s), s_file := opened_as sq other fh (s_file s), s_world := w'\<rparr>)"
proof -
  let ?k = "bnd (parse_open None Reverse) (\<lambda>_.
     bnd (on_buf Reverse (verify_and_adv OP_GETFH)) (\<lambda>_.
     bnd (on_buf Reverse (verify_and_adv 0)) (\<lambda>_.
     bnd (on_buf Reverse read_beu32) (\<lambda>len.
     bnd (check ''encoding mismatch'' (unat len \<le> NFS4_FHSIZE)) (\<lambda>_.
     bnd (on_file (modify (\<lambda>f. f\<lparr>f_filehandle_len := ucast len\<rparr>))) (\<lambda>_.
     bnd (on_buf Reverse (read_buffer (ucast (ucast len :: u8)))) (\<lambda>xs.
     bnd (gets (\<lambda>s. mem_store 0 xs (f_filehandle (s_file s)))) (\<lambda>fh.
     case fh of
       None \<Rightarrow> crash Out_of_bounds
     | Some fh \<Rightarrow> on_file (modify (\<lambda>f. f\<lparr>f_filehandle := fh\<rparr>))))))))))"
  have k: "goes Reverse ?k (s\<lparr>s_client := c, s_world := w'\<rparr>)
      (open_reply sq other atomic before after rflags attrs fh rest) ()
      (s\<lparr>s_file := opened_as sq other fh (s_file s), s_world := w'\<rparr>\<lparr>s_client := c\<rparr>) rest" for c
    using goes_opened[OF other attrs fh, of "s\<lparr>s_client := c, s_world := w'\<rparr>" Reverse sq atomic before after rflags rest] arr
    by simp
  show ?thesis
    unfolding file_open_internal_def
    using call_leaves[OF open_request_sends[OF idle_ready[OF c] p ops len] idle_used_slot[OF c] _ long_x_call acc k]
    by simp
qed

lemma parse_open_split: "parse_open indet w = bnd (parse_open None w) (\<lambda>_. of_status indet)"
  by (simp add: parse_open_def bnd_assoc)

text \<open>The same open when \<^verbatim>\<open>parse_open\<close>, which returns no value, happens to leave an error to its caller.\<close>

lemma file_open_internal_lost:
  assumes c: "idle (s_client s)" and p: "path_of (s_heap s) path (init @ [l])"
    and other: "length other = 12" and attrs: "length attrs < 2 ^ 30"
    and ops: "ops = op_sequence (s_client s) # open_ops (used_slot (s_client s)) init l writable create"
    and len: "length (x_call 0 ops) \<le> limit"
    and acc: "accepted os (x_call (c_xid (s_client s) + 1) ops) (used_slot (s_client s)) ds OP_OPEN
      (open_reply sq other atomic before after rflags attrs fh rest) s w'"
  shows "rejects (file_open_internal os (Some cause) path writable create) s cause
    (s\<lparr>s_client := used_slot (s_client s), s_file := opened sq other (s_file s), s_world := w'\<rparr>)"
proof -
  have "fails Reverse (parse_open (Some cause) Reverse) t
      (open_result sq other atomic before after rflags attrs @ be32 OPEN_DELEGATE_NONE @ bs) cause
      (t\<lparr>s_file := opened sq other (s_file t)\<rparr>) bs" for t bs
    by (subst parse_open_split, rule fails_bnd_later[OF goes_parse_open[OF other attrs delegation_none]])
      (simp only: of_status_simps fails_err)
  from this[of "s\<lparr>s_client := c, s_world := w'\<rparr>" for c]
  have k: "fails Reverse (bnd (parse_open (Some cause) Reverse) k) (s\<lparr>s_client := c, s_world := w'\<rparr>)
      (open_reply sq other atomic before after rflags attrs fh rest) cause
      (s\<lparr>s_file := opened sq other (s_file s), s_world := w'\<rparr>\<lparr>s_client := c\<rparr>)
      (be32 OP_GETFH @ be32 0 @ be32 (word_of_nat (length fh)) @ fh @ rest)" for c k
    unfolding open_reply_def by (intro fails_bnd_here) simp
  show ?thesis
    unfolding file_open_internal_def
    using call_fails_late[OF open_request_sends[OF idle_ready[OF c] p ops len] idle_used_slot[OF c] _ long_x_call acc k]
    by simp
qed

section \<open>Setting up the session\<close>

text \<open>A call that uses \<^verbatim>\<open>base_transact\<close> with a flag of its own.\<close>

lemma flagged_call_leaves:
  assumes m: "sends os u (bnd m (rpc_send os)) s msg c'" and c': "idle c'" "c_fd c' = c_fd (s_client s)"
    and long: "92 \<le> length msg" and acc: "accepted os msg c' ds op rest s w'"
    and k: "\<And>c. apart c c' \<Longrightarrow> idle c \<Longrightarrow> goes w k (s\<lparr>s_client := c, s_world := w'\<rparr>) rest a (t\<lparr>s_client := upd c\<rparr>) rest'"
    and upd: "bufless upd"
  shows "leaves (bnd m (\<lambda>r. bnd (with_flag False (base_transact os r op w)) (\<lambda>_. k))) s a (t\<lparr>s_client := upd c'\<rparr>)"
proof -
  obtain r s0 c s' where b: "m s = Some (Ok r s0)" "s_bad s0 = s_bad s"
    "base_transact os r op w (s0\<lparr>s_bad := False\<rparr>) = Some (Ok () s')"
    "at w s' (s\<lparr>s_client := c, s_bad := False, s_world := w'\<rparr>) rest" "apart c c'" "idle c"
    using base_call_ok[OF m c' long acc, where x = False] by metis
  have f: "with_flag False (base_transact os r op w) s0 = Some (Ok () (s'\<lparr>s_bad := s_bad s0\<rparr>))"
    by (simp add: with_flag_def b(3))
  obtain s2 where s2: "k (s'\<lparr>s_bad := s_bad s0\<rparr>) = Some (Ok a s2)" "at w s2 (t\<lparr>s_client := upd c\<rparr>) rest'"
    using goesD[OF k[OF b(5,6)] restore_flag[OF b(2,4)]] by blast
  obtain c2 where c2: "s2 = t\<lparr>s_client := c2\<rparr>" "apart c2 (upd c)" "idle c2"
    using at_idle[OF s2(2)] idle_update[OF upd b(6)] by auto
  show ?thesis
    using s2(1) c2 apart_bufless[OF upd b(5)] unfolding leaves_def
    by (intro exI[of _ c2]) (simp add: bnd_Ok[where m = m, OF b(1)] bnd_Ok[where m = "with_flag False (base_transact os r op w)", OF f] apart_trans)
qed

lemma flagged_call_fails:
  assumes m: "sends os u (bnd m (rpc_send os)) s msg c'" and c': "idle c'" "c_fd c' = c_fd (s_client s)"
    and long: "92 \<le> length msg" and acc: "accepted os msg c' ds op rest s w'"
    and k: "\<And>c. fails w k (s\<lparr>s_client := c, s_world := w'\<rparr>) rest cause (s\<lparr>s_client := c, s_world := w'\<rparr>) rest'"
  shows "rejects (bnd m (\<lambda>r. bnd (with_flag False (base_transact os r op w)) (\<lambda>_. k))) s cause (s\<lparr>s_client := c', s_world := w'\<rparr>)"
proof -
  obtain r s0 c s' where b: "m s = Some (Ok r s0)" "s_bad s0 = s_bad s"
    "base_transact os r op w (s0\<lparr>s_bad := False\<rparr>) = Some (Ok () s')"
    "at w s' (s\<lparr>s_client := c, s_bad := False, s_world := w'\<rparr>) rest" "apart c c'" "idle c"
    using base_call_ok[OF m c' long acc, where x = False] by metis
  have f: "with_flag False (base_transact os r op w) s0 = Some (Ok () (s'\<lparr>s_bad := s_bad s0\<rparr>))"
    by (simp add: with_flag_def b(3))
  obtain s2 where s2: "k (s'\<lparr>s_bad := s_bad s0\<rparr>) = Some (Err cause s2)" "at w s2 (s\<lparr>s_client := c, s_world := w'\<rparr>) rest'"
    using failsD[OF k restore_flag[OF b(2,4)]] by blast
  obtain c2 where c2: "s2 = s\<lparr>s_client := c, s_world := w'\<rparr>\<lparr>s_client := c2\<rparr>" "apart c2 c" "idle c2"
    using at_idle[OF s2(2)] b(6) by auto
  show ?thesis
    using s2(1) c2 apart_trans[OF c2(2) b(5)] unfolding rejects_def
    by (intro exI[of _ c2]) (simp add: bnd_Ok[where m = m, OF b(1)] bnd_Ok[where m = "with_flag False (base_transact os r op w)", OF f])
qed

lemma fails_check: "\<not> b \<Longrightarrow> fails w (check c b) t bs c t bs"
  by (simp add: fails_def)


lemma idle_session_started: "idle c \<Longrightarrow> idle (session_started c)"
  by (simp add: idle_def ready_def session_started_def wf_client_def)

lemma bufless_session_limits:
  assumes "length sess = 16"
  shows "bufless (session_limits (cells_of sess) req resp ops reqs)"
  unfolding bufless_def wf_client_def session_limits_def
  using assms by (intro conjI allI; case_tac w; simp add: size_defs)

definition session_reply :: "u8 list \<Rightarrow> u32 \<Rightarrow> u32 \<Rightarrow> u32 \<Rightarrow> u32 \<Rightarrow> u32 \<Rightarrow> u32 \<Rightarrow> u32 \<Rightarrow> u32 \<Rightarrow> u32 \<Rightarrow> u8 list \<Rightarrow> u8 list" where
  "session_reply sess sq flags hpad req resp cached ops reqs rdma rest =
     sess @ be32 sq @ be32 flags @ be32 hpad @ be32 req @ be32 resp @ be32 cached @
     be32 ops @ be32 reqs @ be32 rdma @ rest"

lemma create_session_ok:
  assumes c: "idle (s_client s)" and sess: "length sess = 16"
    and acc: "accepted os (x_call (c_xid (s_client s) + 1) [op_create_session (s_client s)])
      (session_started (s_client s)) ds OP_CREATE_SESSION
      (session_reply sess sq flags hpad req resp cached ops reqs rdma rest) s w'"
  shows "leaves (create_session os) s ()
    (s\<lparr>s_client := session_limits (cells_of sess) req resp ops reqs (session_started (s_client s)), s_world := w'\<rparr>)"
proof -
  have k: "goes Reverse (parse_create_session Reverse) (s\<lparr>s_client := c, s_world := w'\<rparr>)
      (session_reply sess sq flags hpad req resp cached ops reqs rdma rest) ()
      (s\<lparr>s_world := w'\<rparr>\<lparr>s_client := session_limits (cells_of sess) req resp ops reqs c\<rparr>) rest" for c
    unfolding session_reply_def by (rule goes_eq[OF goes_parse_create_session[OF sess]]) simp_all
  have fd: "c_fd (session_started (s_client s)) = c_fd (s_client s)" by (simp add: session_started_def)
  show ?thesis
    unfolding create_session_def create_session_with_def
    using call_updates[OF create_session_request_sends[OF idle_ready[OF c]] idle_session_started[OF c] fd
        long_x_call acc k bufless_session_limits[OF sess]]
    by simp
qed

definition rooted :: "u8 list \<Rightarrow> client \<Rightarrow> client" where
  "rooted fh c = c\<lparr>c_root_filehandle_len := word_of_nat (length fh),
     c_root_filehandle := cells_of fh @ drop (length fh) (c_root_filehandle c)\<rparr>"

lemma bufless_rooted: "length fh \<le> NFS4_FHSIZE \<Longrightarrow> bufless (rooted fh)"
  unfolding bufless_def wf_client_def rooted_def by (intro conjI allI; case_tac w; simp)

lemma get_root_fh_ok:
  assumes c: "idle (s_client s)" and fh: "length fh \<le> NFS4_FHSIZE"
    and acc: "accepted os (x_call (c_xid (s_client s) + 1) [op_sequence (s_client s), Putrootfh, Getfh])
      (used_slot (s_client s)) ds OP_GETFH (be32 (word_of_nat (length fh)) @ fh @ rest) s w'"
  shows "leaves (get_root_fh os) s () (s\<lparr>s_client := rooted fh (used_slot (s_client s)), s_world := w'\<rparr>)"
proof -
  note u = short_handle[OF fh]
  let ?k = "bnd (on_buf Reverse read_beu32) (\<lambda>len.
     bnd (check ''encoding mismatch'' (unat len \<le> NFS4_FHSIZE)) (\<lambda>_.
     bnd (set_client (\<lambda>c. c\<lparr>c_root_filehandle_len := ucast len\<rparr>)) (\<lambda>_.
     bnd (on_buf Reverse (read_buffer (ucast (ucast len :: u8)))) (\<lambda>xs.
     bnd (gets (\<lambda>s. mem_store 0 xs (c_root_filehandle (s_client s)))) (\<lambda>fh.
     case fh of
       None \<Rightarrow> crash Out_of_bounds
     | Some fh \<Rightarrow> set_client (\<lambda>c. c\<lparr>c_root_filehandle := fh\<rparr>))))))"
  have b1: "bufless (\<lambda>c. c\<lparr>c_root_filehandle_len := n\<rparr>)" for n
    unfolding bufless_def wf_client_def by (intro conjI allI; case_tac w; simp)
  have b2: "length xs = NFS4_FHSIZE \<Longrightarrow> bufless (\<lambda>c. c\<lparr>c_root_filehandle := xs\<rparr>)" for xs
    unfolding bufless_def wf_client_def by (intro conjI allI; case_tac w; simp)
  have k: "goes Reverse ?k (s\<lparr>s_client := c, s_world := w'\<rparr>) (be32 (word_of_nat (length fh)) @ fh @ rest) ()
      (s\<lparr>s_world := w'\<rparr>\<lparr>s_client := rooted fh c\<rparr>) rest" if ap: "apart c (used_slot (s_client s))" for c
  proof -
    let ?t = "s\<lparr>s_client := c\<lparr>c_root_filehandle_len := word_of_nat (length fh)\<rparr>, s_world := w'\<rparr>"
    have len: "length (c_root_filehandle c) = NFS4_FHSIZE"
      using apart_fields(9)[OF ap] idle_used_slot[OF c] by (simp add: idle_def ready_def wf_client_def)
    have 1: "goes Reverse (set_client (\<lambda>c. c\<lparr>c_root_filehandle_len := ucast (word_of_nat (length fh) :: u32)\<rparr>))
        (s\<lparr>s_client := c, s_world := w'\<rparr>) bs () ?t bs" for bs
      unfolding u(3) by (rule goes_eq[OF goes_set_client[OF b1]]) simp_all
    have 2: "length fh = unat (ucast (ucast (word_of_nat (length fh) :: u32) :: u8) :: u32)" using u(2) by simp
    have st: "mem_store 0 (cells_of fh) (c_root_filehandle (s_client ?t)) =
        Some (cells_of fh @ drop (length fh) (c_root_filehandle c))"
      using fh len by (simp add: mem_store_def)
    have 3: "length (cells_of fh @ drop (length fh) (c_root_filehandle c)) = NFS4_FHSIZE"
      using fh len by simp
    show ?thesis
      by (rule goes_bnd[OF goes_read32], rule goes_bnd[OF goes_check], simp add: u fh, rule goes_bnd[OF 1],
          rule goes_bnd[OF goes_read_buffer[OF 2]], rule goes_bnd[OF goes_gets], case_tac w, simp, simp)
        (simp only: st option.case, rule goes_eq[OF goes_set_client[OF b2[OF 3]]]; simp add: rooted_def)
  qed
  show ?thesis
    unfolding get_root_fh_def
    using flagged_call_leaves[OF get_root_fh_request_sends[OF idle_ready[OF c]] idle_used_slot[OF c] _
        long_x_call acc k bufless_rooted[OF fh]]
    by simp
qed

lemma get_root_fh_too_long:
  assumes c: "idle (s_client s)" and n: "NFS4_FHSIZE < unat n"
    and acc: "accepted os (x_call (c_xid (s_client s) + 1) [op_sequence (s_client s), Putrootfh, Getfh])
      (used_slot (s_client s)) ds OP_GETFH (be32 n @ rest) s w'"
  shows "rejects (get_root_fh os) s ''encoding mismatch'' (s\<lparr>s_client := used_slot (s_client s), s_world := w'\<rparr>)"
  unfolding get_root_fh_def
  by (rule flagged_call_fails[OF get_root_fh_request_sends[OF idle_ready[OF c]] idle_used_slot[OF c] _ long_x_call acc],
      simp, rule fails_bnd_later[OF goes_read32], rule fails_bnd_here[OF fails_check]) (use n in simp)

lemma reclaim_complete_ok:
  assumes c: "idle (s_client s)"
    and acc: "accepted os (x_call (c_xid (s_client s) + 1) [op_sequence (s_client s), Reclaim_complete False])
      (used_slot (s_client s)) ds OP_RECLAIM_COMPLETE rest s w'"
  shows "leaves (reclaim_complete os) s () (s\<lparr>s_client := used_slot (s_client s), s_world := w'\<rparr>)"
proof -
  have k: "goes Reverse (ret ()) (s\<lparr>s_client := c, s_world := w'\<rparr>) rest () (s\<lparr>s_world := w'\<rparr>\<lparr>s_client := c\<rparr>) rest" for c
    by (simp add: goes_ret del: ret_run)
  have "reclaim_complete os = bnd reclaim_complete_request (\<lambda>r.
      bnd (with_flag False (base_transact os r OP_RECLAIM_COMPLETE Reverse)) (\<lambda>_. ret ()))"
    by (simp add: reclaim_complete_def)
  then show ?thesis
    using flagged_call_leaves[OF reclaim_complete_request_sends[OF idle_ready[OF c]] idle_used_slot[OF c] _
        long_x_call acc k bufless_id]
    by simp
qed

end
