(* ===== verification/Files.thy ===== *)
theory Files
  imports Calls
begin

text \<open>
  Reading and writing a file in chunks. The locale \<open>chunk_io\<close> is what \<^verbatim>\<open>segment\<close> needs of the
  function it calls for each chunk; \<^verbatim>\<open>read_chunk\<close> and \<^verbatim>\<open>write_chunk\<close> provide it, on a
  server that keeps a file (\<open>serves_reads\<close>, \<open>serves_writes\<close>).
\<close>

section \<open>Transfers in chunks\<close>

text \<open>
  What \<^verbatim>\<open>segment\<close> relies on: \<open>able x off n s\<close> says that \<open>n\<close> bytes can be moved between the
  place \<open>x\<close> of the memory and the offset \<open>off\<close> of the file, in pieces of at most \<open>chunk\<close>
  bytes; \<open>moved x off n s t\<close> that they were. One piece moves what it is asked to, and what
  the pieces did adds up.
\<close>

locale chunk_io =
  fixes each :: "'w chunk"
    and chunk :: u32
    and able :: "nat \<Rightarrow> u64 \<Rightarrow> nat \<Rightarrow> 'w st \<Rightarrow> bool"
    and moved :: "nat \<Rightarrow> u64 \<Rightarrow> nat \<Rightarrow> 'w st \<Rightarrow> 'w st \<Rightarrow> bool"
  assumes piece: "able x off n s \<Longrightarrow> 0 < unat k \<Longrightarrow> unat k \<le> n \<Longrightarrow> k \<le> chunk \<Longrightarrow>
      \<exists>t. each x off k s = Some (Ok () t) \<and> moved x off (unat k) s t \<and>
        able (x + unat k) (off + ucast k) (n - unat k) t"
    and no_bytes: "able x off n s \<Longrightarrow> moved x off 0 s s"
    and together: "able x off (m + n) s \<Longrightarrow> moved x off m s t \<Longrightarrow>
      moved (x + m) (off + word_of_nat m) n t u \<Longrightarrow> moved x off (m + n) s u"
begin

lemma piece_min:
  assumes "able x off n s" and "0 < unat k" and "unat k = n" and "0 < chunk"
  shows "\<exists>t. each x off (min k chunk) s = Some (Ok () t) \<and>
    moved x off (unat (min k chunk)) s t \<and>
    able (x + unat (min k chunk)) (off + ucast (min k chunk)) (n - unat (min k chunk)) t"
  using assms by (intro piece) (auto simp: min_def word_less_nat_alt word_le_nat_alt)

lemma loop_moves:
  assumes "d \<le> count" and "0 < chunk" and "able (x + unat d) (off + ucast d) (unat (count - d)) s"
  shows "\<exists>t. segment_loop each chunk x off count d s = Some (Ok () t) \<and>
    moved (x + unat d) (off + ucast d) (unat (count - d)) s t"
  using assms
proof (induction "unat (count - d)" arbitrary: d s rule: less_induct)
  case less
  show ?case
  proof (cases "d < count")
    case True
    let ?k = "min (count - d) chunk" and ?n = "unat (count - d)"
    have n: "?n = unat count - unat d" "unat d \<le> unat count" "unat d < unat count"
      using True less.prems(1) by (simp_all add: unat_sub word_le_nat_alt word_less_nat_alt)
    have k: "unat ?k = min ?n (unat chunk)" by (simp add: min_def word_le_nat_alt)
    have d': "unat (d + ?k) = unat d + unat ?k"
      using n k unsigned_less[of count, where 'a = nat] by (intro unat_add_small) simp
    then have le: "d + ?k \<le> count" using n k by (simp add: word_le_nat_alt)
    have rest: "unat (count - (d + ?k)) = ?n - unat ?k" using le d' n by (simp add: unat_sub)
    have off: "off + ucast (d + ?k) = off + ucast d + ucast ?k"
    proof -
      have "ucast (d + ?k) = (word_of_nat (unat (d + ?k)) :: u64)" by (simp add: unsigned_of_nat)
      also have "\<dots> = word_of_nat (unat d) + word_of_nat (unat ?k)" by (simp add: d')
      finally show ?thesis by (simp add: unsigned_of_nat)
    qed
    have pos: "0 < unat ?k" "0 < ?n" using less.prems(2) n k by (simp_all add: word_less_nat_alt)
    obtain t where t: "each (x + unat d) (off + ucast d) ?k s = Some (Ok () t)"
        "moved (x + unat d) (off + ucast d) (unat ?k) s t"
        "able (x + unat d + unat ?k) (off + ucast d + ucast ?k) (?n - unat ?k) t"
      using piece_min[OF less.prems(3) _ refl less.prems(2)] pos by auto
    obtain u where u: "segment_loop each chunk x off count (d + ?k) t = Some (Ok () u)"
        "moved (x + unat d + unat ?k) (off + ucast d + ucast ?k) (?n - unat ?k) t u"
    proof -
      have lt: "unat (count - (d + ?k)) < ?n" using rest pos by simp
      have ab: "able (x + unat (d + ?k)) (off + ucast (d + ?k)) (unat (count - (d + ?k))) t"
        using t(3) unfolding rest off d' add.assoc .
      from less.hyps[OF lt le less.prems(2) ab] that show thesis
        unfolding rest off d' add.assoc by blast
    qed
    have run: "segment_loop each chunk x off count d s = Some (Ok () u)"
      using True u(1) by (subst segment_loop.simps)
        (simp add: Let_def bnd_Ok[of "each (x + unat d) (off + ucast d) ?k", OF t(1)])
    have n': "unat ?k + (?n - unat ?k) = ?n" using k by simp
    have "moved (x + unat d) (off + ucast d) (unat ?k + (?n - unat ?k)) s u"
      by (rule together[OF _ t(2)]) (use less.prems(3) u(2) n' in \<open>simp_all add: unsigned_of_nat\<close>)
    with run n' show ?thesis by simp
  next
    case False
    with less.prems(1) have d: "d = count" by simp
    from no_bytes[OF less.prems(3)] show ?thesis unfolding d by (subst segment_loop.simps) simp
  qed
qed

theorem segment_moves:
  assumes "able x off (unat count) s" and "0 < chunk"
  shows "\<exists>t. segment each chunk x off count s = Some (Ok () t) \<and> moved x off (unat count) s t"
  using loop_moves[of 0 count x off s] assms by (simp add: segment_def)

end

text \<open>With a limit of zero \<^verbatim>\<open>segment\<close> makes empty transfers for ever.\<close>

lemma segment_loop_empty:
  fixes each :: "'w chunk"
  assumes "\<And>s. s \<in> S \<Longrightarrow> \<exists>t \<in> S. each (x + unat d) (off + ucast d) 0 s = Some (Ok () t)" and "d < count"
  shows "\<forall>s. s \<in> S \<longrightarrow> segment_loop each 0 x off count d s = None"
proof (rule segment_loop.fixp_induct)
  have "option.admissible (\<lambda>f. \<forall>a r. f a = Some r \<longrightarrow>
      \<not> (\<exists>s. s \<in> S \<and> a = ((((((each, 0), x), off), count), d), s)))"
    by (rule option_admissible)
  then show "option.admissible (\<lambda>f. \<forall>s. s \<in> S \<longrightarrow>
      curry (curry (curry (curry (curry (curry f))))) each 0 x off count d s = None)"
    by (rule back_subst[of option.admissible])
      (rule ext, auto simp: curry_def, metis option.exhaust)
next
  fix f :: "'w chunk \<Rightarrow> u32 \<Rightarrow> nat \<Rightarrow> u64 \<Rightarrow> u32 \<Rightarrow> u32 \<Rightarrow> 'w st \<Rightarrow> ('w st, unit) out option"
  assume IH: "\<forall>s. s \<in> S \<longrightarrow> f each 0 x off count d s = None"
  show "\<forall>s. s \<in> S \<longrightarrow> (if d < count then let xfer = min (count - d) 0
      in bnd (each (x + unat d) (off + ucast d) xfer) (\<lambda>_. f each 0 x off count (d + xfer)) s
      else Some (Ok () s)) = None"
  proof (intro allI impI)
    fix s assume "s \<in> S"
    moreover from assms(1)[OF this] obtain t where "t \<in> S" "each (x + unat d) (off + ucast d) 0 s = Some (Ok () t)"
      by blast
    moreover have "min (count - d) 0 = 0" by (simp add: min_def)
    ultimately show "(if d < count then let xfer = min (count - d) 0
      in bnd (each (x + unat d) (off + ucast d) xfer) (\<lambda>_. f each 0 x off count (d + xfer)) s
      else Some (Ok () s)) = None"
      using IH assms(2) by (simp add: Let_def bnd_Ok[of "each (x + unat d) (off + ucast d) 0"])
  qed
qed simp


section \<open>Pieces\<close>

text \<open>
  The reference for \<^verbatim>\<open>segment\<close>: the pieces of a transfer of \<open>n\<close> bytes, each with its place and
  its length, from the first to the last.
\<close>

definition pieces :: "nat \<Rightarrow> nat \<Rightarrow> (nat \<times> nat) list" where
  "pieces chunk n = map (\<lambda>i. (i * chunk, min chunk (n - i * chunk))) [0..<(n + chunk - 1) div chunk]"

definition each_piece :: "'w chunk \<Rightarrow> nat \<Rightarrow> u64 \<Rightarrow> nat \<times> nat \<Rightarrow> ('w st, unit) prog" where
  "each_piece each x off = (\<lambda>(d, k). each (x + d) (off + word_of_nat d) (word_of_nat k))"

lemma piece_count:
  assumes "0 < (c :: nat)"
  shows "i < (n + c - 1) div c \<longleftrightarrow> i * c < n"
proof -
  have "i < (n + c - 1) div c \<longleftrightarrow> Suc i * c \<le> n + c - 1"
    using less_eq_div_iff_mult_less_eq[OF assms, of "Suc i" "n + c - 1"] by (simp add: Suc_le_eq)
  also have "\<dots> \<longleftrightarrow> i * c < n" using assms by auto
  finally show ?thesis .
qed

lemma segment_loop_pieces:
  assumes "0 < unat chunk"
  shows "i \<le> (unat count + unat chunk - 1) div unat chunk \<Longrightarrow>
    segment_loop each chunk x off count (word_of_nat (min (i * unat chunk) (unat count))) s =
    seqs (map (\<lambda>i. each_piece each x off (i * unat chunk, min (unat chunk) (unat count - i * unat chunk)))
      [i..<(unat count + unat chunk - 1) div unat chunk]) s"
proof (induction "(unat count + unat chunk - 1) div unat chunk - i" arbitrary: i s)
  case 0
  let ?c = "unat chunk" and ?n = "unat count"
  have "\<not> i * ?c < ?n" using 0 piece_count[OF assms, of i ?n] by simp
  then have "word_of_nat (min (i * ?c) ?n) = count" by (simp add: min_def)
  with 0 show ?case by (subst segment_loop.simps) simp
next
  case (Suc m)
  let ?c = "unat chunk" and ?n = "unat count" and ?N = "(unat count + unat chunk - 1) div unat chunk"
  let ?k = "min ?c (?n - i * ?c)"
  have lt: "i < ?N" using Suc.hyps(2) by simp
  then have d: "i * ?c < ?n" using piece_count[OF assms] by blast
  let ?d = "word_of_nat (min (i * ?c) ?n) :: u32"
  have md: "min (i * ?c) ?n = i * ?c" using d by simp
  have ud: "unat ?d = i * ?c"
    unfolding md using d unsigned_less[of count, where 'a = nat] by (intro unat_of_nat_small) simp
  have dc: "?d < count" using ud d by (simp add: word_less_nat_alt)
  have uk: "unat (min (count - ?d) chunk) = ?k"
    using dc ud by (simp add: min_def word_le_nat_alt unat_sub word_less_nat_alt)
  have kw: "min (count - ?d) chunk = word_of_nat ?k" unfolding uk[symmetric] by simp
  have next_d: "?d + min (count - ?d) chunk = word_of_nat (min (Suc i * ?c) ?n)"
  proof -
    have "?d + min (count - ?d) chunk = word_of_nat (i * ?c + ?k)"
      unfolding kw[unfolded md] md by (simp only: of_nat_add)
    also have "i * ?c + ?k = min (Suc i * ?c) ?n" using d by (auto simp: min_def)
    finally show ?thesis .
  qed
  have IH: "segment_loop each chunk x off count (word_of_nat (min (Suc i * ?c) ?n)) t =
      seqs (map (\<lambda>i. each_piece each x off (i * ?c, min ?c (?n - i * ?c))) [Suc i..<?N]) t" for t
    using Suc.hyps(1)[of "Suc i" t] Suc.hyps(2) lt by simp
  have uc: "(ucast ?d :: u64) = word_of_nat (i * ?c)"
  proof -
    have "(ucast ?d :: u64) = word_of_nat (unat ?d)" by (simp add: unsigned_of_nat)
    then show ?thesis unfolding ud .
  qed
  have "segment_loop each chunk x off count ?d s =
      bnd (each (x + i * ?c) (off + word_of_nat (i * ?c)) (word_of_nat ?k))
        (\<lambda>_. segment_loop each chunk x off count (word_of_nat (min (Suc i * ?c) ?n))) s"
    using dc by (subst segment_loop.simps) (simp only: if_True Let_def ud uc kw next_d[unfolded kw])
  also have "\<dots> = seqs (map (\<lambda>i. each_piece each x off (i * ?c, min ?c (?n - i * ?c))) [i..<?N]) s"
    unfolding IH using lt by (simp add: upt_rec[of i] each_piece_def)
  finally show ?case .
qed

lemma segment_pieces:
  assumes "0 < chunk"
  shows "segment each chunk x off count s = seqs (map (each_piece each x off) (pieces (unat chunk) (unat count))) s"
  using segment_loop_pieces[of chunk 0 count each x off s] assms
  by (simp add: segment_def pieces_def o_def word_less_nat_alt)

lemma pieces_whole:
  assumes "0 < c"
  shows "sum_list (map snd (pieces c n)) = n" and "list_all (\<lambda>(d, k). 0 < k \<and> k \<le> c) (pieces c n)"
proof -
  let ?N = "(n + c - 1) div c"
  have "sum_list (map (\<lambda>i. min c (n - i * c)) [0..<k]) = min (k * c) n" for k
    by (induction k) (auto simp: min_def)
  moreover have "n \<le> ?N * c" using piece_count[OF assms, of ?N n] by simp
  ultimately show "sum_list (map snd (pieces c n)) = n" by (simp add: pieces_def o_def)
  show "list_all (\<lambda>(d, k). 0 < k \<and> k \<le> c) (pieces c n)"
    using assms piece_count[OF assms, of _ n] by (auto simp: pieces_def list_all_iff)
qed

section \<open>A server that keeps the file\<close>

text \<open>
  \<open>W\<close> are the worlds in which the server answers and \<open>bytes w\<close> is what the file holds in
  \<open>w\<close>. The server of the hypotheses answers \<^verbatim>\<open>READ\<close> with the bytes that are there, fewer than
  asked for at the end of the file, and stores what \<^verbatim>\<open>WRITE\<close> brings, after zeros if the
  file was shorter (RFC 5661, sections 18.22 and 18.32); it does so for requests of the session,
  the handle and the state id of the open file, in pieces of at most \<open>2 ^ 29\<close> bytes.
\<close>

definition overlay :: "nat \<Rightarrow> cells \<Rightarrow> cells \<Rightarrow> cells" where
  "overlay x ys m = take x m @ ys @ drop (x + length ys) m"

definition stored :: "nat \<Rightarrow> u8 list \<Rightarrow> u8 list \<Rightarrow> u8 list" where
  "stored off dat c = (if dat = [] then c
     else take off (c @ replicate (off - length c) 0) @ dat @ drop (off + length dat) c)"

definition in_file :: "u64 \<Rightarrow> nat \<Rightarrow> u8 list \<Rightarrow> u8 list" where
  "in_file off n c = take n (drop (unat off) c)"

definition on_handle :: "cells \<Rightarrow> nfs_file \<Rightarrow> u32 \<Rightarrow> u32 \<Rightarrow> nfs_op \<Rightarrow> cells" where
  "on_handle sess f x sq op = x_call x [Sequence sess sq 0 0 False, Putfh (handle f), op]"

definition answered :: "'w os \<Rightarrow> int \<Rightarrow> cells \<Rightarrow> u32 \<Rightarrow> u32 \<Rightarrow> u8 list \<Rightarrow> 'w \<Rightarrow> 'w \<Rightarrow> bool" where
  "answered os fd msg x op rest w w' \<longleftrightarrow> (\<exists>ds. responds os fd msg (reply x ds op 0 rest) w w' \<and>
     length (reply x ds op 0 rest) \<le> limit \<and> list_all wf_past ds)"

definition serves_reads :: "'w os \<Rightarrow> ('w \<Rightarrow> u8 list) \<Rightarrow> 'w set \<Rightarrow> int \<Rightarrow> cells \<Rightarrow> nfs_file \<Rightarrow> bool" where
  "serves_reads os bytes W fd sess f \<longleftrightarrow> (\<forall>w \<in> W. \<forall>x sq off n. unat n \<le> 2 ^ 29 \<longrightarrow>
     (\<exists>w' \<in> W. \<exists>eof tail. bytes w' = bytes w \<and>
        answered os fd (on_handle sess f x sq (Read (f_latest_sid f) off n)) x OP_READ
          (be32 eof @ be32 (word_of_nat (length (in_file off (unat n) (bytes w)))) @
             in_file off (unat n) (bytes w) @ tail) w w'))"

definition serves_writes :: "'w os \<Rightarrow> ('w \<Rightarrow> u8 list) \<Rightarrow> 'w set \<Rightarrow> int \<Rightarrow> cells \<Rightarrow> nfs_file \<Rightarrow> bool" where
  "serves_writes os bytes W fd sess f \<longleftrightarrow> (\<forall>w \<in> W. \<forall>x sq off dat. length dat \<le> 2 ^ 29 \<longrightarrow>
     (\<exists>w' \<in> W. \<exists>rest. bytes w' = stored (unat off) dat (bytes w) \<and>
        answered os fd (on_handle sess f x sq (Write (f_latest_sid f) off FILE_SYNC4 (cells_of dat))) x OP_WRITE
          rest w w'))"

text \<open>What a transfer leaves alone.\<close>

definition steady :: "'w set \<Rightarrow> 'w st \<Rightarrow> 'w st \<Rightarrow> bool" where
  "steady W s t \<longleftrightarrow> (idle (s_client s) \<longrightarrow> idle (s_client t)) \<and> (s_world s \<in> W \<longrightarrow> s_world t \<in> W) \<and>
     c_fd (s_client t) = c_fd (s_client s) \<and> c_session (s_client t) = c_session (s_client s) \<and>
     c_maxreq (s_client t) = c_maxreq (s_client s) \<and> c_maxresp (s_client t) = c_maxresp (s_client s) \<and>
     s_file t = s_file s \<and> s_heap t = s_heap s \<and> s_bad t = s_bad s"

lemma steady_refl [simp]: "steady W s s"
  by (simp add: steady_def)

lemma steady_trans: "steady W s t \<Longrightarrow> steady W t u \<Longrightarrow> steady W s u"
  by (simp add: steady_def)

definition can_transfer :: "'w set \<Rightarrow> u32 \<Rightarrow> nat \<Rightarrow> u64 \<Rightarrow> nat \<Rightarrow> 'w st \<Rightarrow> bool" where
  "can_transfer W chunk x off n s \<longleftrightarrow> idle (s_client s) \<and> wf_file (s_file s) \<and> s_world s \<in> W \<and>
     x + n \<le> length (s_mem s) \<and> unat off + n < 2 ^ 64 \<and> unat chunk \<le> 2 ^ 29"

definition can_read :: "'w os \<Rightarrow> ('w \<Rightarrow> u8 list) \<Rightarrow> 'w set \<Rightarrow> u32 \<Rightarrow> nat \<Rightarrow> u64 \<Rightarrow> nat \<Rightarrow> 'w st \<Rightarrow> bool" where
  "can_read os bytes W chunk x off n s \<longleftrightarrow> can_transfer W chunk x off n s \<and>
     serves_reads os bytes W (c_fd (s_client s)) (c_session (s_client s)) (s_file s)"

definition was_read :: "('w \<Rightarrow> u8 list) \<Rightarrow> 'w set \<Rightarrow> nat \<Rightarrow> u64 \<Rightarrow> nat \<Rightarrow> 'w st \<Rightarrow> 'w st \<Rightarrow> bool" where
  "was_read bytes W x off n s t \<longleftrightarrow> steady W s t \<and> bytes (s_world t) = bytes (s_world s) \<and>
     s_mem t = overlay x (cells_of (in_file off n (bytes (s_world s)))) (s_mem s)"

definition can_write :: "'w os \<Rightarrow> ('w \<Rightarrow> u8 list) \<Rightarrow> 'w set \<Rightarrow> u32 \<Rightarrow> nat \<Rightarrow> u64 \<Rightarrow> nat \<Rightarrow> 'w st \<Rightarrow> bool" where
  "can_write os bytes W chunk x off n s \<longleftrightarrow> can_transfer W chunk x off n s \<and>
     serves_writes os bytes W (c_fd (s_client s)) (c_session (s_client s)) (s_file s) \<and>
     (\<exists>dat. take n (drop x (s_mem s)) = cells_of dat)"

definition was_written :: "('w \<Rightarrow> u8 list) \<Rightarrow> 'w set \<Rightarrow> nat \<Rightarrow> u64 \<Rightarrow> nat \<Rightarrow> 'w st \<Rightarrow> 'w st \<Rightarrow> bool" where
  "was_written bytes W x off n s t \<longleftrightarrow> steady W s t \<and> s_mem t = s_mem s \<and>
     (\<forall>dat. take n (drop x (s_mem s)) = cells_of dat \<longrightarrow>
        bytes (s_world t) = stored (unat off) dat (bytes (s_world s)))"

lemma length_in_file: "length (in_file off n c) \<le> n"
  by (simp add: in_file_def)

lemma leaves_steady:
  assumes "leaves m s a (s\<lparr>s_client := used_slot (s_client s), s_mem := mem, s_world := w'\<rparr>)"
    and "w' \<in> W"
  shows "\<exists>t. m s = Some (Ok a t) \<and> steady W s t \<and> s_mem t = mem \<and> s_world t = w' \<and>
     wf_file (s_file t) = wf_file (s_file s) \<and> idle (s_client t)"
proof -
  from assms(1) obtain c where c: "m s = Some (Ok a (s\<lparr>s_client := c, s_mem := mem, s_world := w'\<rparr>))"
      "apart c (used_slot (s_client s))" "idle c"
    by (auto simp: leaves_def)
  then show ?thesis
    using assms(2) apart_fields[OF c(2)] by (intro exI[of _ "s\<lparr>s_client := c, s_mem := mem, s_world := w'\<rparr>"]) (simp add: steady_def)
qed

lemma read_piece:
  assumes "can_read os bytes W chunk x off n s" and "0 < unat k" and "unat k \<le> n" and "k \<le> chunk"
  shows "\<exists>t. read_chunk os x off k s = Some (Ok () t) \<and> was_read bytes W x off (unat k) s t \<and>
    can_read os bytes W chunk (x + unat k) (off + ucast k) (n - unat k) t"
proof -
  let ?got = "in_file off (unat k) (bytes (s_world s))"
  have able: "idle (s_client s)" "wf_file (s_file s)" "s_world s \<in> W" "x + n \<le> length (s_mem s)"
      "unat off + n < 2 ^ 64" "unat chunk \<le> 2 ^ 29"
    and serves: "serves_reads os bytes W (c_fd (s_client s)) (c_session (s_client s)) (s_file s)"
    using assms(1) by (simp_all add: can_read_def can_transfer_def)
  have k: "unat k \<le> 2 ^ 29" using assms(4) able(6) by (simp add: word_le_nat_alt)
  from serves able(3) k obtain w' eof tail ds where w': "w' \<in> W" "bytes w' = bytes (s_world s)"
    and ans: "responds os (c_fd (s_client s))
        (on_handle (c_session (s_client s)) (s_file s) (c_xid (s_client s) + 1) (c_sequence (s_client s))
           (Read (f_latest_sid (s_file s)) off k))
        (reply (c_xid (s_client s) + 1) ds OP_READ 0 (be32 eof @ be32 (word_of_nat (length ?got)) @ ?got @ tail))
        (s_world s) w'"
      "length (reply (c_xid (s_client s) + 1) ds OP_READ 0
         (be32 eof @ be32 (word_of_nat (length ?got)) @ ?got @ tail)) \<le> limit" "list_all wf_past ds"
    unfolding serves_reads_def answered_def by metis
  have acc: "accepted os (x_call (c_xid (s_client s) + 1)
        [op_sequence (s_client s), Putfh (handle (s_file s)), Read (f_latest_sid (s_file s)) off k])
      (used_slot (s_client s)) ds OP_READ (be32 eof @ be32 (word_of_nat (length ?got)) @ ?got @ tail) s w'"
    using ans by (simp add: accepted_def on_handle_def op_sequence_def stepped_over_def step_ops OP_READ_def)
  have got: "length ?got \<le> unat k" by (rule length_in_file)
  have "leaves (read_chunk os x off k) s () (s\<lparr>s_client := used_slot (s_client s),
       s_mem := overlay x (cells_of ?got) (s_mem s), s_world := w'\<rparr>)"
    unfolding overlay_def length_map
    by (rule read_chunk_ok[OF able(1,2) _ _ acc]) (use got able assms(3) k in auto)
  from leaves_steady[OF this w'(1)] obtain t where t: "read_chunk os x off k s = Some (Ok () t)"
      "steady W s t" "s_mem t = overlay x (cells_of ?got) (s_mem s)" "s_world t = w'"
      "idle (s_client t)" by blast
  have len: "length (s_mem t) = length (s_mem s)"
    unfolding t(3) using got able(4) assms(3) by (simp add: overlay_def)
  have off: "unat (off + ucast k) = unat off + unat k"
    using able(5) assms(3) by (simp add: unat_word_ariths unsigned_ucast_eq take_bit_eq_mod)
  show ?thesis
    using t w' able assms len off serves
    by (intro exI[of _ t]) (auto simp: was_read_def can_read_def can_transfer_def steady_def)
qed


lemma write_piece:
  assumes "can_write os bytes W chunk x off n s" and "0 < unat k" and "unat k \<le> n" and "k \<le> chunk"
  shows "\<exists>t. write_chunk os x off k s = Some (Ok () t) \<and> was_written bytes W x off (unat k) s t \<and>
    can_write os bytes W chunk (x + unat k) (off + ucast k) (n - unat k) t"
proof -
  have able: "idle (s_client s)" "wf_file (s_file s)" "s_world s \<in> W" "x + n \<le> length (s_mem s)"
      "unat off + n < 2 ^ 64" "unat chunk \<le> 2 ^ 29"
    and serves: "serves_writes os bytes W (c_fd (s_client s)) (c_session (s_client s)) (s_file s)"
    using assms(1) by (simp_all add: can_write_def can_transfer_def)
  from assms(1) obtain dat where dat: "take n (drop x (s_mem s)) = cells_of dat"
    by (auto simp: can_write_def)
  let ?d = "take (unat k) dat"
  have now: "take (unat k) (drop x (s_mem s)) = cells_of ?d"
    using arg_cong[OF dat, of "take (unat k)"] assms(3) by (simp add: min_def take_map)
  have later: "take (n - unat k) (drop (x + unat k) (s_mem s)) = cells_of (drop (unat k) dat)"
    using arg_cong[OF dat, of "drop (unat k)"] by (simp add: drop_take drop_map add.commute)
  have k: "unat k \<le> 2 ^ 29" using assms(4) able(6) by (simp add: word_le_nat_alt)
  then have "length ?d \<le> 2 ^ 29" by simp
  with serves able(3) obtain w' rest ds where w': "w' \<in> W" "bytes w' = stored (unat off) ?d (bytes (s_world s))"
    and ans: "responds os (c_fd (s_client s))
        (on_handle (c_session (s_client s)) (s_file s) (c_xid (s_client s) + 1) (c_sequence (s_client s))
           (Write (f_latest_sid (s_file s)) off FILE_SYNC4 (cells_of ?d)))
        (reply (c_xid (s_client s) + 1) ds OP_WRITE 0 rest) (s_world s) w'"
      "length (reply (c_xid (s_client s) + 1) ds OP_WRITE 0 rest) \<le> limit" "list_all wf_past ds"
    unfolding serves_writes_def answered_def by metis
  have acc: "accepted os (x_call (c_xid (s_client s) + 1)
        [op_sequence (s_client s), Putfh (handle (s_file s)),
         Write (f_latest_sid (s_file s)) off FILE_SYNC4 (take (unat k) (drop x (s_mem s)))])
      (used_slot (s_client s)) ds OP_WRITE rest s w'"
    using ans unfolding now by (simp add: accepted_def on_handle_def op_sequence_def stepped_over_def step_ops OP_WRITE_def)
  have "leaves (write_chunk os x off k) s () (s\<lparr>s_client := used_slot (s_client s), s_mem := s_mem s, s_world := w'\<rparr>)"
    using write_chunk_ok[OF able(1,2) _ k acc] able(4) assms(3) by simp
  from leaves_steady[OF this w'(1)] obtain t where t: "write_chunk os x off k s = Some (Ok () t)"
      "steady W s t" "s_mem t = s_mem s" "s_world t = w'" "idle (s_client t)" by blast
  have off: "unat (off + ucast k) = unat off + unat k"
    using able(5) assms(3) by (simp add: unat_word_ariths unsigned_ucast_eq take_bit_eq_mod)
  have "was_written bytes W x off (unat k) s t"
    using t(2-4) w'(2) now map_injective[of Some] by (auto simp: was_written_def)
  moreover have "can_write os bytes W chunk (x + unat k) (off + ucast k) (n - unat k) t"
    using t w' able assms off serves later by (auto simp: can_write_def can_transfer_def steady_def)
  ultimately show ?thesis using t(1) by blast
qed

section \<open>Pieces add up\<close>

lemma in_file_add:
  assumes "unat off + m < 2 ^ 64"
  shows "in_file off (m + n) c = in_file off m c @ in_file (off + word_of_nat m) n c"
proof -
  have "unat (off + word_of_nat m) = unat off + m"
    using assms by (simp add: unat_word_ariths unat_of_nat)
  then show ?thesis by (simp add: in_file_def take_add add.commute)
qed

lemma overlay_nothing: "x \<le> length m \<Longrightarrow> overlay x [] m = m"
  by (simp add: overlay_def)

lemma overlay_append:
  assumes "x + length ys + length zs \<le> length m"
  shows "overlay (x + length ys) zs (overlay x ys m) = overlay x (ys @ zs) m"
  using assms by (simp add: overlay_def add.assoc add.commute add.left_commute)

lemma overlay_in_file:
  assumes "x + m + n \<le> length mem" and "unat off + (m + n) < 2 ^ 64"
  shows "overlay (x + m) (cells_of (in_file (off + word_of_nat m) n c)) (overlay x (cells_of (in_file off m c)) mem) =
    overlay x (cells_of (in_file off (m + n) c)) mem"
proof -
  have add: "in_file off (m + n) c = in_file off m c @ in_file (off + word_of_nat m) n c"
    using assms(2) by (intro in_file_add) simp
  show ?thesis
  proof (cases "length (in_file off m c) = m")
    case True
    then show ?thesis
      using overlay_append[of x "cells_of (in_file off m c)" "cells_of (in_file (off + word_of_nat m) n c)" mem]
        assms(1) length_in_file[of "off + word_of_nat m" n c] add by simp
  next
    case False
    then have "length c < unat off + m" by (auto simp: in_file_def min_def split: if_splits)
    then have none: "in_file (off + word_of_nat m) n c = []"
      using assms(2) by (simp add: in_file_def unat_word_ariths unat_of_nat)
    have "x + m \<le> length (overlay x (cells_of (in_file off m c)) mem)"
      using assms(1) length_in_file[of off m c] by (simp add: overlay_def)
    then show ?thesis unfolding add none by (simp add: overlay_nothing)
  qed
qed

lemma stored_append: "stored (off + length d) e (stored off d c) = stored off (d @ e) c"
proof (cases "d = [] \<or> e = []")
  case False
  have l: "length (take off (c @ replicate (off - length c) (0 :: u8))) = off" by simp
  show ?thesis
    using False l unfolding stored_def by (simp add: ac_simps)
qed (auto simp: stored_def)

lemma stored_in_file:
  assumes "unat off + length dat < 2 ^ 64"
  shows "in_file off (length dat) (stored (unat off) dat c) = dat"
  by (simp add: in_file_def stored_def)


interpretation reading: chunk_io "read_chunk os" chunk "can_read os bytes W chunk" "was_read bytes W"
  for os :: "'w os" and chunk bytes W
proof
  show "\<exists>t. read_chunk os x off k s = Some (Ok () t) \<and> was_read bytes W x off (unat k) s t \<and>
      can_read os bytes W chunk (x + unat k) (off + ucast k) (n - unat k) t"
    if "can_read os bytes W chunk x off n s" "0 < unat k" "unat k \<le> n" "k \<le> chunk" for x off n s k
    using that by (rule read_piece)
  show "was_read bytes W x off 0 s s" if "can_read os bytes W chunk x off n s" for x off n s
    using that by (simp add: was_read_def can_read_def can_transfer_def overlay_nothing in_file_def)
  show "was_read bytes W x off (m + n) s u"
    if "can_read os bytes W chunk x off (m + n) s" "was_read bytes W x off m s t"
      "was_read bytes W (x + m) (off + word_of_nat m) n t u" for x off m n s t u
    using that overlay_in_file[of x m n "s_mem s" off]
    by (auto simp: was_read_def can_read_def can_transfer_def intro: steady_trans)
qed

interpretation writing: chunk_io "write_chunk os" chunk "can_write os bytes W chunk" "was_written bytes W"
  for os :: "'w os" and chunk bytes W
proof
  show "\<exists>t. write_chunk os x off k s = Some (Ok () t) \<and> was_written bytes W x off (unat k) s t \<and>
      can_write os bytes W chunk (x + unat k) (off + ucast k) (n - unat k) t"
    if "can_write os bytes W chunk x off n s" "0 < unat k" "unat k \<le> n" "k \<le> chunk" for x off n s k
    using that by (rule write_piece)
  show "was_written bytes W x off 0 s s" if "can_write os bytes W chunk x off n s" for x off n s
    by (simp add: was_written_def stored_def)
  show "was_written bytes W x off (m + n) s u"
    if able: "can_write os bytes W chunk x off (m + n) s" and m: "was_written bytes W x off m s t"
      and n: "was_written bytes W (x + m) (off + word_of_nat m) n t u" for x off m n s t u
    unfolding was_written_def
  proof (intro conjI allI impI)
    show "steady W s u" "s_mem u = s_mem s"
      using m n by (auto simp: was_written_def intro: steady_trans)
    fix dat assume dat: "take (m + n) (drop x (s_mem s)) = cells_of dat"
    have fits: "x + (m + n) \<le> length (s_mem s)" "unat off + (m + n) < 2 ^ 64"
      using able by (simp_all add: can_write_def can_transfer_def)
    have len: "length dat = m + n" using arg_cong[OF dat, of length] fits by simp
    have 1: "take m (drop x (s_mem s)) = cells_of (take m dat)"
      using arg_cong[OF dat, of "take m"] by (simp add: min_def take_map)
    have 2: "take n (drop (x + m) (s_mem t)) = cells_of (drop m dat)"
      using arg_cong[OF dat, of "drop m"] m by (simp add: was_written_def drop_take drop_map add.commute)
    have off: "unat (off + word_of_nat m) = unat off + length (take m dat)"
      using fits len by (simp add: unat_word_ariths unat_of_nat)
    have "bytes (s_world u) = stored (unat off + length (take m dat)) (drop m dat)
        (stored (unat off) (take m dat) (bytes (s_world s)))"
      using m n 1 2 off by (simp add: was_written_def)
    then show "bytes (s_world u) = stored (unat off) dat (bytes (s_world s))"
      unfolding stored_append append_take_drop_id .
  qed
qed

lemma readfile_segment: "readfile os x off n s = segment (read_chunk os) (c_maxresp (s_client s)) x off n s"
  by (simp add: readfile_def)

lemma writefile_segment: "writefile os x off n sy s = segment (write_chunk os) (c_maxreq (s_client s)) x off n s"
  by (simp add: writefile_def)

lemma readfile_reads:
  assumes "can_read os bytes W (c_maxresp (s_client s)) x off (unat n) s" and "0 < c_maxresp (s_client s)"
  shows "\<exists>t. readfile os x off n s = Some (Ok () t) \<and> was_read bytes W x off (unat n) s t"
  unfolding readfile_segment using assms by (rule reading.segment_moves)

lemma writefile_writes:
  assumes "can_write os bytes W (c_maxreq (s_client s)) x off (unat n) s" and "0 < c_maxreq (s_client s)"
  shows "\<exists>t. writefile os x off n sy s = Some (Ok () t) \<and> was_written bytes W x off (unat n) s t"
  unfolding writefile_segment using assms by (rule writing.segment_moves)

text \<open>What is written at an offset is what a read of the same range brings.\<close>

lemma write_then_read:
  assumes w: "can_write os bytes W (c_maxreq (s_client s)) x off (unat n) s" "0 < c_maxreq (s_client s)"
    and r: "serves_reads os bytes W (c_fd (s_client s)) (c_session (s_client s)) (s_file s)"
    and resp: "0 < c_maxresp (s_client s)" "unat (c_maxresp (s_client s)) \<le> 2 ^ 29"
    and y: "y + unat n \<le> length (s_mem s)"
  shows "\<exists>t. bnd (writefile os x off n sy) (\<lambda>_. readfile os y off n) s = Some (Ok () t) \<and>
    s_mem t = overlay y (take (unat n) (drop x (s_mem s))) (s_mem s)"
proof -
  obtain t where t: "writefile os x off n sy s = Some (Ok () t)" "was_written bytes W x off (unat n) s t"
    using writefile_writes[OF w] by blast
  from w(1) obtain dat where dat: "take (unat n) (drop x (s_mem s)) = cells_of dat"
      and fits: "x + unat n \<le> length (s_mem s)" "unat off + unat n < 2 ^ 64"
    by (auto simp: can_write_def can_transfer_def)
  have len: "length dat = unat n" using arg_cong[OF dat, of length] fits by simp
  have st: "steady W s t" "s_mem t = s_mem s" and bt: "bytes (s_world t) = stored (unat off) dat (bytes (s_world s))"
    using t(2) dat by (auto simp: was_written_def)
  have "can_read os bytes W (c_maxresp (s_client t)) y off (unat n) t" "0 < c_maxresp (s_client t)"
    using w(1) r resp y st by (simp_all add: can_read_def can_write_def can_transfer_def steady_def)
  from readfile_reads[OF this] obtain u where u: "readfile os y off n t = Some (Ok () u)"
      "was_read bytes W y off (unat n) t u" by blast
  have "in_file off (unat n) (bytes (s_world t)) = dat"
    using stored_in_file[of off dat] fits len bt by simp
  then have "s_mem u = overlay y (cells_of dat) (s_mem s)"
    using u(2) st(2) by (simp add: was_read_def)
  with u(1) dat show ?thesis
    by (simp add: bnd_Ok[of "writefile os x off n sy", OF t(1)])
qed

text \<open>Without room for a byte in a reply, \<^verbatim>\<open>readfile\<close> never returns.\<close>

lemma read_nothing:
  assumes "can_read os bytes W chunk x off n s"
  shows "\<exists>t. read_chunk os x off 0 s = Some (Ok () t) \<and> can_read os bytes W chunk x off n t"
proof -
  have able: "idle (s_client s)" "wf_file (s_file s)" "s_world s \<in> W" "x + n \<le> length (s_mem s)"
    and serves: "serves_reads os bytes W (c_fd (s_client s)) (c_session (s_client s)) (s_file s)"
    using assms by (simp_all add: can_read_def can_transfer_def)
  obtain w' eof tail ds where w': "w' \<in> W" and
    ans: "accepted os (x_call (c_xid (s_client s) + 1)
        [op_sequence (s_client s), Putfh (handle (s_file s)), Read (f_latest_sid (s_file s)) off 0])
      (used_slot (s_client s)) ds OP_READ (be32 eof @ be32 (word_of_nat (length ([] :: u8 list))) @ [] @ tail) s w'"
  proof -
    have z: "in_file off 0 c = []" for c by (simp add: in_file_def)
    have n0: "unat (0 :: u32) \<le> 2 ^ 29" by simp
    have "\<exists>w' \<in> W. \<exists>eof tail. bytes w' = bytes (s_world s) \<and>
      answered os (c_fd (s_client s)) (on_handle (c_session (s_client s)) (s_file s) (c_xid (s_client s) + 1)
         (c_sequence (s_client s)) (Read (f_latest_sid (s_file s)) off 0)) (c_xid (s_client s) + 1) OP_READ
         (be32 eof @ be32 (word_of_nat (length (in_file off (unat (0 :: u32)) (bytes (s_world s))))) @
            in_file off (unat (0 :: u32)) (bytes (s_world s)) @ tail) (s_world s) w'"
      by (rule serves[unfolded serves_reads_def, rule_format, OF able(3) n0])
    then obtain w' eof tail where "w' \<in> W"
      "answered os (c_fd (s_client s)) (on_handle (c_session (s_client s)) (s_file s) (c_xid (s_client s) + 1)
         (c_sequence (s_client s)) (Read (f_latest_sid (s_file s)) off 0)) (c_xid (s_client s) + 1) OP_READ
         (be32 eof @ be32 (word_of_nat (length ([] :: u8 list))) @ [] @ tail) (s_world s) w'"
      unfolding unsigned_0 z by blast
    then show thesis
      using that[of w'] by (auto simp: answered_def accepted_def on_handle_def op_sequence_def stepped_over_def step_ops OP_READ_def)
  qed
  have "x + length [] \<le> length (s_mem s)" using able(4) by simp
  from read_chunk_ok[OF able(1,2) this _ ans]
  have "leaves (read_chunk os x off 0) s () (s\<lparr>s_client := used_slot (s_client s), s_mem := s_mem s, s_world := w'\<rparr>)"
    by simp
  from leaves_steady[OF this w'] assms show ?thesis
    by (auto simp: can_read_def can_transfer_def steady_def)
qed

lemma readfile_stuck:
  assumes "can_read os bytes W 0 x off (unat n) s" and "c_maxresp (s_client s) = 0" and "0 < n"
  shows "readfile os x off n s = None"
proof -
  let ?S = "{t. can_read os bytes W 0 x off (unat n) t}"
  have 1: "\<exists>t \<in> ?S. read_chunk os (x + unat (0 :: u32)) (off + ucast (0 :: u32)) 0 s = Some (Ok () t)" if "s \<in> ?S" for s
    using read_nothing[of os bytes W 0 x off "unat n" s] that by auto
  note stuck = segment_loop_empty[where each = "read_chunk os" and S = ?S and x = x and off = off and d = 0 and count = n]
  have "\<forall>s. s \<in> ?S \<longrightarrow> segment_loop (read_chunk os) 0 x off n 0 s = None"
    by (rule stuck) (use 1 assms(3) in simp_all)
  then show ?thesis using assms(1,2) unfolding readfile_segment segment_def by simp
qed

end
