(* ===== verification/Lock_Service.thy ===== *)
theory Lock_Service
  imports Lock_Safety Files
begin

text \<open>
  The laws of \<open>lock_calls\<close> for the calls the client really makes: \<^verbatim>\<open>lock_range\<close> and
  \<^verbatim>\<open>unlock_range\<close> on the wire, against a server that keeps the locks (\<open>serves_locks\<close>), by
  several processes that share nothing but the server.
\<close>

section \<open>A server that keeps the locks\<close>

text \<open>
  \<open>tbl w fd\<close> is what the owner behind the connection \<open>fd\<close> holds in the world \<open>w\<close>. The server of
  the hypotheses answers \<^verbatim>\<open>LOCK\<close> and \<^verbatim>\<open>LOCKU\<close> on the handle \<open>h\<close>: it grants the request, which
  sets or clears the range, and hands back a state id, or it denies it with some status and
  changes nothing (RFC 5661, sections 18.10 and 18.12). Write locks exclude other owners. The
  session is not lost: no answer is \<^verbatim>\<open>NFS4ERR_BADSESSION\<close>.
\<close>

type_synonym 'w tables = "'w \<Rightarrow> int \<Rightarrow> locks"

definition granted :: "'w os \<Rightarrow> 'w tables \<Rightarrow> 'w set \<Rightarrow> int \<Rightarrow> cells \<Rightarrow> u32 \<Rightarrow> u32 \<Rightarrow> call \<Rightarrow> 'w \<Rightarrow> bool" where
  "granted os tbl W fd msg x op c w \<longleftrightarrow> (\<exists>w' \<in> W. tbl w' = (tbl w)(fd := after_call c (tbl w fd)) \<and>
     (\<exists>sq other rest. length other = 12 \<and> answered os fd msg x op (be32 sq @ other @ rest) w w'))"

definition denied :: "'w os \<Rightarrow> 'w tables \<Rightarrow> 'w set \<Rightarrow> int \<Rightarrow> cells \<Rightarrow> u32 \<Rightarrow> 'w \<Rightarrow> bool" where
  "denied os tbl W fd msg x w \<longleftrightarrow> (\<exists>w' \<in> W. tbl w' = tbl w \<and>
     (\<exists>nstatus cause rest. nstatus \<noteq> NFS4_OK \<and> nstatus \<noteq> NFS4ERR_BADSESSION \<and>
        codestring nfsstatus nstatus = Some cause \<and> responds os fd msg (refusal x nstatus rest) w w' \<and>
        length (refusal x nstatus rest) \<le> limit))"

definition decides :: "'w os \<Rightarrow> 'w tables \<Rightarrow> 'w set \<Rightarrow> int \<Rightarrow> cells \<Rightarrow> u32 \<Rightarrow> u32 \<Rightarrow> call \<Rightarrow> 'w \<Rightarrow> bool" where
  "decides os tbl W fd msg x op c w \<longleftrightarrow> granted os tbl W fd msg x op c w \<or> denied os tbl W fd msg x w"

text \<open>The operation that a call puts into its request.\<close>

fun asked :: "nfs_file \<Rightarrow> owner \<Rightarrow> call \<Rightarrow> nfs_op" where
  "asked f own (Lock_range ty off n) = Lock ty False off n 0 (f_open_sid f) 0 own"
| "asked f own (Unlock_range ty off n) = Locku ty 0 (f_latest_sid f) off n"

fun op_of :: "call \<Rightarrow> u32" where
  "op_of (Lock_range ty off n) = OP_LOCK"
| "op_of (Unlock_range ty off n) = OP_LOCKU"

definition may_ask :: "cells \<Rightarrow> call \<Rightarrow> nfs_file \<Rightarrow> cells \<Rightarrow> bool" where
  "may_ask h c f sess \<longleftrightarrow> handle f = h \<and> wf_file f \<and> length sess = NFS4_SESSIONID_SIZE \<and> wf_call c"

definition serves_locks :: "'w os \<Rightarrow> 'w tables \<Rightarrow> 'w set \<Rightarrow> cells \<Rightarrow> bool" where
  "serves_locks os tbl W h \<longleftrightarrow> (\<forall>w \<in> W.
     (\<forall>p q b. p \<noteq> q \<longrightarrow> tbl w p b = 2 \<longrightarrow> tbl w q b = 0) \<and>
     (\<forall>fd c f own sess x sq. may_ask h c f sess \<longrightarrow>
        decides os tbl W fd (on_handle sess f x sq (asked f own c)) x (op_of c) c w))"

text \<open>A server that grants the owner behind \<open>fd\<close> whatever it asks for.\<close>

definition grants_locks :: "'w os \<Rightarrow> 'w tables \<Rightarrow> 'w set \<Rightarrow> cells \<Rightarrow> int \<Rightarrow> bool" where
  "grants_locks os tbl W h fd \<longleftrightarrow> (\<forall>w \<in> W. \<forall>c f own sess x sq. may_ask h c f sess \<longrightarrow>
     granted os tbl W fd (on_handle sess f x sq (asked f own c)) x (op_of c) c w)"

section \<open>The calls of one client\<close>

lemma wf_new_sid [simp]: "length other = 12 \<Longrightarrow> wf_file f \<Longrightarrow> wf_file (new_sid sq other f)"
  by (simp add: wf_file_def new_sid_def size_defs)

lemma handle_new_sid [simp]: "handle (new_sid sq other f) = handle f"
  by (simp add: handle_def new_sid_def)

lemma unlock_range_refused:
  assumes c: "idle (s_client s)" and f: "wf_file (s_file s)"
    and resp: "responds os (c_fd (s_client s))
      (x_call (c_xid (s_client s) + 1)
        [op_sequence (s_client s), Putfh (handle (s_file s)), Locku ty 0 (f_latest_sid (s_file s)) off n])
      (refusal (c_xid (s_client s) + 1) nstatus rest) (s_world s) w'"
    and len: "length (refusal (c_xid (s_client s) + 1) nstatus rest) \<le> limit"
    and st: "nstatus \<noteq> NFS4_OK" "codestring nfsstatus nstatus = Some cause" "nstatus \<noteq> NFS4ERR_BADSESSION"
  shows "rejects (unlock_range os ty off n) s cause (s\<lparr>s_client := used_slot (s_client s), s_world := w'\<rparr>)"
  unfolding unlock_range_def
  using call_rejects[OF unlock_request_sends[OF idle_ready[OF c] f] idle_used_slot[OF c] _ long_x_call _ _ st]
    resp len by simp

text \<open>A client that can lock: its file is open on \<open>h\<close>, its socket is \<open>fd\<close>.\<close>

definition lock_client :: "cells \<Rightarrow> int \<Rightarrow> 'w st \<Rightarrow> bool" where
  "lock_client h fd s \<longleftrightarrow> idle (s_client s) \<and> wf_file (s_file s) \<and> handle (s_file s) = h \<and> c_fd (s_client s) = fd"

definition call_granted :: "cells \<Rightarrow> int \<Rightarrow> 'w tables \<Rightarrow> 'w set \<Rightarrow> call \<Rightarrow> 'w st \<Rightarrow> ('w st, unit) out option \<Rightarrow> bool" where
  "call_granted h fd tbl W c s r \<longleftrightarrow>
     (\<exists>t. r = Some (Ok () t) \<and> lock_client h fd t \<and> s_world t \<in> W \<and>
        tbl (s_world t) = (tbl (s_world s))(fd := after_call c (tbl (s_world s) fd)))"

definition lock_outcome :: "cells \<Rightarrow> int \<Rightarrow> 'w tables \<Rightarrow> 'w set \<Rightarrow> call \<Rightarrow> 'w st \<Rightarrow> ('w st, unit) out option \<Rightarrow> bool" where
  "lock_outcome h fd tbl W c s r \<longleftrightarrow> call_granted h fd tbl W c s r \<or>
     (\<exists>e t. r = Some (Err e t) \<and> lock_client h fd t \<and> s_world t \<in> W \<and> tbl (s_world t) = tbl (s_world s))"

lemma idle_session: "idle c \<Longrightarrow> length (c_session c) = NFS4_SESSIONID_SIZE"
  by (simp add: idle_def ready_def wf_client_def)

lemma leaves_outcome:
  assumes "leaves m s () (s\<lparr>s_client := used_slot (s_client s), s_file := f, s_world := w'\<rparr>)"
    and "lock_client h fd s" and "wf_file f" and "handle f = h" and "w' \<in> W"
    and "tbl w' = (tbl (s_world s))(fd := after_call c (tbl (s_world s) fd))"
  shows "call_granted h fd tbl W c s (m s)"
proof -
  from assms(1) obtain d where d: "m s = Some (Ok () (s\<lparr>s_client := d, s_file := f, s_world := w'\<rparr>))"
      "apart d (used_slot (s_client s))" "idle d"
    by (auto simp: leaves_def)
  then show ?thesis
    using assms(2-) apart_fields(1)[OF d(2)] by (simp add: call_granted_def lock_client_def)
qed

lemma rejects_outcome:
  assumes "rejects m s cause (s\<lparr>s_client := used_slot (s_client s), s_world := w'\<rparr>)"
    and "lock_client h fd s" and "w' \<in> W" and "tbl w' = tbl (s_world s)"
  shows "\<exists>e t. m s = Some (Err e t) \<and> lock_client h fd t \<and> s_world t \<in> W \<and> tbl (s_world t) = tbl (s_world s)"
proof -
  from assms(1) obtain d where d: "m s = Some (Err cause (s\<lparr>s_client := d, s_world := w'\<rparr>))"
      "apart d (used_slot (s_client s))" "idle d"
    by (auto simp: rejects_def)
  then show ?thesis
    using assms(2-) apart_fields(1)[OF d(2)] by (simp add: lock_client_def)
qed

lemma answered_accepted:
  assumes "answered os (c_fd (s_client s)) msg (c_xid c') op rest (s_world s) w'" and "op \<notin> stepped_over"
  obtains ds where "accepted os msg c' ds op rest s w'"
  using assms by (auto simp: answered_def accepted_def)

lemma lock_ops: "OP_LOCK \<notin> stepped_over" "OP_LOCKU \<notin> stepped_over"
  by (simp_all add: stepped_over_def step_ops OP_LOCK_def OP_LOCKU_def)

text \<open>Both calls alike: their request, and what they make of the two answers.\<close>

definition call_msg :: "call \<Rightarrow> 'w st \<Rightarrow> cells" where
  "call_msg c s = on_handle (c_session (s_client s)) (s_file s) (c_xid (s_client s) + 1) (c_sequence (s_client s))
     (asked (s_file s) (client_owner (s_client s)) c)"

lemma client_call_ok:
  assumes "idle (s_client s)" and "wf_file (s_file s)" and "length other = 12"
    and "accepted os (call_msg c s) (used_slot (s_client s)) ds (op_of c) (be32 sq @ other @ rest) s w'"
  shows "leaves (client_call os c) s ()
    (s\<lparr>s_client := used_slot (s_client s), s_file := new_sid sq other (s_file s), s_world := w'\<rparr>)"
  using assms lock_range_ok[OF assms(1-3)] unlock_range_ok[OF assms(1-3)]
  by (cases c) (auto simp: call_msg_def on_handle_def op_sequence_def)

lemma client_call_refused:
  assumes "idle (s_client s)" and "wf_file (s_file s)"
    and "responds os (c_fd (s_client s)) (call_msg c s) (refusal (c_xid (s_client s) + 1) nstatus rest) (s_world s) w'"
    and "length (refusal (c_xid (s_client s) + 1) nstatus rest) \<le> limit"
    and "nstatus \<noteq> NFS4_OK" and "codestring nfsstatus nstatus = Some cause" and "nstatus \<noteq> NFS4ERR_BADSESSION"
  shows "rejects (client_call os c) s cause (s\<lparr>s_client := used_slot (s_client s), s_world := w'\<rparr>)"
  using assms lock_range_refused[OF assms(1,2) _ assms(4-7)] unlock_range_refused[OF assms(1,2) _ assms(4-7)]
  by (cases c) (auto simp: call_msg_def on_handle_def op_sequence_def)

lemma op_of_plain: "op_of c \<notin> stepped_over"
  by (cases c) (simp_all add: lock_ops)

lemma granted_outcome:
  assumes grant: "granted os tbl W fd (call_msg c s) (c_xid (s_client s) + 1) (op_of c) c (s_world s)"
    and s: "lock_client h fd s"
  shows "call_granted h fd tbl W c s (client_call os c s)"
proof -
  have fd: "c_fd (s_client s) = fd" and f: "idle (s_client s)" "wf_file (s_file s)" "handle (s_file s) = h"
    using s by (simp_all add: lock_client_def)
  from grant obtain w' sq other rest where w': "w' \<in> W" "tbl w' = (tbl (s_world s))(fd := after_call c (tbl (s_world s) fd))"
      "length other = 12"
      "answered os fd (call_msg c s) (c_xid (s_client s) + 1) (op_of c) (be32 sq @ other @ rest) (s_world s) w'"
    unfolding granted_def by blast
  obtain ds where "accepted os (call_msg c s) (used_slot (s_client s)) ds (op_of c) (be32 sq @ other @ rest) s w'"
    using answered_accepted[of os s "call_msg c s" "used_slot (s_client s)" "op_of c" _ w'] w'(4) fd op_of_plain by auto
  from leaves_outcome[OF client_call_ok[OF f(1,2) w'(3) this] s _ _ w'(1,2)] f w'(3) show ?thesis by simp
qed

lemma denied_outcome:
  assumes deny: "denied os tbl W fd (call_msg c s) (c_xid (s_client s) + 1) (s_world s)" and s: "lock_client h fd s"
  shows "\<exists>e t. client_call os c s = Some (Err e t) \<and> lock_client h fd t \<and> s_world t \<in> W \<and> tbl (s_world t) = tbl (s_world s)"
proof -
  have i: "c_fd (s_client s) = fd" "idle (s_client s)" "wf_file (s_file s)" using s by (simp_all add: lock_client_def)
  from deny obtain w' nstatus cause rest where w': "w' \<in> W" "tbl w' = tbl (s_world s)" "nstatus \<noteq> NFS4_OK"
      "codestring nfsstatus nstatus = Some cause" "nstatus \<noteq> NFS4ERR_BADSESSION"
      "responds os fd (call_msg c s) (refusal (c_xid (s_client s) + 1) nstatus rest) (s_world s) w'"
      "length (refusal (c_xid (s_client s) + 1) nstatus rest) \<le> limit"
    unfolding denied_def by blast
  from rejects_outcome[OF client_call_refused[OF i(2,3)] s w'(1,2)] w' i(1) show ?thesis by simp
qed

lemma may_ask_client: "lock_client h fd s \<Longrightarrow> wf_call c \<Longrightarrow> may_ask h c (s_file s) (c_session (s_client s))"
  by (simp add: may_ask_def lock_client_def idle_session)

lemma client_call_granted:
  assumes "lock_client h fd s" and "s_world s \<in> W" and "wf_call c" and "grants_locks os tbl W h fd"
  shows "call_granted h fd tbl W c s (client_call os c s)"
  using assms may_ask_client[OF assms(1,3)]
  by (intro granted_outcome) (simp_all add: grants_locks_def call_msg_def)

lemma client_call_outcome:
  assumes "serves_locks os tbl W h" and "lock_client h fd s" and "s_world s \<in> W" and "wf_call c"
  shows "lock_outcome h fd tbl W c s (client_call os c s)"
proof -
  have "decides os tbl W fd (call_msg c s) (c_xid (s_client s) + 1) (op_of c) c (s_world s)"
    using assms(1,3) may_ask_client[OF assms(2,4)] by (simp add: serves_locks_def call_msg_def)
  then show ?thesis
    using granted_outcome[OF _ assms(2)] denied_outcome[OF _ assms(2)] unfolding decides_def lock_outcome_def by blast
qed

section \<open>Several clients\<close>

text \<open>The processes share the world; each has the rest of the state to itself.\<close>

record 'w system =
  y_world :: 'w
  y_procs :: "int \<Rightarrow> 'w st"

definition as_proc :: "int \<Rightarrow> 'w system \<Rightarrow> 'w st" where
  "as_proc p y = (y_procs y p)\<lparr>s_world := y_world y\<rparr>"

definition put_proc :: "int \<Rightarrow> 'w st \<Rightarrow> 'w system \<Rightarrow> 'w system" where
  "put_proc p s y = y\<lparr>y_world := s_world s, y_procs := (y_procs y)(p := s)\<rparr>"

definition proc_call :: "'w os \<Rightarrow> int \<Rightarrow> call \<Rightarrow> ('w system, unit) prog" where
  "proc_call os p c = zoom (as_proc p) (put_proc p) (client_call os c)"

definition lock_system :: "'w os \<Rightarrow> 'w tables \<Rightarrow> 'w set \<Rightarrow> cells \<Rightarrow> 'w system \<Rightarrow> bool" where
  "lock_system os tbl W h y \<longleftrightarrow> serves_locks os tbl W h \<and> y_world y \<in> W \<and> (\<forall>p. lock_client h p (y_procs y p))"

lemma lock_client_as_proc: "lock_client h p (as_proc p y) = lock_client h p (y_procs y p)"
  by (simp add: lock_client_def as_proc_def)

interpretation db: lock_calls "proc_call os" "lock_system os tbl W h" "\<lambda>y. tbl (y_world y)"
  for os :: "'w os" and tbl W h
proof
  fix g g' :: "'w system" and c p e
  show "lock_system os tbl W h g' \<and> tbl (y_world g') = (tbl (y_world g))(p := after_call c (tbl (y_world g) p))"
    if g: "lock_system os tbl W h g" "wf_call c" and run: "proc_call os p c g = Some (Ok () g')"
  proof -
    have "lock_outcome h p tbl W c (as_proc p g) (client_call os c (as_proc p g))"
      using g client_call_outcome[of os tbl W h p "as_proc p g" c]
      by (simp add: lock_system_def lock_client_as_proc) (simp add: as_proc_def)
    with run g show ?thesis
      by (auto simp: lock_outcome_def call_granted_def proc_call_def zoom_def lock_system_def put_proc_def as_proc_def)
  qed
  show "lock_system os tbl W h g' \<and> tbl (y_world g') = tbl (y_world g)"
    if g: "lock_system os tbl W h g" "wf_call c" and run: "proc_call os p c g = Some (Err e g')"
  proof -
    have "lock_outcome h p tbl W c (as_proc p g) (client_call os c (as_proc p g))"
      using g client_call_outcome[of os tbl W h p "as_proc p g" c]
      by (simp add: lock_system_def lock_client_as_proc) (simp add: as_proc_def)
    with run g show ?thesis
      by (auto simp: lock_outcome_def call_granted_def proc_call_def zoom_def lock_system_def put_proc_def as_proc_def)
  qed
  show "tbl (y_world g) q b = 0" if "lock_system os tbl W h g" "p \<noteq> q" "tbl (y_world g) p b = 2" for q b
    using that unfolding lock_system_def serves_locks_def by blast
qed

text \<open>
  A script that one process runs on its own part of the state is the same script run with the
  calls of the system.
\<close>

lemma proc_call_run:
  assumes "as_proc p y = s"
  shows "proc_call os p c y = map_option (map_out (\<lambda>t. put_proc p t y) id) (client_call os c s)"
  using assms by (simp add: proc_call_def zoom_def)

lemma as_put_proc [simp]: "as_proc p (put_proc p s y) = s"
  by (simp add: as_proc_def put_proc_def)

lemma proc_script:
  assumes "run_script (client_call os) l scr s = Some (Ok (rc, l') s')" and "as_proc p y = s"
  shows "\<exists>y'. run_script (proc_call os p) l scr y = Some (Ok (rc, l') y') \<and> as_proc p y' = s'"
  using assms
proof (induction scr arbitrary: s y)
  case (Try c k)
  show ?case
  proof (cases "client_call os c s")
    case None
    with Try.prems show ?thesis by (simp add: bnd_None status_of_None)
  next
    case (Some r)
    show ?thesis
    proof (cases r)
      case (Ok u t)
      with Some have c: "client_call os c s = Some (Ok () t)" by simp
      then have p: "proc_call os p c y = Some (Ok () (put_proc p t y))"
        using proc_call_run[OF Try.prems(2)] by simp
      have "run_script (client_call os) l k t = Some (Ok (rc, l') s')"
        using Try.prems(1) by (simp add: bnd_Ok[where m = "status_of (client_call os c)", OF status_of_Ok[where m = "client_call os c", OF c]])
      from Try.IH[OF this as_put_proc, of y] show ?thesis
        by (simp add: bnd_Ok[where m = "status_of (proc_call os p c)", OF status_of_Ok[where m = "proc_call os p c", OF p]])
    next
      case (Err e t)
      with Some have c: "client_call os c s = Some (Err e t)" by simp
      then have p: "proc_call os p c y = Some (Err e (put_proc p t y))"
        using proc_call_run[OF Try.prems(2)] by simp
      show ?thesis
        using Try.prems(1)
        by (simp add: bnd_Ok[where m = "status_of (client_call os c)", OF status_of_Err[where m = "client_call os c", OF c]]
          bnd_Ok[where m = "status_of (proc_call os p c)", OF status_of_Err[where m = "proc_call os p c", OF p]])
    next
      case (Crash f)
      with Some Try.prems show ?thesis by (simp add: bnd_def status_of_def)
    qed
  qed
qed auto

text \<open>If every call is granted, a script that has no failed assertion ends at its level.\<close>

fun script_end :: "int \<Rightarrow> script \<Rightarrow> int option" where
  "script_end l Keep = Some l"
| "script_end l (Finish l') = Some l'"
| "script_end l Abort = None"
| "script_end l (Try c k) = (if wf_call c then script_end l k else None)"

text \<open>What the process holds when all calls of a script were granted.\<close>

fun script_effect :: "script \<Rightarrow> locks \<Rightarrow> locks" where
  "script_effect (Try c k) m = script_effect k (after_call c m)"
| "script_effect _ m = m"

lemma granted_script:
  assumes "script_end l scr = Some l'" and "lock_client h fd s" and "s_world s \<in> W" and g: "grants_locks os tbl W h fd"
  shows "\<exists>t. run_script (client_call os) l scr s = Some (Ok (SQLITE_OK, l') t) \<and> lock_client h fd t \<and> s_world t \<in> W \<and>
    tbl (s_world t) = (tbl (s_world s))(fd := script_effect scr (tbl (s_world s) fd))"
  using assms(1-3)
proof (induction scr arbitrary: s)
  case (Try c k)
  then have wf: "wf_call c" "script_end l k = Some l'" by (auto split: if_splits)
  from client_call_granted[OF Try.prems(2,3) wf(1) g] obtain t where
    t: "client_call os c s = Some (Ok () t)" "lock_client h fd t" "s_world t \<in> W"
      "tbl (s_world t) = (tbl (s_world s))(fd := after_call c (tbl (s_world s) fd))"
    by (auto simp: call_granted_def)
  have "\<exists>u. run_script (client_call os) l k t = Some (Ok (SQLITE_OK, l') u) \<and> lock_client h fd u \<and> s_world u \<in> W \<and>
      tbl (s_world u) = (tbl (s_world s))(fd := script_effect k (after_call c (tbl (s_world s) fd)))"
    using Try.IH[OF wf(2) t(2,3)] by (simp only: t(4) fun_upd_upd fun_upd_same)
  then show ?case
    by (simp add: fun_upd_def bnd_Ok[where m = "status_of (client_call os c)", OF status_of_Ok[where m = "client_call os c", OF t(1)]])
qed auto

text \<open>Granted locks as a run of the system.\<close>

lemma proc_locks:
  assumes "script_end l (nfs4Lock_script l want) = Some l'" and "lock_client h p (as_proc p y)" and "y_world y \<in> W"
    and "grants_locks os tbl W h p"
  shows "\<exists>y'. (lock_step (proc_call os) F)\<^sup>*\<^sup>* (y, P(p := (l, Between))) (y', P(p := (l', Between))) \<and>
    lock_client h p (as_proc p y') \<and> y_world y' \<in> W"
proof -
  have "s_world (as_proc p y) \<in> W" using assms(3) by (simp add: as_proc_def)
  from granted_script[OF assms(1,2) this assms(4)] obtain t where t:
    "run_script (client_call os) l (nfs4Lock_script l want) (as_proc p y) = Some (Ok (SQLITE_OK, l') t)"
    "lock_client h p t" "s_world t \<in> W" by blast
  from proc_script[OF t(1) refl] obtain y' where y': "run_script (proc_call os p) l (nfs4Lock_script l want) y =
      Some (Ok (SQLITE_OK, l') y')" "as_proc p y' = t" by blast
  have "lock_step (proc_call os) F (y, P(p := (l, Between))) (y, P(p := (l, Locking (nfs4Lock_script l want))))"
    using start_lock[of "P(p := (l, Between))" p l "proc_call os" F y want] by simp
  moreover have "(lock_step (proc_call os) F)\<^sup>*\<^sup>* (y, P(p := (l, Locking (nfs4Lock_script l want)))) (y', P(p := (l', Between)))"
    by (rule run_script_steps(1)[where call = "proc_call os" and P = P and F = F, OF y'(1)])
  moreover have "y_world y' = s_world t" unfolding y'(2)[symmetric] by (simp add: as_proc_def)
  ultimately show ?thesis using t(2,3) y'(2) by (metis converse_rtranclp_into_rtranclp)
qed

lemma lock_script_ends:
  "script_end NO_LOCK (nfs4Lock_script NO_LOCK SHARED_LOCK) = Some SHARED_LOCK"
  "script_end SHARED_LOCK (nfs4Lock_script SHARED_LOCK RESERVED_LOCK) = Some RESERVED_LOCK"
  "script_end SHARED_LOCK (nfs4Lock_script SHARED_LOCK EXCLUSIVE_LOCK) = Some EXCLUSIVE_LOCK"
  "script_end RESERVED_LOCK (nfs4Lock_script RESERVED_LOCK EXCLUSIVE_LOCK) = Some EXCLUSIVE_LOCK"
  by (simp_all add: nfs4Lock_script_def assert_that_def level_defs Let_def)

lemma unlock_script_ends:
  "l \<in> {NO_LOCK, SHARED_LOCK, RESERVED_LOCK, EXCLUSIVE_LOCK} \<Longrightarrow> want \<in> {NO_LOCK, SHARED_LOCK} \<Longrightarrow>
    script_end l (nfs4Unlock_script junk l want) = Some (min l want)"
  by (auto simp: nfs4Unlock_script_def assert_that_def level_defs Let_def)

section \<open>The locks of a level\<close>

text \<open>
  What a process holds at each level, byte by byte: from \<^verbatim>\<open>SHARED\<close> on the shared bytes, for reading or,
  at \<^verbatim>\<open>EXCLUSIVE\<close>, for writing; at \<^verbatim>\<open>RESERVED\<close> the reserved byte; at \<^verbatim>\<open>EXCLUSIVE\<close> the pending byte,
  and the reserved byte if it got there from \<^verbatim>\<open>RESERVED\<close>; nothing else.
\<close>

definition level_locks :: "int \<Rightarrow> bool \<Rightarrow> locks" where
  "level_locks l reserved b =
     (if b \<in> range_of SHARED_FIRST SHARED_SIZE then (if l = NO_LOCK then 0 else if l = EXCLUSIVE_LOCK then 2 else 1)
      else if b = RESERVED_BYTE \<and> (l = RESERVED_LOCK \<or> l = EXCLUSIVE_LOCK \<and> reserved) then 2
      else if b = PENDING_BYTE \<and> l = EXCLUSIVE_LOCK then 2
      else 0)"

definition holds_exactly :: "int \<Rightarrow> locks \<Rightarrow> bool" where
  "holds_exactly l m \<longleftrightarrow> l \<in> {NO_LOCK, SHARED_LOCK, RESERVED_LOCK, EXCLUSIVE_LOCK} \<and> (\<exists>reserved. m = level_locks l reserved)"

lemma locked_bytes:
  "b \<in> range_of PENDING_BYTE 1 \<longleftrightarrow> b = PENDING_BYTE" "b \<in> range_of RESERVED_BYTE 1 \<longleftrightarrow> b = RESERVED_BYTE"
  "b \<in> range_of PENDING_BYTE 2 \<longleftrightarrow> b = PENDING_BYTE \<or> b = RESERVED_BYTE"
  "PENDING_BYTE \<noteq> RESERVED_BYTE"
  by (auto simp: range_of_def byte_defs word_le_nat_alt word_less_nat_alt word_unat_eq_iff)

lemma lock_script_effect:
  assumes "holds_exactly l m" and "(l, want) \<in> {(NO_LOCK, SHARED_LOCK), (SHARED_LOCK, RESERVED_LOCK),
      (SHARED_LOCK, EXCLUSIVE_LOCK), (RESERVED_LOCK, EXCLUSIVE_LOCK)}"
  shows "holds_exactly want (script_effect (nfs4Lock_script l want) m)"
proof -
  from assms(1) obtain reserved where m: "m = level_locks l reserved" by (auto simp: holds_exactly_def)
  have "script_effect (nfs4Lock_script l want) m = level_locks want (l = RESERVED_LOCK)"
    using assms(2) ranges locked_bytes unfolding m
    by (auto simp: nfs4Lock_script_def assert_that_def Let_def level_locks_def level_defs fun_eq_iff)
  with assms(2) show ?thesis by (auto simp: holds_exactly_def)
qed

lemma unlock_script_effect:
  assumes "holds_exactly l m" and "want \<in> {NO_LOCK, SHARED_LOCK}"
  shows "holds_exactly (min l want) (script_effect (nfs4Unlock_script junk l want) m)"
proof -
  from assms(1) obtain reserved where m: "m = level_locks l reserved"
    and l: "l \<in> {NO_LOCK, SHARED_LOCK, RESERVED_LOCK, EXCLUSIVE_LOCK}" by (auto simp: holds_exactly_def)
  have "script_effect (nfs4Unlock_script junk l want) m = level_locks (min l want) reserved"
    using l assms(2) ranges locked_bytes unfolding m
    by (auto simp: nfs4Unlock_script_def assert_that_def Let_def level_locks_def level_defs fun_eq_iff)
  with l assms(2) show ?thesis by (auto simp: holds_exactly_def level_defs)
qed

end
