(* ===== verification/Connection.thy ===== *)
theory Connection
  imports Files
begin

text \<open>
  How a client comes to be: \<^verbatim>\<open>create_client\<close>, and \<^verbatim>\<open>rpc_connection\<close> with its five steps, each an
  exchange with the server. \<open>reaches m s d W\<close> says that \<open>m\<close> succeeds, leaves the client \<open>d\<close> (but
  for the buffers) and one of the worlds \<open>W\<close>; such steps compose.
\<close>


lemma leaves_bnd:
  assumes "leaves m s a t" and "\<And>c. apart c (s_client t) \<Longrightarrow> idle c \<Longrightarrow> leaves (k a) (t\<lparr>s_client := c\<rparr>) b u"
  shows "leaves (bnd m k) s b u"
proof -
  from assms(1) obtain c where c: "m s = Some (Ok a (t\<lparr>s_client := c\<rparr>))" "apart c (s_client t)" "idle c"
    by (auto simp: leaves_def)
  from assms(2)[OF c(2,3)] show ?thesis by (simp add: leaves_def bnd_Ok[where m = m, OF c(1)])
qed

lemma leaves_apart:
  assumes "leaves m s a (t\<lparr>s_client := c\<rparr>)" and "apart c d"
  shows "leaves m s a (t\<lparr>s_client := d\<rparr>)"
  using assms apart_trans by (fastforce simp: leaves_def)

lemma apart_sym: "apart c d \<Longrightarrow> apart d c"
  by (simp add: apart_def)

lemma apart_ops:
  assumes "apart c d"
  shows "op_sequence c = op_sequence d" and "op_create_session c = op_create_session d"
    and "op_exchange_id name c = op_exchange_id name d"
  by (rule apart_field[OF assms], simp add: bare_def op_sequence_def op_create_session_def op_exchange_id_def client_channel_def)+

definition connected :: "u8 list \<Rightarrow> int \<Rightarrow> client \<Rightarrow> client" where
  "connected addr fd c = c\<lparr>c_address := take 4 (cells_of addr), c_fd := fd\<rparr>"

definition identified :: "u8 list \<Rightarrow> u32 \<Rightarrow> client \<Rightarrow> client" where
  "identified cid sq c = (next_call c)\<lparr>c_clientid := of_le64 cid, c_server_sequence := sq\<rparr>"

lemma idle_connected: "idle c \<Longrightarrow> idle (connected addr fd c)"
  by (simp add: idle_def ready_def connected_def wf_client_def)

lemma connects:
  assumes "c_string (b_contents (c_hostname (s_client s))) = Inr name"
    and "os_gethostbyname os name (s_world s) = (Some addr, w1)" and "os_socket os w1 = (fd, w2)"
    and "w3 = (if config_boolean (os_getenv os) ''NFS_TCP_NODELAY'' True then os_setsockopt os fd 0 1 w2 else w2)"
    and "os_connect os fd (take 4 (cells_of addr)) 2049 w3 = (0, w4)"
  shows "nfs4_connect os s = Some (Ok () (s\<lparr>s_client := connected addr fd (s_client s), s_world := w4\<rparr>))"
  using assms unfolding nfs4_connect_def
  by (cases "config_boolean (os_getenv os) ''NFS_TCP_NODELAY'' True")
    (simp_all add: bnd_def on_world_def set_client_def connected_def)

lemma bufless_identified: "bufless (\<lambda>c. c\<lparr>c_clientid := i, c_server_sequence := sq\<rparr>)"
  unfolding bufless_def wf_client_def by (intro conjI allI; case_tac w; simp)

lemma idle_next_call: "idle c \<Longrightarrow> idle (next_call c)"
  by (simp add: idle_def ready_def next_call_def)

text \<open>\<open>awaits\<close>: in each of the worlds \<open>W\<close> the server answers \<open>msg\<close>, and is in one of \<open>W'\<close> then.\<close>

definition awaits :: "'w os \<Rightarrow> int \<Rightarrow> 'w set \<Rightarrow> cells \<Rightarrow> u32 \<Rightarrow> u32 \<Rightarrow> u8 list \<Rightarrow> 'w set \<Rightarrow> bool" where
  "awaits os fd W msg x op rest W' \<longleftrightarrow> (\<forall>w \<in> W. \<exists>w' \<in> W'. answered os fd msg x op rest w w')"

lemma awaits_accepted:
  assumes "awaits os fd W msg x op rest W'" and "s_world s \<in> W" and "c_fd (s_client s) = fd" and "c_xid c' = x"
    and "op \<notin> stepped_over"
  obtains ds w' where "accepted os msg c' ds op rest s w'" and "w' \<in> W'"
  using assms unfolding awaits_def answered_def accepted_def by blast

lemma plain_ops:
  "OP_EXCHANGE_ID \<notin> stepped_over" "OP_CREATE_SESSION \<notin> stepped_over" "OP_GETFH \<notin> stepped_over"
  "OP_RECLAIM_COMPLETE \<notin> stepped_over"
  by (simp_all add: stepped_over_def step_ops OP_EXCHANGE_ID_def OP_CREATE_SESSION_def OP_GETFH_def OP_RECLAIM_COMPLETE_def)

lemma exchange_id_ok:
  assumes c: "idle (s_client s)" and W: "s_world s \<in> W" "\<And>w. w \<in> W \<Longrightarrow> snd (os_rand os w) \<in> W"
    and cid: "length cid = 8" and fd: "c_fd (s_client s) = fd"
    and ans: "\<And>name. length name = 16 \<Longrightarrow> awaits os fd W
      (x_call (c_xid (s_client s) + 1) [op_exchange_id name (s_client s)]) (c_xid (s_client s) + 1) OP_EXCHANGE_ID
      (cid @ be32 sq @ be32 flags @ rest) W'"
  shows "\<exists>w' \<in> W'. leaves (exchange_id os) s () (s\<lparr>s_client := identified cid sq (s_client s), s_world := w'\<rparr>)"
proof -
  let ?c = "s_client s"
  obtain name world where n: "world \<in> W" "length name = 16"
    "sends os Reverse (\<lambda>_. bnd (exchange_id_request os) (rpc_send os) s) (s\<lparr>s_world := world\<rparr>)
      (x_call (c_xid ?c + 1) [op_exchange_id name ?c]) (next_call ?c)"
    using exchange_id_request_sends[of s W os, OF idle_ready[OF c] W] by blast
  let ?s = "s\<lparr>s_world := world\<rparr>" and ?m = "\<lambda>_ :: 'a st. exchange_id_request os s"
  have m: "sends os Reverse (bnd ?m (rpc_send os)) ?s (x_call (c_xid ?c + 1) [op_exchange_id name ?c]) (next_call ?c)"
  proof -
    have "bnd ?m (rpc_send os) = (\<lambda>_. bnd (exchange_id_request os) (rpc_send os) s)" by (rule ext) (simp add: bnd_def)
    then show ?thesis using n(3) by (simp only:)
  qed
  obtain ds w' where acc: "accepted os (x_call (c_xid ?c + 1) [op_exchange_id name ?c]) (next_call ?c) ds OP_EXCHANGE_ID
      (cid @ be32 sq @ be32 flags @ rest) ?s w'" and w': "w' \<in> W'"
    by (rule awaits_accepted[OF ans[OF n(2)], of ?s "next_call ?c"]) (use n(1) fd plain_ops in \<open>simp_all add: next_call_def\<close>)
  have k: "goes Reverse (parse_exchange_id Reverse) (?s\<lparr>s_client := d, s_world := w'\<rparr>)
      (cid @ be32 sq @ be32 flags @ rest) ()
      (?s\<lparr>s_world := w'\<rparr>\<lparr>s_client := d\<lparr>c_clientid := of_le64 cid, c_server_sequence := sq\<rparr>\<rparr>) rest" for d
    by (rule goes_eq[OF parse_exchange_id_goes[OF cid]]) simp_all
  have "leaves (bnd ?m (\<lambda>r. bnd (with_flag False (base_transact os r OP_EXCHANGE_ID Reverse)) (\<lambda>_. parse_exchange_id Reverse)))
      ?s () (?s\<lparr>s_world := w'\<rparr>\<lparr>s_client := (next_call ?c)\<lparr>c_clientid := of_le64 cid, c_server_sequence := sq\<rparr>\<rparr>)"
    by (rule flagged_call_leaves[OF m idle_next_call[OF c] _ long_x_call acc k bufless_identified]) (simp add: next_call_def)
  then have "leaves (exchange_id os) s () (s\<lparr>s_client := identified cid sq ?c, s_world := w'\<rparr>)"
    by (simp add: leaves_def exchange_id_def bnd_def identified_def)
  with w' show ?thesis by blast
qed

lemma bufless_identify: "bufless (identified cid sq)"
  unfolding bufless_def wf_client_def identified_def next_call_def by (intro conjI allI; case_tac w; simp)

lemma bufless_started: "bufless session_started"
  unfolding bufless_def wf_client_def session_started_def by (intro conjI allI; case_tac w; simp)

text \<open>\<open>reaches m s d W\<close>: \<open>m\<close> succeeds and leaves the client \<open>d\<close> and one of the worlds \<open>W\<close>.\<close>

definition reaches :: "('w st, unit) prog \<Rightarrow> 'w st \<Rightarrow> client \<Rightarrow> 'w set \<Rightarrow> bool" where
  "reaches m s d W \<longleftrightarrow> (\<exists>w \<in> W. leaves m s () (s\<lparr>s_client := d, s_world := w\<rparr>))"

lemma reaches_bnd:
  assumes "reaches m s d W"
    and "\<And>c w. apart c d \<Longrightarrow> idle c \<Longrightarrow> w \<in> W \<Longrightarrow> reaches k (s\<lparr>s_client := c, s_world := w\<rparr>) e W'"
  shows "reaches (bnd m (\<lambda>_. k)) s e W'"
proof -
  from assms(1) obtain w c where c: "w \<in> W" "m s = Some (Ok () (s\<lparr>s_client := c, s_world := w\<rparr>))" "apart c d" "idle c"
    by (auto simp: reaches_def leaves_def)
  from assms(2)[OF c(3,4,1)] show ?thesis
    by (simp add: reaches_def leaves_def bnd_Ok[where m = m, OF c(2)])
qed

lemma reachesI:
  assumes "leaves m s () (s\<lparr>s_client := c, s_world := w\<rparr>)" and "apart c d" and "w \<in> W"
  shows "reaches m s d W"
  using assms leaves_apart[where m = m and s = s and t = "s\<lparr>s_world := w\<rparr>" and c = c and d = d] unfolding reaches_def st_order by auto

lemma create_session_reaches:
  assumes s: "apart (s_client s) d" "idle (s_client s)" "c_fd (s_client s) = fd" "s_world s \<in> W"
    and ans: "awaits os fd W (x_call (c_xid d + 1) [op_create_session d]) (c_xid d + 1) OP_CREATE_SESSION
      (session_reply sess sq sflags hpad req resp cached ops reqs rdma rest) W'" and sess: "length sess = 16"
  shows "reaches (create_session os) s (session_limits (cells_of sess) req resp ops reqs (session_started d)) W'"
proof -
  let ?c = "s_client s"
  obtain ds w' where acc: "accepted os (x_call (c_xid ?c + 1) [op_create_session ?c]) (session_started ?c) ds
      OP_CREATE_SESSION (session_reply sess sq sflags hpad req resp cached ops reqs rdma rest) s w'" and w': "w' \<in> W'"
    by (rule awaits_accepted[OF ans s(4,3), of "session_started ?c"])
      (use s(1) plain_ops in \<open>simp_all add: session_started_def apart_fields(2)[OF s(1)] apart_ops(2)[OF s(1)]\<close>)
  show ?thesis
    by (rule reachesI[OF create_session_ok[OF s(2) sess acc] _ w'])
      (rule apart_bufless[OF bufless_session_limits[OF sess] apart_bufless[OF bufless_started s(1)]])
qed

lemma get_root_fh_reaches:
  assumes s: "apart (s_client s) d" "idle (s_client s)" "c_fd (s_client s) = fd" "s_world s \<in> W"
    and ans: "awaits os fd W (x_call (c_xid d + 1) [op_sequence d, Putrootfh, Getfh]) (c_xid d + 1) OP_GETFH
      (be32 (word_of_nat (length fh)) @ fh @ rest) W'" and fh: "length fh \<le> NFS4_FHSIZE"
  shows "reaches (get_root_fh os) s (rooted fh (used_slot d)) W'"
proof -
  let ?c = "s_client s"
  obtain ds w' where acc: "accepted os (x_call (c_xid ?c + 1) [op_sequence ?c, Putrootfh, Getfh]) (used_slot ?c) ds
      OP_GETFH (be32 (word_of_nat (length fh)) @ fh @ rest) s w'" and w': "w' \<in> W'"
    by (rule awaits_accepted[OF ans s(4,3), of "used_slot ?c"])
      (use s(1) plain_ops in \<open>simp_all add: apart_fields(2)[OF s(1)] apart_ops(1)[OF s(1)]\<close>)
  show ?thesis
    by (rule reachesI[OF get_root_fh_ok[OF s(2) fh acc] _ w'])
      (rule apart_bufless[OF bufless_rooted[OF fh] apart_bufless[OF bufless_used_slot s(1)]])
qed

lemma reclaim_complete_reaches:
  assumes s: "apart (s_client s) d" "idle (s_client s)" "c_fd (s_client s) = fd" "s_world s \<in> W"
    and ans: "awaits os fd W (x_call (c_xid d + 1) [op_sequence d, Reclaim_complete False]) (c_xid d + 1)
      OP_RECLAIM_COMPLETE rest W'"
  shows "reaches (reclaim_complete os) s (used_slot d) W'"
proof -
  let ?c = "s_client s"
  obtain ds w' where acc: "accepted os (x_call (c_xid ?c + 1) [op_sequence ?c, Reclaim_complete False]) (used_slot ?c) ds
      OP_RECLAIM_COMPLETE rest s w'" and w': "w' \<in> W'"
    by (rule awaits_accepted[OF ans s(4,3), of "used_slot ?c"])
      (use s(1) plain_ops in \<open>simp_all add: apart_fields(2)[OF s(1)] apart_ops(1)[OF s(1)]\<close>)
  show ?thesis
    by (rule reachesI[OF reclaim_complete_ok[OF s(2) acc] _ w']) (rule apart_bufless[OF bufless_used_slot s(1)])
qed

lemma client_fds [simp]:
  "c_fd (connected addr fd c) = fd" "c_fd (identified cid sq c) = c_fd c" "c_fd (session_started c) = c_fd c"
  "c_fd (session_limits ss req resp ops reqs c) = c_fd c" "c_fd (rooted fh c) = c_fd c"
  by (simp_all add: connected_def identified_def next_call_def session_started_def session_limits_def rooted_def)

lemma rpc_connection_ok:
  assumes c: "idle (s_client s)"
    and net: "c_string (b_contents (c_hostname (s_client s))) = Inr name"
      "os_gethostbyname os name (s_world s) = (Some addr, w1)" "os_socket os w1 = (fd, w2)"
      "w3 = (if config_boolean (os_getenv os) ''NFS_TCP_NODELAY'' True then os_setsockopt os fd 0 1 w2 else w2)"
      "os_connect os fd (take 4 (cells_of addr)) 2049 w3 = (0, w4)"
    and W: "w4 \<in> W" "\<And>w. w \<in> W \<Longrightarrow> snd (os_rand os w) \<in> W"
    and c1: "c1 = connected addr fd (s_client s)"
    and a1: "\<And>name. length name = 16 \<Longrightarrow> awaits os fd W (x_call (c_xid c1 + 1) [op_exchange_id name c1]) (c_xid c1 + 1)
      OP_EXCHANGE_ID (cid @ be32 sq @ be32 flags @ r1) W1" and cid: "length cid = 8"
    and c2: "c2 = identified cid sq c1"
    and a2: "awaits os fd W1 (x_call (c_xid c2 + 1) [op_create_session c2]) (c_xid c2 + 1) OP_CREATE_SESSION
      (session_reply sess sq2 sflags hpad req resp cached ops reqs rdma r2) W2" and sess: "length sess = 16"
    and c3: "c3 = session_limits (cells_of sess) req resp ops reqs (session_started c2)"
    and a3: "awaits os fd W2 (x_call (c_xid c3 + 1) [op_sequence c3, Putrootfh, Getfh]) (c_xid c3 + 1) OP_GETFH
      (be32 (word_of_nat (length fh)) @ fh @ r3) W3" and fh: "length fh \<le> NFS4_FHSIZE"
    and c4: "c4 = rooted fh (used_slot c3)"
    and a4: "awaits os fd W3 (x_call (c_xid c4 + 1) [op_sequence c4, Reclaim_complete False]) (c_xid c4 + 1)
      OP_RECLAIM_COMPLETE r4 W4"
  shows "reaches (rpc_connection os) s (used_slot c4) W4"
proof -
  let ?s1 = "s\<lparr>s_client := c1, s_world := w4\<rparr>"
  have conn: "nfs4_connect os s = Some (Ok () ?s1)" unfolding c1 by (rule connects[OF net])
  have i1: "idle c1" unfolding c1 by (rule idle_connected[OF c])
  have fds: "c_fd c1 = fd" "c_fd c2 = fd" "c_fd c3 = fd" "c_fd c4 = fd" by (simp_all add: c1 c2 c3 c4)
  have ids: "reaches (exchange_id os) ?s1 c2 W1"
    using exchange_id_ok[of ?s1 W os cid fd sq flags r1 W1] i1 W cid fds a1
    by (simp add: reaches_def c2)
  have "reaches (bnd (exchange_id os) (\<lambda>_. bnd (create_session os) (\<lambda>_. bnd (get_root_fh os) (\<lambda>_. reclaim_complete os))))
      ?s1 (used_slot c4) W4"
  proof (rule reaches_bnd[OF ids])
    fix c w assume 1: "apart c c2" "idle c" "w \<in> W1"
    have mk: "reaches (create_session os) (?s1\<lparr>s_client := c, s_world := w\<rparr>) c3 W2" unfolding c3
      by (rule create_session_reaches[OF _ _ _ _ a2 sess]) (use 1 in \<open>simp_all add: apart_fields(1) fds\<close>)
    show "reaches (bnd (create_session os) (\<lambda>_. bnd (get_root_fh os) (\<lambda>_. reclaim_complete os)))
        (?s1\<lparr>s_client := c, s_world := w\<rparr>) (used_slot c4) W4"
    proof (rule reaches_bnd[OF mk])
      fix c w and t :: "'a st" assume 2: "apart c c3" "idle c" "w \<in> W2"
      let ?t = "t\<lparr>s_client := c, s_world := w\<rparr>"
      have root: "reaches (get_root_fh os) ?t c4 W3" unfolding c4
        by (rule get_root_fh_reaches[OF _ _ _ _ a3 fh]) (use 2 in \<open>simp_all add: apart_fields(1) fds\<close>)
      show "reaches (bnd (get_root_fh os) (\<lambda>_. reclaim_complete os)) ?t (used_slot c4) W4"
        by (rule reaches_bnd[OF root], rule reclaim_complete_reaches[OF _ _ _ _ a4]) (simp_all add: apart_fields(1) fds)
    qed
  qed
  then show ?thesis
    unfolding rpc_connection_def by (simp add: reaches_def leaves_def bnd_Ok[where m = "nfs4_connect os", OF conn])
qed


section \<open>A new client\<close>

definition host_name :: "u8 list \<Rightarrow> buffer" where
  "host_name h = \<lparr>b_start = 0, b_end = word_of_nat (length h + 1), b_capacity = word_of_nat (length h + 1),
     b_contents = cells_of (h @ [0])\<rparr>"

definition new_client :: "env \<Rightarrow> client \<Rightarrow> u8 list \<Rightarrow> u64 \<Rightarrow> client" where
  "new_client getenv fresh h time = fresh\<lparr>
     c_hostname := host_name h,
     c_xid := 0xb956bea4,
     c_maxops := ucast (config_u64 getenv ''NFS_OPS_LIMIT'' 16),
     c_maxreqs := ucast (config_u64 getenv ''NFS_REQUESTS_LIMIT'' 32),
     c_forward := allocate_buffer 16384,
     c_reverse := allocate_buffer 16384,
     c_instance_verifier := le64 time,
     c_maxresp := ucast (config_u64 getenv ''NFS_READ_LIMIT'' (1024 * 1024)),
     c_maxreq := ucast (config_u64 getenv ''NFS_WRITE_LIMIT'' (1024 * 1024))\<rparr>"

lemma store_host_name:
  assumes "length h + 1 < 2 ^ 31"
  shows "seqs [push_bytes (cells_of h), push_char 0] (allocate_buffer (word_of_nat (length h + 1))) =
    Some (Ok () (host_name h))"
proof -
  let ?n = "word_of_nat (length h) :: u32" and ?n1 = "word_of_nat (length h + 1) :: u32"
  have n: "unat ?n = length h" "unat ?n1 = length h + 1"
    by (rule unat_of_nat_small, use assms in simp)+
  have le: "\<not> ?n1 < ?n" unfolding word_less_nat_alt n by simp
  have eq: "?n + 1 = ?n1" by simp
  have d: "drop (length h) ((None :: u8 option) # replicate (length h) None) = [None]" for h :: "u8 list"
    proof -
    have "(None :: u8 option) # replicate (length h) None = replicate (length h) None @ [None]" by (simp add: replicate_append_same)
    from arg_cong[OF this, of "drop (length h)"] show ?thesis by simp
  qed
  have 1: "push_bytes (cells_of h) (allocate_buffer ?n1) = Some (Ok ()
      \<lparr>b_start = 0, b_end = ?n, b_capacity = ?n1, b_contents = cells_of h @ fresh_cells 1\<rparr>)"
    using le n(2) by (simp add: push_bytes_def buffer_extend_def allocate_buffer_def bnd_def buf_store_def mem_store_def
        fresh_cells_def d del: of_nat_add of_nat_Suc)
  have 2: "push_char 0 \<lparr>b_start = 0, b_end = ?n, b_capacity = ?n1, b_contents = cells_of h @ fresh_cells 1\<rparr> =
      Some (Ok () (host_name h))"
    using n eq by (simp add: push_char_def buffer_extend_def bnd_def buf_store_def mem_store_def fresh_cells_def
        host_name_def del: of_nat_add of_nat_Suc)
  from 1 2 show ?thesis by (simp add: bnd_def)
qed

lemma c_string_end: "0 \<notin> set bs \<Longrightarrow> c_string (cells_of (bs @ [0])) = Inr bs"
  by (induction bs) auto

lemma idle_new_client:
  assumes "length (c_session fresh) = NFS4_SESSIONID_SIZE" and "length (c_root_filehandle fresh) = NFS4_FHSIZE"
  shows "idle (new_client getenv fresh h time)"
proof -
  have "wf_buf (allocate_buffer 16384)" by (rule wf_allocate) simp
  moreover have "b_capacity (allocate_buffer 16384) = 16384" by (simp add: allocate_buffer_def)
  moreover have "wf_client (new_client getenv fresh h time)"
    using assms by (simp add: wf_client_def new_client_def size_defs)
  ultimately show ?thesis by (simp add: idle_def ready_def) (simp add: new_client_def)
qed

lemma create_client_run:
  assumes "length h + 1 < 2 ^ 31" and "os_clock os (s_world s) = ((sec, nsec), w0)"
  shows "create_client os fresh h s = rpc_connection os
    (s\<lparr>s_client := new_client (os_getenv os) fresh h (sec * 1000000000 + nsec), s_world := w0\<rparr>)"
proof -
  have l: "on_local (allocate_buffer (word_of_nat (length h + 1))) (seqs [push_bytes (cells_of h), push_char 0]) s =
      Some (Ok ((), host_name h) s)"
    using store_host_name[OF assms(1)] by (simp add: on_local_def)
  have k: "on_world (os_clock os) s = Some (Ok (sec, nsec) (s\<lparr>s_world := w0\<rparr>))"
    by (simp add: on_world_def assms(2))
  show ?thesis
    unfolding create_client_def
    by (simp only: bnd_Ok[where m = "on_local (allocate_buffer (word_of_nat (length h + 1)))
        (seqs [push_bytes (cells_of h), push_char 0])", OF l] prod.case bnd_Ok[where m = "on_world (os_clock os)", OF k])
      (simp add: set_client_def new_client_def)
qed

section \<open>A request that is sent again\<close>

text \<open>
  What \<^verbatim>\<open>replay_rpc\<close> makes of the message \<open>msg\<close> in the buffer, and where the session of a
  request is in its message.
\<close>

lemma on_buf_store:
  assumes "rep (get_buf w (s_client s)) msg" and "off + length ys \<le> length msg"
  shows "\<exists>b. on_buf w (buf_store off ys) s = Some (Ok () (s\<lparr>s_client := set_buf w b (s_client s)\<rparr>)) \<and>
    rep b (take off msg @ ys @ drop (off + length ys) msg)"
proof -
  have m: "msg = take off msg @ take (length ys) (drop off msg) @ drop (off + length ys) msg"
    by (metis append_take_drop_id drop_drop add.commute)
  then obtain b where "buf_store (length (take off msg)) ys (get_buf w (s_client s)) = Some (Ok () b)"
      "rep b (take off msg @ ys @ drop (off + length ys) msg)"
    using store_inside[of "get_buf w (s_client s)" "take off msg" "take (length ys) (drop off msg)"
      "drop (off + length ys) msg" ys] assms by auto
  moreover have "length (take off msg) = off" using assms(2) by simp
  ultimately show ?thesis by (auto intro!: exI[of _ b] on_buf_Ok)
qed

definition patched :: "client \<Rightarrow> cells \<Rightarrow> cells" where
  "patched c msg = take 4 msg @ x32 (c_xid c + 1) @ take 52 (drop 8 msg) @ c_session c @ x32 (c_sequence c) @ drop 80 msg"

definition replayed :: "client \<Rightarrow> client" where
  "replayed c = c\<lparr>c_sequence := c_sequence c + 1, c_xid := c_xid c + 1\<rparr>"

lemma replay_run:
  assumes "rep (get_buf (r_b r) (s_client s)) msg" and "80 \<le> length msg" and "length (c_session (s_client s)) = 16"
  shows "\<exists>b. replay_rpc r s = Some (Ok () (s\<lparr>s_client := set_buf (r_b r) b (replayed (s_client s))\<rparr>)) \<and>
    rep b (patched (s_client s) msg)"
proof -
  let ?w = "r_b r" and ?c = "s_client s"
  obtain b1 where b1: "on_buf ?w (buf_store 60 (c_session ?c)) s = Some (Ok () (s\<lparr>s_client := set_buf ?w b1 ?c\<rparr>))"
      "rep b1 (take 60 msg @ c_session ?c @ drop 76 msg)"
    using on_buf_store[OF assms(1), of 60 "c_session ?c"] assms(2,3) by auto
  let ?c2 = "(set_buf ?w b1 ?c)\<lparr>c_sequence := c_sequence ?c + 1\<rparr>"
  have fields: "c_sequence (set_buf ?w b ?c) = c_sequence ?c" "c_xid (set_buf ?w b ?c) = c_xid ?c" for b
    by (cases ?w; simp)+
  have bufs: "get_buf ?w (d\<lparr>c_sequence := q\<rparr>) = get_buf ?w d" "get_buf ?w (d\<lparr>c_xid := q\<rparr>) = get_buf ?w d" for d q
    by (cases ?w; simp)+
  let ?s2 = "s\<lparr>s_client := ?c2\<rparr>"
  obtain b2 where b2: "on_buf ?w (buf_store 76 (x32 (c_sequence ?c))) ?s2 = Some (Ok () (?s2\<lparr>s_client := set_buf ?w b2 ?c2\<rparr>))"
      "rep b2 (take 76 (take 60 msg @ c_session ?c @ drop 76 msg) @ x32 (c_sequence ?c) @
        drop 80 (take 60 msg @ c_session ?c @ drop 76 msg))"
    using on_buf_store[of ?w ?s2 "take 60 msg @ c_session ?c @ drop 76 msg" 76 "x32 (c_sequence ?c)"] b1(2) assms(2,3)
    by (auto simp: bufs)
  let ?c3 = "(set_buf ?w b2 ?c2)\<lparr>c_xid := c_xid ?c + 1\<rparr>"
  have x2: "c_xid (set_buf ?w b2 ?c2) = c_xid ?c" by (cases ?w) simp_all
  let ?s3 = "s\<lparr>s_client := ?c3\<rparr>"
  let ?m = "take 60 msg @ c_session ?c @ x32 (c_sequence ?c) @ drop 80 msg"
  have m: "take 76 (take 60 msg @ c_session ?c @ drop 76 msg) @ x32 (c_sequence ?c) @
        drop 80 (take 60 msg @ c_session ?c @ drop 76 msg) = ?m"
    using assms(2,3) by simp
  obtain b3 where b3: "on_buf ?w (buf_store 4 (x32 (c_xid ?c + 1))) ?s3 = Some (Ok () (?s3\<lparr>s_client := set_buf ?w b3 ?c3\<rparr>))"
      "rep b3 (take 4 ?m @ x32 (c_xid ?c + 1) @ drop 8 ?m)"
    using on_buf_store[of ?w ?s3 ?m 4 "x32 (c_xid ?c + 1)"] b2(2)[unfolded m] assms(2,3)
    by (auto simp: bufs)
  have "take 4 ?m @ x32 (c_xid ?c + 1) @ drop 8 ?m = patched ?c msg"
    using assms(2) by (simp add: patched_def min_def drop_take)
  moreover have "replay_rpc r s = Some (Ok () (?s3\<lparr>s_client := set_buf ?w b3 ?c3\<rparr>))"
    unfolding replay_rpc_def Let_def
    using b1(1) b2(1) b3(1) x2
    by (simp add: bnd_Ok[where m = "on_buf ?w (buf_store 60 (c_session ?c))", OF b1(1)] set_client_def fields
        bnd_Ok[where m = "on_buf ?w (buf_store 76 (x32 (c_sequence ?c)))", OF b2(1)]
        size_defs x32_def[symmetric])
  moreover have "set_buf ?w b3 ?c3 = set_buf ?w b3 (replayed ?c)" by (cases ?w) (simp_all add: replayed_def)
  ultimately show ?thesis using b3(2) by auto
qed

lemma replay_patches:
  assumes "rep (get_buf (r_b r) (s_client s)) msg" and "80 \<le> length msg" and "length (c_session (s_client s)) = 16"
  shows "\<exists>s'. replay_rpc r s = Some (Ok () s') \<and> rep (get_buf (r_b r) (s_client s')) (patched (s_client s) msg)"
  using replay_run[OF assms] by auto

lemma session_field:
  assumes "length old = 16"
  shows "take 16 (drop 96 (x_call x (Sequence old sq 0 0 False # ops))) = old"
proof -
  obtain mark n rest where "x_call x (Sequence old sq 0 0 False # ops) =
      x32 mark @ call_header x @ x32 n @ x32 OP_SEQUENCE @ old @ rest"
    using assms by (simp add: x_call_def Let_def xfixed_def)
  then show ?thesis using assms by simp
qed

end
