(* ===== verification/Sample.thy ===== *)
theory Sample
  imports Lock_Service Connection
begin

text \<open>
  Two concrete worlds for the examples beside the properties: a server that keeps one file and
  its locks (\<open>srv_os\<close>), which satisfies the hypotheses \<open>serves_reads\<close>, \<open>serves_writes\<close> and
  \<open>serves_locks\<close>, and a socket from which a given answer can be read (\<open>tape_os\<close>). Neither is
  part of the program.
\<close>


section \<open>A small server\<close>

text \<open>
  It keeps one file and the locks of one owner, the connection 1; it denies the lock requests
  of others, and those of \<open>v_deny\<close>. It expects the handle \<open>the_handle\<close>, of four bytes, so the third operation
  of a request starts at byte 140.
\<close>

record srv =
  v_bytes :: "u8 list"
  v_locks :: locks
  v_deny :: "call list"
  v_out :: "u8 list"

definition the_handle :: cells where
  "the_handle = cells_of [1, 2, 3, 4]"

definition bytes_at :: "nat \<Rightarrow> nat \<Rightarrow> cells \<Rightarrow> u8 list" where
  "bytes_at off n xs = (case those (take n (drop off xs)) of Some bs \<Rightarrow> bs | None \<Rightarrow> [])"

definition framed :: "u8 list \<Rightarrow> u8 list" where
  "framed payload = be32 (0x80000000 OR word_of_nat (length payload)) @ payload"

definition srv_reply :: "u32 \<Rightarrow> u32 \<Rightarrow> u8 list \<Rightarrow> u8 list" where
  "srv_reply x op rest =
     reply x [Past_sequence (replicate 16 0) 0 (replicate 16 0), Past_putfh] op 0 rest"

definition srv_denies :: "u32 \<Rightarrow> u8 list" where
  "srv_denies x = refusal x 10010 []"

definition srv_lock :: "int \<Rightarrow> u32 \<Rightarrow> u32 \<Rightarrow> call \<Rightarrow> srv \<Rightarrow> srv" where
  "srv_lock fd x op c w =
     (if fd = 1 \<and> c \<notin> set (v_deny w) then w\<lparr>v_locks := after_call c (v_locks w),
                      v_out := framed (srv_reply x op (be32 1 @ replicate 12 7))\<rparr>
      else w\<lparr>v_out := framed (srv_denies x)\<rparr>)"

definition srv_op :: "int \<Rightarrow> u32 \<Rightarrow> u32 \<Rightarrow> cells \<Rightarrow> srv \<Rightarrow> srv" where
  "srv_op fd x op args w =
     (let at32 = (\<lambda>off. of_be32 (bytes_at off 4 args)); at64 = (\<lambda>off. of_be64 (bytes_at off 8 args))
      in if op = OP_READ then
           let got = in_file (at64 16) (unat (at32 24)) (v_bytes w) in
           w\<lparr>v_out := framed (srv_reply x op (be32 0 @ be32 (word_of_nat (length got)) @ got))\<rparr>
         else if op = OP_WRITE then
           w\<lparr>v_bytes := stored (unat (at64 16)) (bytes_at 32 (unat (at32 28)) args) (v_bytes w),
             v_out := framed (srv_reply x op [])\<rparr>
         else if op = OP_LOCK then srv_lock fd x op (Lock_range (at32 0) (at64 8) (at64 16)) w
         else if op = OP_LOCKU then srv_lock fd x op (Unlock_range (at32 0) (at64 24) (at64 32)) w
         else w)"

definition srv_handle :: "int \<Rightarrow> cells \<Rightarrow> srv \<Rightarrow> srv" where
  "srv_handle fd msg =
     srv_op fd (of_be32 (bytes_at 4 4 msg)) (of_be32 (bytes_at 140 4 msg)) (drop 144 msg)"

definition srv_os :: "srv os" where
  "srv_os = \<lparr>os_getenv = (\<lambda>_. None), os_gethostbyname = (\<lambda>_ w. (Some [127, 0, 0, 1], w)),
     os_socket = (\<lambda>w. (1, w)), os_setsockopt = (\<lambda>_ _ _ w. w), os_connect = (\<lambda>_ _ _ w. (0, w)),
     os_write = (\<lambda>fd msg w. (int (length msg), srv_handle fd msg w)),
     os_read = (\<lambda>fd n w. (Some (take n (v_out w)), w\<lparr>v_out := drop n (v_out w)\<rparr>)),
     os_rand = (\<lambda>w. (0, w)), os_clock = (\<lambda>w. ((0, 0), w))\<rparr>"

definition quiet :: "srv set" where
  "quiet = {w. v_out w = []}"

definition denying :: "call list \<Rightarrow> srv set" where
  "denying D = {w \<in> quiet. v_deny w = D}"

lemma frame_mark: "n < 2 ^ 31 \<Longrightarrow> (0x80000000 OR word_of_nat n) AND 0x7fffffff = (word_of_nat n :: u32)"
proof -
  assume n: "n < 2 ^ 31"
  have m: "(0x7fffffff :: u32) = mask 31" by (simp add: mask_eq_exp_minus_1)
  have z: "take_bit 31 (0x80000000 :: u32) = 0" by simp
  have k: "take_bit 31 (word_of_nat n :: u32) = word_of_nat n"
    using n by (simp add: take_bit_of_nat take_bit_nat_eq_self)
  show ?thesis unfolding m take_bit_eq_mask[symmetric] take_bit_or z k by simp
qed

lemma srv_answers:
  assumes "v_out w = framed payload" and "payload \<noteq> []" and "length payload < 2 ^ 31"
  shows "answers srv_os fd payload w (w\<lparr>v_out := []\<rparr>)"
proof -
  let ?mark = "0x80000000 OR word_of_nat (length payload) :: u32"
  let ?w1 = "w\<lparr>v_out := payload\<rparr>"
  have "delivers srv_os fd 4 (be32 ?mark) w ?w1"
    using assms(1) by (intro delivers_once) (simp_all add: srv_os_def framed_def, simp add: be32_def)
  moreover have "delivers srv_os fd (length payload) payload ?w1 (?w1\<lparr>v_out := []\<rparr>)"
    using assms(2) by (intro delivers_once) (simp_all add: srv_os_def)
  ultimately show ?thesis
    unfolding answers_def using frame_mark[OF assms(3)] by auto
qed

lemma srv_responds:
  assumes "v_out (srv_handle fd msg w) = framed payload" and "payload \<noteq> []" and "length payload < 2 ^ 31"
  shows "responds srv_os fd msg payload w ((srv_handle fd msg w)\<lparr>v_out := []\<rparr>)"
  unfolding responds_def using srv_answers[OF assms] by (auto simp: srv_os_def)

lemmas be_inverse = of_be32_be32 of_be64_be64

lemma bytes_at_field:
  assumes "length xs = off" and "length bs = n"
  shows "bytes_at off n (xs @ cells_of bs @ ys) = bs"
  using assms by (simp add: bytes_at_def)

lemma msg_parts:
  assumes "handle f = the_handle" and "length sess = NFS4_SESSIONID_SIZE"
  shows "bytes_at 4 4 (on_handle sess f x sq op) = be32 x" and "drop 140 (on_handle sess f x sq op) = x_op op"
proof -
  obtain t where h: "call_header x = x32 x @ t" by (simp add: call_header_def)
  have l: "length (call_header x) = 84" by simp
  obtain mark where m: "on_handle sess f x sq op = x32 mark @ call_header x @ x32 3 @
      x_op (Sequence sess sq 0 0 False) @ x_op (Putfh (handle f)) @ x_op op"
    by (simp add: on_handle_def x_call_def Let_def)
  have l2: "length (x_op (Sequence sess sq 0 0 False)) = 36"
    using assms(2) by (simp add: xfixed_def size_defs)
  have l3: "length (x_op (Putfh (handle f))) = 12"
    using assms(1) by (simp add: the_handle_def xopaque_def xfixed_def)
  show "drop 140 (on_handle sess f x sq op) = x_op op"
    unfolding m using l l2 l3 by (simp del: x_op.simps)
  show "bytes_at 4 4 (on_handle sess f x sq op) = be32 x"
    unfolding m h using bytes_at_field[of "x32 mark" 4 "be32 x" 4] by (simp add: x32_def)
qed

lemma srv_handle_alt:
  assumes "handle f = the_handle" and "length sess = NFS4_SESSIONID_SIZE" and "x_op op = x32 code @ args"
  shows "srv_handle fd (on_handle sess f x sq op) w = srv_op fd x code args w"
proof -
  let ?msg = "on_handle sess f x sq op"
  have p: "drop 140 ?msg = x32 code @ args" using msg_parts(2)[OF assms(1,2)] assms(3) by simp
  have "bytes_at 140 4 ?msg = bytes_at 0 4 (drop 140 ?msg)" by (simp add: bytes_at_def)
  also have "\<dots> = be32 code" unfolding p using bytes_at_field[of "[]" 0 "be32 code" 4] by (simp add: x32_def)
  finally have o: "bytes_at 140 4 ?msg = be32 code" .
  have "drop 144 ?msg = drop 4 (drop 140 ?msg)" by simp
  also have "\<dots> = args" unfolding p by simp
  finally show ?thesis
    using o msg_parts(1)[OF assms(1,2)] by (simp add: srv_handle_def be_inverse)
qed

lemma srv_past: "list_all wf_past [Past_sequence (replicate 16 0) 0 (replicate 16 0), Past_putfh]"
  by simp

lemma length_srv_reply: "length (srv_reply x op rest) = 96 + length rest"
  by (simp add: srv_reply_def reply_def reply_head_def)

lemma srv_answered:
  assumes "v_out (srv_handle fd msg w) = framed (srv_reply x op rest)" and "length rest \<le> limit - 96"
  shows "answered srv_os fd msg x op rest w ((srv_handle fd msg w)\<lparr>v_out := []\<rparr>)"
proof -
  have n: "length (srv_reply x op rest) \<le> limit" using assms(2) by (simp add: length_srv_reply limit_def)
  then have "srv_reply x op rest \<noteq> []" "length (srv_reply x op rest) < 2 ^ 31"
    using length_srv_reply[of x op rest] by (auto simp: limit_def)
  from srv_responds[OF assms(1) this] n srv_past show ?thesis
    unfolding answered_def srv_reply_def by blast
qed

lemma srv_args:
  "length sid = 16 \<Longrightarrow> bytes_at 16 8 (sid @ x64 off @ r) = be64 off"
  "length sid = 16 \<Longrightarrow> bytes_at 24 4 (sid @ x64 off @ x32 n) = be32 n"
  by (simp_all add: bytes_at_def x64_def x32_def)

lemma srv_serves_reads:
  assumes f: "handle f = the_handle" "wf_file f" and sess: "length sess = NFS4_SESSIONID_SIZE"
  shows "serves_reads srv_os v_bytes quiet fd sess f"
  unfolding serves_reads_def
proof (intro ballI allI impI)
  fix w :: srv and x sq off and n :: u32
  assume n: "unat n \<le> 2 ^ 29"
  let ?msg = "on_handle sess f x sq (Read (f_latest_sid f) off n)"
  let ?got = "in_file off (unat n) (v_bytes w)"
  let ?rest = "be32 0 @ be32 (word_of_nat (length ?got)) @ ?got"
  let ?args = "x_stateid (f_latest_sid f) @ x64 off @ x32 n"
  have sid: "length (x_stateid (f_latest_sid f)) = 16"
    using f(2) by (intro length_x_stateid) (simp add: wf_file_def)
  have h: "srv_handle fd ?msg w = srv_op fd x OP_READ ?args w"
    by (rule srv_handle_alt[OF f(1) sess]) simp
  have o: "srv_op fd x OP_READ ?args w = w\<lparr>v_out := framed (srv_reply x OP_READ ?rest)\<rparr>"
    using srv_args[OF sid] by (simp add: srv_op_def Let_def be_inverse)
  have "length ?rest \<le> limit - 96" using length_in_file[of off "unat n" "v_bytes w"] n by (simp add: limit_def)
  then have "answered srv_os fd ?msg x OP_READ ?rest w ((srv_handle fd ?msg w)\<lparr>v_out := []\<rparr>)"
    by (intro srv_answered) (simp add: h o)
  then show "\<exists>w' \<in> quiet. \<exists>eof tail. v_bytes w' = v_bytes w \<and>
      answered srv_os fd ?msg x OP_READ (be32 eof @ be32 (word_of_nat (length ?got)) @ ?got @ tail) w w'"
    by (intro bexI[of _ "(srv_handle fd ?msg w)\<lparr>v_out := []\<rparr>"] exI[of _ 0] exI[of _ "[]"])
      (simp_all add: h o quiet_def)
qed

lemma srv_serves_writes:
  assumes f: "handle f = the_handle" "wf_file f" and sess: "length sess = NFS4_SESSIONID_SIZE"
  shows "serves_writes srv_os v_bytes quiet fd sess f"
  unfolding serves_writes_def
proof (intro ballI allI impI)
  fix w :: srv and x sq off and dat :: "u8 list"
  assume n: "length dat \<le> 2 ^ 29"
  let ?msg = "on_handle sess f x sq (Write (f_latest_sid f) off FILE_SYNC4 (cells_of dat))"
  let ?args = "x_stateid (f_latest_sid f) @ x64 off @ x32 FILE_SYNC4 @ xopaque (cells_of dat)"
  have sid: "length (x_stateid (f_latest_sid f)) = 16"
    using f(2) by (intro length_x_stateid) (simp add: wf_file_def)
  have h: "srv_handle fd ?msg w = srv_op fd x OP_WRITE ?args w"
    by (rule srv_handle_alt[OF f(1) sess]) simp
  have u: "unat (word_of_nat (length dat) :: u32) = length dat" using n by (simp add: unat_of_nat_small)
  have 1: "bytes_at 28 4 ?args = be32 (word_of_nat (length dat))"
    using sid by (simp add: bytes_at_def xopaque_def x32_def)
  have 2: "bytes_at 32 (length dat) ?args = dat"
    using sid by (simp add: bytes_at_def xopaque_def xfixed_def)
  have o: "srv_op fd x OP_WRITE ?args w = w\<lparr>v_bytes := stored (unat off) dat (v_bytes w),
      v_out := framed (srv_reply x OP_WRITE [])\<rparr>"
    using srv_args(1)[OF sid] 1 2 u by (simp add: srv_op_def Let_def be_inverse OP_READ_def OP_WRITE_def)
  have "answered srv_os fd ?msg x OP_WRITE [] w ((srv_handle fd ?msg w)\<lparr>v_out := []\<rparr>)"
    by (intro srv_answered) (simp_all add: h o)
  then show "\<exists>w' \<in> quiet. \<exists>rest. v_bytes w' = stored (unat off) dat (v_bytes w) \<and>
      answered srv_os fd ?msg x OP_WRITE rest w w'"
    by (intro bexI[of _ "(srv_handle fd ?msg w)\<lparr>v_out := []\<rparr>"] exI[of _ "[]"])
      (simp_all add: h o quiet_def)
qed

definition srv_tbl :: "srv tables" where
  "srv_tbl w p = (if p = 1 then v_locks w else (\<lambda>_. 0))"

lemma srv_granted:
  assumes f: "handle f = the_handle" and sess: "length sess = NFS4_SESSIONID_SIZE"
    and op: "x_op op = x32 code @ args" and code: "\<And>w. srv_op 1 x code args w = srv_lock 1 x code c w"
    and c: "c \<notin> set (v_deny w)" and W: "W = quiet \<or> W = denying (v_deny w)"
  shows "granted srv_os srv_tbl W 1 (on_handle sess f x sq op) x code c w"
proof -
  let ?msg = "on_handle sess f x sq op"
  let ?w = "(srv_handle 1 ?msg w)\<lparr>v_out := []\<rparr>"
  have h: "srv_handle 1 ?msg w = srv_lock 1 x code c w"
    using srv_handle_alt[OF f sess op] code by simp
  have "v_out (srv_handle 1 ?msg w) = framed (srv_reply x code (be32 1 @ replicate 12 7 @ []))"
    unfolding h using c by (simp add: srv_lock_def)
  then have "answered srv_os 1 ?msg x code (be32 1 @ replicate 12 7 @ []) w ?w"
    by (rule srv_answered) (simp add: limit_def)
  moreover have "?w \<in> W" "srv_tbl ?w = (srv_tbl w)(1 := after_call c (srv_tbl w 1))"
    unfolding h using c W by (auto simp: quiet_def denying_def srv_tbl_def srv_lock_def)
  moreover have "length (replicate 12 (7 :: u8)) = 12" by simp
  ultimately show ?thesis unfolding granted_def by blast
qed

lemma srv_denied:
  assumes f: "handle f = the_handle" and sess: "length sess = NFS4_SESSIONID_SIZE"
    and op: "x_op op = x32 code @ args" and code: "\<And>w. srv_op fd x code args w = srv_lock fd x code c w"
    and no: "fd \<noteq> 1 \<or> c \<in> set (v_deny w)"
  shows "denied srv_os srv_tbl quiet fd (on_handle sess f x sq op) x w"
proof -
  let ?msg = "on_handle sess f x sq op"
  let ?w = "(srv_handle fd ?msg w)\<lparr>v_out := []\<rparr>"
  have h: "srv_handle fd ?msg w = srv_lock fd x code c w"
    using srv_handle_alt[OF f sess op] code by simp
  have d: "srv_handle fd ?msg w = w\<lparr>v_out := framed (srv_denies x)\<rparr>"
    unfolding h using no by (auto simp: srv_lock_def)
  have len: "length (srv_denies x) = 28" by (simp add: srv_denies_def refusal_def reply_head_def)
  then have "srv_denies x \<noteq> []" by auto
  with len have "responds srv_os fd ?msg (refusal x 10010 []) w ?w"
    using srv_responds[of fd ?msg w "srv_denies x"] by (simp add: d srv_denies_def)
  moreover have "?w \<in> quiet" "srv_tbl ?w = srv_tbl w"
    by (auto simp: d quiet_def srv_tbl_def)
  moreover have "(10010 :: u32) \<noteq> NFS4_OK" "(10010 :: u32) \<noteq> NFS4ERR_BADSESSION"
    by (simp_all add: NFS4_OK_def NFS4ERR_BADSESSION_def)
  moreover have "codestring nfsstatus 10010 = Some ''lock unavailable ''"
    by (simp add: nfsstatus_def)
  moreover have "length (refusal x 10010 []) \<le> limit" using len by (simp add: srv_denies_def limit_def)
  ultimately show ?thesis unfolding denied_def by blast
qed

lemma srv_decides:
  assumes f: "handle f = the_handle" and sess: "length sess = NFS4_SESSIONID_SIZE"
    and op: "x_op op = x32 code @ args" and code: "\<And>w. srv_op fd x code args w = srv_lock fd x code c w"
  shows "decides srv_os srv_tbl quiet fd (on_handle sess f x sq op) x code c w"
  using srv_granted[OF f sess op, of x c w quiet sq] srv_denied[OF f sess op code, of w sq] code
  by (cases "fd = 1 \<and> c \<notin> set (v_deny w)") (auto simp: decides_def)

lemma srv_asked:
  assumes "wf_file f"
  obtains args where "x_op (asked f own c) = x32 (op_of c) @ args"
    and "\<And>fd x w. srv_op fd x (op_of c) args w = srv_lock fd x (op_of c) c w"
proof (cases c)
  case (Lock_range ty off n)
  show thesis
    by (rule that[of "x32 ty @ xbool False @ x64 off @ x64 n @ xbool True @ x32 0 @ x_stateid (f_open_sid f) @ x32 0 @ x_owner own"])
      (simp_all add: Lock_range srv_op_def Let_def be_inverse bytes_at_def x64_def x32_def xbool_def OP_READ_def OP_WRITE_def OP_LOCK_def)
next
  case (Unlock_range ty off n)
  have "length (x_stateid (f_latest_sid f)) = 16" using assms by (intro length_x_stateid) (simp add: wf_file_def)
  then show thesis
    by (intro that[of "x32 ty @ x32 0 @ x_stateid (f_latest_sid f) @ x64 off @ x64 n"])
      (simp_all add: Unlock_range srv_op_def Let_def be_inverse bytes_at_def x64_def x32_def OP_READ_def OP_WRITE_def
        OP_LOCK_def OP_LOCKU_def)
qed

lemma srv_serves_locks: "serves_locks srv_os srv_tbl quiet the_handle"
  unfolding serves_locks_def may_ask_def
proof (intro ballI conjI allI impI)
  fix w :: srv and p q :: int and b
  show "p \<noteq> q \<Longrightarrow> srv_tbl w p b = 2 \<Longrightarrow> srv_tbl w q b = 0" by (auto simp: srv_tbl_def split: if_splits)
next
  fix w :: srv and fd c f own and sess :: cells and x sq
  assume ask: "handle f = the_handle \<and> wf_file f \<and> length sess = NFS4_SESSIONID_SIZE \<and> wf_call c"
  then obtain args where "x_op (asked f own c) = x32 (op_of c) @ args"
    "\<And>fd x w. srv_op fd x (op_of c) args w = srv_lock fd x (op_of c) c w"
    using srv_asked[of f own c] by auto
  with ask show "decides srv_os srv_tbl quiet fd (on_handle sess f x sq (asked f own c)) x (op_of c) c w"
    by (intro srv_decides) simp_all
qed

lemma srv_grants_call:
  assumes "may_ask the_handle c f sess" and "c \<notin> set (v_deny w)" and "W = quiet \<or> W = denying (v_deny w)"
  shows "granted srv_os srv_tbl W 1 (on_handle sess f x sq (asked f own c)) x (op_of c) c w"
proof -
  obtain args where "x_op (asked f own c) = x32 (op_of c) @ args"
    "\<And>fd x w. srv_op fd x (op_of c) args w = srv_lock fd x (op_of c) c w"
    using srv_asked[of f own c] assms(1) by (auto simp: may_ask_def)
  with assms show ?thesis by (intro srv_granted) (simp_all add: may_ask_def)
qed

lemma srv_grants: "grants_locks srv_os srv_tbl (denying []) the_handle 1"
  unfolding grants_locks_def by (auto intro!: srv_grants_call simp: denying_def)

lemma srv_denies_call:
  assumes "may_ask the_handle c f sess" and "fd \<noteq> 1 \<or> c \<in> set (v_deny w)"
  shows "denied srv_os srv_tbl quiet fd (on_handle sess f x sq (asked f own c)) x w"
proof -
  obtain args where "x_op (asked f own c) = x32 (op_of c) @ args"
    "\<And>fd x w. srv_op fd x (op_of c) args w = srv_lock fd x (op_of c) c w"
    using srv_asked[of f own c] assms(1) by (auto simp: may_ask_def)
  with assms show ?thesis by (intro srv_denied) (simp_all add: may_ask_def)
qed

section \<open>Clients of the servers\<close>

definition sample_client :: "int \<Rightarrow> client" where
  "sample_client fd = \<lparr>c_fd = fd, c_xid = 5, c_address = [], c_clientid = 9,
     c_session = cells_of (replicate 16 3), c_sequence = 1, c_server_sequence = 1, c_lock_sequence = 0,
     c_instance_verifier = replicate 8 4, c_forward = allocate_buffer 1024, c_reverse = allocate_buffer 1024,
     c_maxreq = 2, c_maxresp = 3, c_maxops = 16, c_maxreqs = 32, c_hostname = allocate_buffer 16,
     c_root_filehandle_len = 4, c_root_filehandle = the_handle @ fresh_cells 124\<rparr>"

definition sample_sid :: stateid where
  "sample_sid = \<lparr>sid_sequence = 1, sid_opaque = cells_of (replicate 12 0)\<rparr>"

definition sample_file :: nfs_file where
  "sample_file = \<lparr>f_path = allocate_vector 1, f_filehandle_len = 4, f_filehandle = the_handle @ fresh_cells 124,
     f_latest_sid = sample_sid, f_open_sid = sample_sid\<rparr>"

definition sample_st :: "int \<Rightarrow> u8 list \<Rightarrow> 'w \<Rightarrow> 'w st" where
  "sample_st fd mem w = \<lparr>s_client = sample_client fd, s_file = sample_file, s_heap = [], s_bad = False,
     s_mem = cells_of mem, s_world = w\<rparr>"

lemma sample_st_simps [simp]:
  "s_client (sample_st fd mem w) = sample_client fd" "s_file (sample_st fd mem w) = sample_file"
  "s_heap (sample_st fd mem w) = []" "s_bad (sample_st fd mem w) = False"
  "s_mem (sample_st fd mem w) = cells_of mem" "s_world (sample_st fd mem w) = w"
  by (simp_all add: sample_st_def)

lemma sample_client_simps [simp]:
  "c_fd (sample_client fd) = fd" "c_xid (sample_client fd) = 5" "c_session (sample_client fd) = cells_of (replicate 16 3)"
  "c_maxreq (sample_client fd) = 2" "c_maxresp (sample_client fd) = 3"
  by (simp_all add: sample_client_def)

lemma idle_sample [simp]: "idle (sample_client fd)"
proof -
  have "wf_buf (allocate_buffer 1024)" by (rule wf_allocate) simp
  moreover have "b_capacity (allocate_buffer 1024) = 1024" by (simp add: allocate_buffer_def)
  moreover have "wf_client (sample_client fd)"
    by (simp add: wf_client_def sample_client_def size_defs the_handle_def fresh_cells_def)
  ultimately show ?thesis by (simp add: idle_def ready_def) (simp add: sample_client_def)
qed

lemma wf_sample_file [simp]: "wf_file sample_file" "handle sample_file = the_handle"
  by (simp_all add: wf_file_def handle_def sample_file_def sample_sid_def size_defs the_handle_def fresh_cells_def)

lemma session_sample [simp]: "length (cells_of (replicate 16 3)) = NFS4_SESSIONID_SIZE"
  by (simp add: size_defs)

lemmas sample_serves = srv_serves_reads[OF wf_sample_file(2,1) session_sample]
  srv_serves_writes[OF wf_sample_file(2,1) session_sample]

lemma sample_can_read:
  assumes "w \<in> quiet" and "x + n \<le> length mem" and "unat off + n < 2 ^ 64"
  shows "can_read srv_os v_bytes quiet 3 x off n (sample_st fd mem w)"
  using assms sample_serves(1)[of fd] by (simp add: can_read_def can_transfer_def)

lemma sample_can_write:
  assumes "w \<in> quiet" and "x + n \<le> length mem" and "unat off + n < 2 ^ 64"
  shows "can_write srv_os v_bytes quiet 2 x off n (sample_st fd mem w)"
proof -
  have "take n (drop x (cells_of mem)) = cells_of (take n (drop x mem))" by (simp add: take_map drop_map)
  then show ?thesis
    using assms sample_serves(2)[of fd] by (auto simp: can_write_def can_transfer_def)
qed

definition sample_system :: "srv system" where
  "sample_system = \<lparr>y_world = \<lparr>v_bytes = [], v_locks = (\<lambda>_. 0), v_deny = [], v_out = []\<rparr>,
     y_procs = (\<lambda>p. sample_st p [] \<lparr>v_bytes = [], v_locks = (\<lambda>_. 0), v_deny = [], v_out = []\<rparr>)\<rparr>"

lemma sample_lock_system: "lock_system srv_os srv_tbl quiet the_handle sample_system"
  using srv_serves_locks by (simp add: lock_system_def sample_system_def lock_client_def quiet_def)

text \<open>
  For a single exchange it is enough that the socket takes the request and that the answer
  lies there already: the world is what is still to be read.
\<close>

definition tape_os :: "u8 list os" where
  "tape_os = \<lparr>os_getenv = (\<lambda>_. None), os_gethostbyname = (\<lambda>_ w. (Some [127, 0, 0, 1], w)),
     os_socket = (\<lambda>w. (1, w)), os_setsockopt = (\<lambda>_ _ _ w. w), os_connect = (\<lambda>_ _ _ w. (0, w)),
     os_write = (\<lambda>fd msg w. (int (length msg), w)), os_read = (\<lambda>fd n w. (Some (take n w), drop n w)),
     os_rand = (\<lambda>w. (0, w)), os_clock = (\<lambda>w. ((0, 0), w))\<rparr>"

lemma tape_responds:
  assumes "payload \<noteq> []" and "length payload < 2 ^ 31"
  shows "responds tape_os fd msg payload (framed payload @ later) later"
proof -
  let ?mark = "0x80000000 OR word_of_nat (length payload) :: u32"
  have "delivers tape_os fd 4 (be32 ?mark) (framed payload @ later) (payload @ later)"
    by (intro delivers_once) (simp_all add: tape_os_def framed_def, simp add: be32_def)
  moreover have "delivers tape_os fd (length payload) payload (payload @ later) later"
    using assms(1) by (intro delivers_once) (simp_all add: tape_os_def)
  ultimately show ?thesis
    unfolding responds_def answers_def using frame_mark[OF assms(2)] by (auto simp: tape_os_def)
qed

lemma tape_accepted:
  assumes "s_world s = framed (reply (c_xid c') [] op 0 rest) @ later" and "op \<notin> stepped_over"
    and "length rest \<le> limit - 100"
  shows "accepted tape_os msg c' [] op rest s later"
proof -
  have n: "length (reply (c_xid c') [] op 0 rest) = 44 + length rest" by (simp add: reply_def reply_head_def)
  have "responds tape_os (c_fd (s_client s)) msg (reply (c_xid c') [] op 0 rest) (s_world s) later"
    unfolding assms(1) using assms(3) n by (intro tape_responds) (auto simp: limit_def)
  with assms(2,3) n show ?thesis by (simp add: accepted_def limit_def)
qed

lemma tape_refused:
  assumes "s_world s = framed (refusal x nstatus []) @ later"
  shows "responds tape_os fd msg (refusal x nstatus []) (s_world s) later" and "length (refusal x nstatus []) \<le> limit"
proof -
  have n: "length (refusal x nstatus []) = 28" by (simp add: refusal_def reply_head_def)
  then show "length (refusal x nstatus []) \<le> limit" by (simp add: limit_def)
  from n show "responds tape_os fd msg (refusal x nstatus []) (s_world s) later"
    unfolding assms by (intro tape_responds) auto
qed

lemma tape_awaits:
  assumes "length rest \<le> limit - 100"
  shows "awaits tape_os fd {framed (reply x [] op 0 rest) @ later} msg x op rest {later}"
proof -
  have n: "length (reply x [] op 0 rest) = 44 + length rest" by (simp add: reply_def reply_head_def)
  have "responds tape_os fd msg (reply x [] op 0 rest) (framed (reply x [] op 0 rest) @ later) later"
    using assms n by (intro tape_responds) (auto simp: limit_def)
  then have "answered tape_os fd msg x op rest (framed (reply x [] op 0 rest) @ later) later"
    unfolding answered_def using n assms by (intro exI[of _ "[]"]) (simp add: limit_def)
  then show ?thesis by (simp add: awaits_def)
qed

end
