(* ===== verification/Vfs_Calls.thy ===== *)
theory Vfs_Calls
  imports Vfs Sample
begin

text \<open>
  What the methods of the VFS make of the operations of the client: the rules for \<open>on_st\<close>
  and \<open>translated\<close>, the two transfers, and a VFS on the servers of \<open>Sample\<close>.
\<close>

section \<open>Transfers of the VFS\<close>

lemma on_st_Ok: "m (v_st v) = Some (Ok a s) \<Longrightarrow> on_st m v = Some (Ok a (v\<lparr>v_st := s\<rparr>))"
  unfolding on_st_def by (rule zoom_Ok)

lemma on_st_None: "m (v_st v) = None \<Longrightarrow> on_st m v = None"
  by (simp add: on_st_def zoom_def)

lemma translated_Ok: "m (v_st v) = Some (Ok a s) \<Longrightarrow> translated m v = Some (Ok SQLITE_OK (v\<lparr>v_st := s\<rparr>))"
  unfolding translated_def
  by (subst bnd_Ok[where m = "on_st (status_of m)", OF on_st_Ok[OF status_of_Ok[where m = m]]])
    (simp_all add: translate_status_def)

lemma translated_Err: "m (v_st v) = Some (Err c s) \<Longrightarrow> translated m v = Some (Ok SQLITE_ERROR (v\<lparr>v_st := s\<rparr>))"
  unfolding translated_def
  by (subst bnd_Ok[where m = "on_st (status_of m)", OF on_st_Ok[OF status_of_Err[where m = m]]])
    (simp_all add: translate_status_def)

lemma on_st_value_Ok:
  assumes "m (v_st v) = Some (Ok a s)"
  shows "on_st (status_value m) v = Some (Ok (None, Some a) (v\<lparr>v_st := s\<rparr>))"
  by (rule on_st_Ok) (simp add: status_value_def assms)

lemma on_st_value_Err:
  assumes "m (v_st v) = Some (Err c s)"
  shows "on_st (status_value m) v = Some (Ok (Some c, None) (v\<lparr>v_st := s\<rparr>))"
  by (rule on_st_Ok) (simp add: status_value_def assms)

text \<open>The caller's buffer replaced by another one.\<close>

definition with_mem :: "cells \<Rightarrow> 'w vfs \<Rightarrow> 'w vfs" where
  "with_mem mem v = v\<lparr>v_st := (v_st v)\<lparr>s_mem := mem\<rparr>\<rparr>"

lemma nfs4Read_reads:
  assumes "can_read os bytes W (c_maxresp (s_client (v_st v))) 0 off (unat n) (v_st v)"
    and "0 < c_maxresp (s_client (v_st v))"
  obtains t where "nfs4Read os n off v = Some (Ok Indeterminate (v\<lparr>v_st := t\<rparr>))"
    and "was_read bytes W 0 off (unat n) (v_st v) t"
proof -
  obtain t where t: "readfile os 0 off n (v_st v) = Some (Ok () t)" "was_read bytes W 0 off (unat n) (v_st v) t"
    using readfile_reads[OF assms] by blast
  from translated_Ok[where m = "readfile os 0 off n", OF t(1)] show thesis
    using t(2) by (intro that[of t]) (simp_all add: nfs4Read_def bnd_def)
qed

lemma nfs4Write_writes:
  assumes "can_write os bytes W (c_maxreq (s_client (v_st v))) 0 off (unat n) (v_st v)"
    and "0 < c_maxreq (s_client (v_st v))"
  obtains t where "nfs4Write os n off v = Some (Ok Indeterminate (v\<lparr>v_st := t\<rparr>))"
    and "was_written bytes W 0 off (unat n) (v_st v) t"
proof -
  obtain t where t: "writefile os 0 off n SYNCH_REMOTE (v_st v) = Some (Ok () t)"
      "was_written bytes W 0 off (unat n) (v_st v) t"
    using writefile_writes[OF assms, where sy = SYNCH_REMOTE] by blast
  from translated_Ok[where m = "writefile os 0 off n SYNCH_REMOTE", OF t(1)] show thesis
    using t(2) by (intro that[of t]) (simp_all add: nfs4Write_def bnd_def)
qed

lemma overlay_whole: "length xs = n \<Longrightarrow> length m = n \<Longrightarrow> overlay 0 xs m = xs"
  by (simp add: overlay_def)

section \<open>Locking\<close>

lemma run_locking_result:
  assumes "run_locking os scr v = Some (Ok rc v')"
  shows "run_script (client_call os) (q_eFileLock (v_sql v)) (scr (q_eFileLock (v_sql v))) (v_st v) =
    Some (Ok (rc, q_eFileLock (v_sql v')) (v_st v'))"
proof -
  from assms obtain r v1 where "on_st (run_script (client_call os) (q_eFileLock (v_sql v)) (scr (q_eFileLock (v_sql v)))) v =
      Some (Ok r v1)" "v' = v1\<lparr>v_sql := (v_sql v1)\<lparr>q_eFileLock := snd r\<rparr>\<rparr>" "rc = fst r"
    by (auto simp: run_locking_def set_sql_def split: prod.splits elim!: bnd_OkE)
  then show ?thesis by (auto simp: on_st_def zoom_Ok_iff)
qed

lemmas nfs4Lock_result = run_locking_result[of os "\<lambda>held. nfs4Lock_script held want" for os want, folded nfs4Lock_def]
lemmas nfs4Unlock_result = run_locking_result[of os "\<lambda>held. nfs4Unlock_script junk held want" for os junk want, folded nfs4Unlock_def]

lemma run_locking_run:
  assumes "run_script (client_call os) (q_eFileLock (v_sql v)) (scr (q_eFileLock (v_sql v))) (v_st v) = Some (Ok (rc, l) s)"
  shows "run_locking os scr v = Some (Ok rc (v\<lparr>v_st := s, v_sql := (v_sql v)\<lparr>q_eFileLock := l\<rparr>\<rparr>))"
  using assms by (simp add: run_locking_def on_st_def zoom_def bnd_def set_sql_def)

lemmas nfs4Lock_run = run_locking_run[of os _ "\<lambda>held. nfs4Lock_script held want" for os want, folded nfs4Lock_def]
lemmas nfs4Unlock_run = run_locking_run[of os _ "\<lambda>held. nfs4Unlock_script junk held want" for os junk want, folded nfs4Unlock_def]

section \<open>Examples\<close>

definition sample_vfs :: "int \<Rightarrow> u8 list \<Rightarrow> 'w \<Rightarrow> 'w vfs" where
  "sample_vfs fd mem w = \<lparr>v_sql = \<lparr>q_pMethods = True, q_eFileLock = NO_LOCK, q_powersafe = True, q_readonly = False,
     q_filename = fresh_cells 255\<rparr>, v_connected = True, v_trace = False, v_st = sample_st fd mem w\<rparr>"

lemma v_st_sample [simp]: "v_st (sample_vfs fd mem w) = sample_st fd mem w"
  by (simp add: sample_vfs_def)

definition sample_srv :: "u8 list \<Rightarrow> srv" where
  "sample_srv content = \<lparr>v_bytes = content, v_locks = (\<lambda>_. 0), v_deny = [], v_out = []\<rparr>"

lemma sample_quiet [simp]: "sample_srv content \<in> quiet" "v_bytes (sample_srv content) = content"
  by (simp_all add: quiet_def sample_srv_def)

definition sample_sqlite :: sqlite where
  "sample_sqlite = \<lparr>SQLITE_OPEN_READONLY = 1, SQLITE_OPEN_READWRITE = 2, SQLITE_OPEN_CREATE = 4,
     SQLITE_ACCESS_EXISTS = 0, SQLITE_ACCESS_READWRITE = 1, SQLITE_SYNC_NORMAL = 2,
     SQLITE_FCNTL_PRAGMA = 14, SQLITE_FCNTL_MMAP_SIZE = 18, SQLITE_FCNTL_VFSNAME = 12, SQLITE_IOCAP_POWERSAFE_OVERWRITE = 4096, SQLITE_IOCAP_IMMUTABLE = 8192\<rparr>"

end
