(* ===== verification/File_Properties.thy ===== *)
theory File_Properties
  imports Vfs_Calls
begin

text \<open>
  Properties of reading, writing and measuring an open file, from the methods of the VFS down
  to the chunks on the wire.
\<close>

section \<open>Reading and writing\<close>

text \<open>C1: \<^verbatim>\<open>nfs4Write\<close> of a range followed by \<^verbatim>\<open>nfs4Read\<close> of the same range brings back the bytes
  that were written, whatever the sizes of the chunks, the length of the file and the contents of
  the buffer that is read into.\<close>

theorem nfs4Write_then_nfs4Read:
  assumes w: "can_write os bytes W (c_maxreq (s_client (v_st v))) 0 off (unat n) (v_st v)"
    and r: "serves_reads os bytes W (c_fd (s_client (v_st v))) (c_session (s_client (v_st v))) (s_file (v_st v))"
    and limits: "0 < c_maxreq (s_client (v_st v))" "0 < c_maxresp (s_client (v_st v))"
      "unat (c_maxresp (s_client (v_st v))) \<le> 2 ^ 29"
    and mem: "length mem = unat n"
  shows "\<exists>u t. nfs4Write os n off v = Some (Ok Indeterminate u) \<and>
    nfs4Read os n off (with_mem mem u) = Some (Ok Indeterminate t) \<and>
    s_mem (v_st t) = take (unat n) (s_mem (v_st v))"
proof -
  obtain s where s: "nfs4Write os n off v = Some (Ok Indeterminate (v\<lparr>v_st := s\<rparr>))"
      "was_written bytes W 0 off (unat n) (v_st v) s"
    using nfs4Write_writes[OF w limits(1)] .
  let ?u = "with_mem mem (v\<lparr>v_st := s\<rparr>)"
  from w obtain dat where dat: "take (unat n) (s_mem (v_st v)) = cells_of dat"
      and fits: "unat n \<le> length (s_mem (v_st v))" "unat off + unat n < 2 ^ 64"
    by (auto simp: can_write_def can_transfer_def)
  have len: "length dat = unat n" using arg_cong[OF dat, of length] fits by simp
  have st: "steady W (v_st v) s" and bt: "bytes (s_world s) = stored (unat off) dat (bytes (s_world (v_st v)))"
    using s(2) dat by (auto simp: was_written_def)
  have "can_read os bytes W (c_maxresp (s_client (v_st ?u))) 0 off (unat n) (v_st ?u)"
      "0 < c_maxresp (s_client (v_st ?u))"
    using w r limits mem st by (simp_all add: can_read_def can_write_def can_transfer_def steady_def with_mem_def)
  then obtain t where t: "nfs4Read os n off ?u = Some (Ok Indeterminate (?u\<lparr>v_st := t\<rparr>))"
      "was_read bytes W 0 off (unat n) (v_st ?u) t"
    by (rule nfs4Read_reads)
  have "in_file off (unat n) (bytes (s_world s)) = dat"
    using stored_in_file[of off dat] fits len bt by simp
  then have "s_mem t = cells_of dat"
    using t(2) mem len overlay_whole[of "cells_of dat" "unat n" mem] by (simp add: was_read_def with_mem_def)
  with s(1) t(1) dat show ?thesis by simp
qed

lemma nfs4Write_then_nfs4Read_witness:
  "\<exists>u t. nfs4Write srv_os 5 10 (sample_vfs 1 [1, 2, 3, 4, 5] (sample_srv [9])) = Some (Ok Indeterminate u) \<and>
    nfs4Read srv_os 5 10 (with_mem (fresh_cells 5) u) = Some (Ok Indeterminate t) \<and>
    s_mem (v_st t) = cells_of [1, 2, 3, 4, 5]"
proof -
  let ?v = "sample_vfs 1 [1, 2, 3, 4, 5] (sample_srv [9])"
  have "\<exists>u t. nfs4Write srv_os 5 10 ?v = Some (Ok Indeterminate u) \<and>
      nfs4Read srv_os 5 10 (with_mem (fresh_cells 5) u) = Some (Ok Indeterminate t) \<and>
      s_mem (v_st t) = take (unat (5 :: u32)) (s_mem (v_st ?v))"
    by (rule nfs4Write_then_nfs4Read[where bytes = v_bytes and W = quiet])
      (use sample_serves(1) in \<open>simp_all add: sample_can_write fresh_cells_def\<close>)
  then show ?thesis by simp
qed

text \<open>C7: \<^verbatim>\<open>nfs4Read\<close> puts what the file holds at the offset to the beginning of the caller's
  buffer. At the end of the file it stops short and leaves the rest of the buffer as it was
  instead of filling it with zeros; the file, the client and the server's copy stay what they
  were. In no case does the method return a status.\<close>

theorem nfs4Read_fills:
  assumes "can_read os bytes W (c_maxresp (s_client (v_st v))) 0 off (unat n) (v_st v)"
    and "0 < c_maxresp (s_client (v_st v))"
  shows "\<exists>t. nfs4Read os n off v = Some (Ok Indeterminate (v\<lparr>v_st := t\<rparr>)) \<and>
    s_mem t = overlay 0 (cells_of (in_file off (unat n) (bytes (s_world (v_st v))))) (s_mem (v_st v)) \<and>
    s_file t = s_file (v_st v) \<and> idle (s_client t) \<and> bytes (s_world t) = bytes (s_world (v_st v))"
proof -
  obtain t where t: "nfs4Read os n off v = Some (Ok Indeterminate (v\<lparr>v_st := t\<rparr>))"
      "was_read bytes W 0 off (unat n) (v_st v) t"
    using nfs4Read_reads[OF assms] .
  with assms(1) show ?thesis by (auto simp: was_read_def steady_def can_read_def can_transfer_def)
qed

lemma nfs4Read_fills_witness:
  "\<exists>t. nfs4Read srv_os 4 1 (sample_vfs 1 [0, 0, 0, 0] (sample_srv [7, 8, 9])) =
      Some (Ok Indeterminate ((sample_vfs 1 [0, 0, 0, 0] (sample_srv [7, 8, 9]))\<lparr>v_st := t\<rparr>)) \<and>
    s_mem t = cells_of [8, 9, 0, 0]"
proof -
  let ?v = "sample_vfs 1 [0, 0, 0, 0] (sample_srv [7, 8, 9])"
  have "\<exists>t. nfs4Read srv_os 4 1 ?v = Some (Ok Indeterminate (?v\<lparr>v_st := t\<rparr>)) \<and>
    s_mem t = overlay 0 (cells_of (in_file 1 (unat (4 :: u32)) (v_bytes (s_world (v_st ?v))))) (s_mem (v_st ?v)) \<and>
    s_file t = s_file (v_st ?v) \<and> idle (s_client t) \<and> v_bytes (s_world t) = v_bytes (s_world (v_st ?v))"
    by (rule nfs4Read_fills[where W = quiet]) (simp_all add: sample_can_read)
  then show ?thesis by (auto simp: overlay_def in_file_def)
qed

text \<open>C34: When the server ended the session's negotiation with a largest reply of zero bytes, which
  the client accepts, \<^verbatim>\<open>nfs4Read\<close> of a range that is not empty asks for zero bytes again and
  again and never returns.\<close>

theorem nfs4Read_stuck:
  assumes "can_read os bytes W 0 0 off (unat n) (v_st v)" and "c_maxresp (s_client (v_st v)) = 0" and "0 < n"
  shows "nfs4Read os n off v = None"
  using status_of_None[where m = "readfile os 0 off n", OF readfile_stuck[OF assms]]
  by (simp add: nfs4Read_def translated_def bnd_None on_st_None)

lemma nfs4Read_stuck_witness:
  "nfs4Read srv_os 1 0 ((sample_vfs 1 [0] (sample_srv [7]))\<lparr>v_st := (sample_st 1 [0] (sample_srv [7]))
     \<lparr>s_client := session_limits (cells_of (replicate 16 3)) 1024 0 16 16 (sample_client 1)\<rparr>\<rparr>) = None"
proof -
  have "idle (session_limits (cells_of (replicate 16 3)) 1024 0 16 16 (sample_client 1))"
    by (intro idle_update[OF bufless_session_limits] idle_sample) simp
  then show ?thesis
    by (intro nfs4Read_stuck[where bytes = v_bytes and W = quiet])
      (use sample_serves(1)[of 1] in \<open>simp_all add: can_read_def can_transfer_def session_limits_def min_def sample_vfs_def\<close>)
qed

text \<open>C6: A transfer in chunks is the same as the calls for its pieces one after the other, from
  the first to the last, each of at least one byte and at most the chunk size, which together
  are the whole range; an error of one of them ends it. So \<^verbatim>\<open>segment\<close> returns if they do.\<close>

theorem segment_in_pieces:
  assumes "0 < chunk"
  shows "segment each chunk x off count s =
      seqs (map (each_piece each x off) (pieces (unat chunk) (unat count))) s \<and>
    sum_list (map snd (pieces (unat chunk) (unat count))) = unat count \<and>
    list_all (\<lambda>(d, k). 0 < k \<and> k \<le> unat chunk) (pieces (unat chunk) (unat count))"
  using segment_pieces[OF assms] pieces_whole[of "unat chunk" "unat count"] assms by (simp add: word_less_nat_alt)

lemma segment_in_pieces_witness:
  "segment (read_chunk srv_os) 3 0 10 7 (sample_st 1 [] (sample_srv [])) =
     seqs [each_piece (read_chunk srv_os) 0 10 (0, 3), each_piece (read_chunk srv_os) 0 10 (3, 3),
           each_piece (read_chunk srv_os) 0 10 (6, 1)] (sample_st 1 [] (sample_srv []))"
proof -
  have p: "pieces (unat (3 :: u32)) (unat (7 :: u32)) = [(0, 3), (3, 3), (6, 1)]"
    by (simp add: pieces_def upt_rec)
  show ?thesis
    using segment_in_pieces[of 3 "read_chunk srv_os" 0 10 7 "sample_st 1 [] (sample_srv [])"] unfolding p by simp
qed

text \<open>C33: The length in the answer to \<^verbatim>\<open>READ\<close> is believed: a server that sends more bytes than the
  caller's buffer has room for makes \<^verbatim>\<open>nfs4Read\<close> write past its end.\<close>

theorem nfs4Read_overruns:
  assumes c: "idle (s_client (v_st v))" and f: "wf_file (s_file (v_st v))"
    and n: "0 < n" "n \<le> c_maxresp (s_client (v_st v))"
    and got: "length (s_mem (v_st v)) < length got" "length got < 2 ^ 32"
    and acc: "accepted os
      (x_call (c_xid (s_client (v_st v)) + 1)
        [op_sequence (s_client (v_st v)), Putfh (handle (s_file (v_st v))), Read (f_latest_sid (s_file (v_st v))) off n])
      (used_slot (s_client (v_st v))) ds OP_READ (be32 eof @ be32 (word_of_nat (length got)) @ got @ tail) (v_st v) w'"
  shows "nfs4Read os n off v = Some (Crash Out_of_bounds)"
proof -
  let ?s = "v_st v" and ?chunk = "c_maxresp (s_client (v_st v))"
  have c: "read_chunk os 0 off n ?s = Some (Crash Out_of_bounds)"
    by (rule read_chunk_overrun[OF c f _ got(2) acc]) (use got(1) in simp)
  have "min (n - 0) ?chunk = n" using n(2) by (simp add: min_def)
  then have "readfile os 0 off n ?s = Some (Crash Out_of_bounds)"
    using n(1) unfolding readfile_segment segment_def
    by (subst segment_loop.simps) (simp add: bnd_Crash[where m = "read_chunk os 0 off n", OF c])
  then show ?thesis
    by (simp add: nfs4Read_def translated_def on_st_def zoom_def status_of_def bnd_def)
qed

lemma nfs4Read_overruns_witness:
  "nfs4Read tape_os 2 0 (sample_vfs 1 [0, 0] (framed (reply 6 [] OP_READ 0 (be32 1 @ be32 3 @ [7, 8, 9])))) =
     Some (Crash Out_of_bounds)"
proof -
  let ?v = "sample_vfs 1 [0, 0] (framed (reply 6 [] OP_READ 0 (be32 1 @ be32 3 @ [7, 8, 9])))"
  have "accepted tape_os msg (used_slot (sample_client 1)) [] OP_READ
      (be32 1 @ be32 (word_of_nat (length [7, 8, 9])) @ [7, 8, 9] @ []) (v_st ?v) []" for msg
    by (rule tape_accepted) (simp_all add: stepped_over_def step_ops OP_READ_def limit_def)
  then show ?thesis
    by (intro nfs4Read_overruns[where got = "[7, 8, 9]" and eof = 1 and tail = "[]" and ds = "[]" and w' = "[]"]) simp_all
qed

section \<open>The size of a file\<close>

text \<open>C20: \<^verbatim>\<open>nfs4FileSize\<close> of an open file asks for the size attribute alone and hands out what the
  server says, the last eight bytes of its answer.\<close>

theorem nfs4FileSize_ok:
  assumes c: "idle (s_client (v_st v))" and f: "wf_file (s_file (v_st v))"
    and acc: "accepted os
      (x_call (c_xid (s_client (v_st v)) + 1)
        [op_sequence (s_client (v_st v)), Putfh (handle (s_file (v_st v))), Getattr [16]])
      (used_slot (s_client (v_st v))) ds OP_GETATTR (attrs @ be64 sz) (v_st v) w'"
  shows "\<exists>t. nfs4FileSize os junk v = Some (Ok (SQLITE_OK, sz) (v\<lparr>v_st := t\<rparr>)) \<and>
    idle (s_client t) \<and> s_file t = s_file (v_st v)"
proof -
  have "leaves (file_size os) (v_st v) sz ((v_st v)\<lparr>s_client := used_slot (s_client (v_st v)), s_world := w'\<rparr>)"
    by (rule file_size_ok[OF c f acc])
  then obtain d where d: "file_size os (v_st v) = Some (Ok sz ((v_st v)\<lparr>s_client := d, s_world := w'\<rparr>))" "idle d"
    by (auto simp: leaves_def)
  show ?thesis
    using d(2) unfolding nfs4FileSize_def
    by (subst bnd_Ok[where m = "on_st (status_value (file_size os))", OF on_st_value_Ok[where m = "file_size os", OF d(1)]])
      (intro exI[of _ "(v_st v)\<lparr>s_client := d, s_world := w'\<rparr>"], simp add: translate_status_def)
qed

lemma nfs4FileSize_ok_witness:
  "\<exists>t. nfs4FileSize tape_os 77 (sample_vfs 1 [] (framed (reply 6 [] OP_GETATTR 0 ([0, 0] @ be64 4096)))) =
      Some (Ok (SQLITE_OK, 4096) ((sample_vfs 1 [] (framed (reply 6 [] OP_GETATTR 0 ([0, 0] @ be64 4096))))\<lparr>v_st := t\<rparr>)) \<and>
    idle (s_client t)"
proof -
  let ?v = "sample_vfs 1 [] (framed (reply 6 [] OP_GETATTR 0 ([0, 0] @ be64 4096)))"
  have "accepted tape_os msg (used_slot (sample_client 1)) [] OP_GETATTR ([0, 0] @ be64 4096) (v_st ?v) []" for msg
    by (rule tape_accepted) (simp_all add: stepped_over_def step_ops OP_GETATTR_def limit_def)
  then have "\<exists>t. nfs4FileSize tape_os 77 ?v = Some (Ok (SQLITE_OK, 4096) (?v\<lparr>v_st := t\<rparr>)) \<and>
      idle (s_client t) \<and> s_file t = s_file (v_st ?v)"
    by (intro nfs4FileSize_ok[where attrs = "[0, 0]" and ds = "[]" and w' = "[]"]) simp_all
  then show ?thesis by blast
qed

text \<open>C21: When the server refuses the request, \<^verbatim>\<open>nfs4FileSize\<close> reports an error but has stored
  into \<^verbatim>\<open>*pSize\<close> all the same: what the local happened to hold.\<close>

theorem nfs4FileSize_refused:
  assumes c: "idle (s_client (v_st v))" and f: "wf_file (s_file (v_st v))"
    and resp: "responds os (c_fd (s_client (v_st v)))
      (x_call (c_xid (s_client (v_st v)) + 1)
        [op_sequence (s_client (v_st v)), Putfh (handle (s_file (v_st v))), Getattr [16]])
      (refusal (c_xid (s_client (v_st v)) + 1) nstatus rest) (s_world (v_st v)) w'"
    and len: "length (refusal (c_xid (s_client (v_st v)) + 1) nstatus rest) \<le> limit"
    and st: "nstatus \<noteq> NFS4_OK" "codestring nfsstatus nstatus = Some cause" "nstatus \<noteq> NFS4ERR_BADSESSION"
  shows "\<exists>t. nfs4FileSize os junk v = Some (Ok (SQLITE_ERROR, junk) (v\<lparr>v_st := t\<rparr>)) \<and> idle (s_client t)"
proof -
  have "rejects (file_size os) (v_st v) cause ((v_st v)\<lparr>s_client := used_slot (s_client (v_st v)), s_world := w'\<rparr>)"
    unfolding file_size_def
    using call_rejects[OF size_request_sends[OF idle_ready[OF c] f] idle_used_slot[OF c] _ long_x_call _ _ st] resp len
    by simp
  then obtain d where d: "file_size os (v_st v) = Some (Err cause ((v_st v)\<lparr>s_client := d, s_world := w'\<rparr>))" "idle d"
    by (auto simp: rejects_def)
  show ?thesis
    using d(2) unfolding nfs4FileSize_def
    by (subst bnd_Ok[where m = "on_st (status_value (file_size os))", OF on_st_value_Err[where m = "file_size os", OF d(1)]])
      (intro exI[of _ "(v_st v)\<lparr>s_client := d, s_world := w'\<rparr>"], simp add: translate_status_def)
qed

lemma nfs4FileSize_refused_witness:
  "\<exists>t. nfs4FileSize tape_os 77 (sample_vfs 1 [] (framed (refusal 6 10010 []))) =
     Some (Ok (SQLITE_ERROR, 77) ((sample_vfs 1 [] (framed (refusal 6 10010 [])))\<lparr>v_st := t\<rparr>)) \<and> idle (s_client t)"
proof -
  let ?v = "sample_vfs 1 [] (framed (refusal 6 10010 []))"
  have "responds tape_os fd msg (refusal 6 10010 []) (s_world (v_st ?v)) []" for fd msg
    by (rule tape_refused) simp
  moreover have "length (refusal 6 10010 []) \<le> limit" by (simp add: refusal_def reply_head_def limit_def)
  moreover have "codestring nfsstatus 10010 = Some ''lock unavailable ''" by (simp add: nfsstatus_def)
  ultimately show ?thesis
    by (intro nfs4FileSize_refused[where nstatus = 10010 and rest = "[]" and w' = "[]"])
      (simp_all add: NFS4_OK_def NFS4ERR_BADSESSION_def)
qed

text \<open>C35: A server that takes the request and then closes the connection leaves \<^verbatim>\<open>nfs4FileSize\<close>
  waiting for ever: \<^verbatim>\<open>read\<close> returns zero bytes again and again, and no status is ever given.\<close>

theorem nfs4FileSize_hangs:
  assumes c: "idle (s_client (v_st v))" and f: "wf_file (s_file (v_st v))"
    and wr: "\<And>msg w. os_write os (c_fd (s_client (v_st v))) msg w = (int (length msg), closed)"
    and eof: "os_read os (c_fd (s_client (v_st v))) 4 closed = (Some [], closed)"
  shows "nfs4FileSize os junk v = None"
proof -
  have "file_size os (v_st v) = None"
    unfolding file_size_def
    by (rule call_hangs[OF size_request_sends[OF idle_ready[OF c] f] idle_used_slot[OF c] _ long_x_call wr, where W = "{closed}"])
      (use eof in simp_all)
  then have "on_st (status_value (file_size os)) v = None" by (intro on_st_None) (simp add: status_value_def)
  then show ?thesis by (simp add: nfs4FileSize_def bnd_None)
qed

lemma nfs4FileSize_hangs_witness: "nfs4FileSize (tape_os\<lparr>os_write := \<lambda>_ msg _. (int (length msg), [])\<rparr>) 77 (sample_vfs 1 [] [1, 2]) = None"
  by (rule nfs4FileSize_hangs[where closed = "[]"]) (simp_all add: tape_os_def)

end
