(* ===== verification/Session_Properties.thy ===== *)
theory Session_Properties
  imports Vfs_Calls
begin

text \<open>
  Properties of the session: how a client connects, what it puts on the wire, and what it makes of
  the answers, good ones and others.
\<close>

section \<open>A new client\<close>

text \<open>C3: A server that answers the five steps of the handshake gets the client connected:
  \<^verbatim>\<open>create_client\<close> returns with the session it was given, limits that neither side exceeds, the
  handle of the root directory, and two buffers that can take the first request.\<close>

theorem create_client_connects:
  assumes fresh: "length (c_session fresh) = NFS4_SESSIONID_SIZE" "length (c_root_filehandle fresh) = NFS4_FHSIZE"
    and host: "length h + 1 < 2 ^ 31" "0 \<notin> set h"
    and net: "os_clock os (s_world s) = ((sec, nsec), w0)"
      "os_gethostbyname os h w0 = (Some addr, w1)" "os_socket os w1 = (fd, w2)"
      "w3 = (if config_boolean (os_getenv os) ''NFS_TCP_NODELAY'' True then os_setsockopt os fd 0 1 w2 else w2)"
      "os_connect os fd (take 4 (cells_of addr)) 2049 w3 = (0, w4)"
    and W: "w4 \<in> W" "\<And>w. w \<in> W \<Longrightarrow> snd (os_rand os w) \<in> W"
    and c1: "c1 = connected addr fd (new_client (os_getenv os) fresh h (sec * 1000000000 + nsec))"
    and a1: "\<And>name. length name = 16 \<Longrightarrow> awaits os fd W (x_call (c_xid c1 + 1) [op_exchange_id name c1]) (c_xid c1 + 1)
      OP_EXCHANGE_ID (cid @ be32 sq @ be32 flags @ r1) W1" and cid: "length cid = 8"
    and c2: "c2 = identified cid sq c1"
    and a2: "awaits os fd W1 (x_call (c_xid c2 + 1) [op_create_session c2]) (c_xid c2 + 1) OP_CREATE_SESSION
      (session_reply sess sq2 sflags hpad req resp cached ops reqs rdma r2) W2" and sess: "length sess = 16"
    and c3: "c3 = session_limits (cells_of sess) req resp ops reqs (session_started c2)"
    and a3: "awaits os fd W2 (x_call (c_xid c3 + 1) [op_sequence c3, Putrootfh, Getfh]) (c_xid c3 + 1) OP_GETFH
      (be32 (word_of_nat (length fh)) @ fh @ r3) W3" and fh: "length fh \<le> NFS4_FHSIZE"
    and c4: "c4 = rooted fh (used_slot c3)"
    and a4: "awaits os fd W3 (x_call (c_xid c4 + 1) [op_sequence c4, Reclaim_complete False]) (c_xid c4 + 1)
      OP_RECLAIM_COMPLETE r4 W4"
  shows "\<exists>t. create_client os fresh h s = Some (Ok () t) \<and> idle (s_client t) \<and> s_world t \<in> W4 \<and>
    c_fd (s_client t) = fd \<and> c_session (s_client t) = cells_of sess \<and>
    c_maxreq (s_client t) = min (ucast (config_u64 (os_getenv os) ''NFS_WRITE_LIMIT'' (1024 * 1024))) req \<and>
    c_maxresp (s_client t) = min (ucast (config_u64 (os_getenv os) ''NFS_READ_LIMIT'' (1024 * 1024))) resp \<and>
    take (length fh) (c_root_filehandle (s_client t)) = cells_of fh"
proof -
  let ?c = "new_client (os_getenv os) fresh h (sec * 1000000000 + nsec)"
  let ?s = "s\<lparr>s_client := ?c, s_world := w0\<rparr>"
  have "reaches (rpc_connection os) ?s (used_slot c4) W4"
  proof (rule rpc_connection_ok[where name = h and s = ?s, OF _ _ _ net(3-5) W _ a1 cid c2 a2 sess c3 a3 fh c4 a4])
    show "idle (s_client ?s)" using idle_new_client[OF fresh] by simp
    show "c_string (b_contents (c_hostname (s_client ?s))) = Inr h"
      using c_string_end[OF host(2)] by (simp add: new_client_def host_name_def)
  qed (use net(2) c1 in simp_all)
  then obtain w c where w: "w \<in> W4" "rpc_connection os ?s = Some (Ok () (?s\<lparr>s_client := c, s_world := w\<rparr>))"
      "apart c (used_slot c4)" "idle c"
    by (auto simp: reaches_def leaves_def)
  note f = apart_fields[OF w(3)]
  show ?thesis
    using w(1,2,4) create_client_run[OF host(1), of os s sec nsec w0 fresh] net(1) f(1,3,5,6,8)
    by (simp add: c4 c3 c2 c1 rooted_def session_limits_def session_started_def identified_def next_call_def
      connected_def used_slot_def new_client_def)
qed

definition handshake_tape :: "u8 list" where
  "handshake_tape =
     framed (reply 0xb956bea5 [] OP_EXCHANGE_ID 0 (replicate 8 5 @ be32 1 @ be32 0 @ [])) @
     framed (reply 0xb956bea6 [] OP_CREATE_SESSION 0 (session_reply (replicate 16 6) 1 0 0 4096 8192 0 8 1 0 [])) @
     framed (reply 0xb956bea7 [] OP_GETFH 0 (be32 (word_of_nat (length [7, 7, 7 :: u8])) @ [7, 7, 7] @ [])) @
     framed (reply 0xb956bea8 [] OP_RECLAIM_COMPLETE 0 [])"

definition sample_host :: "u8 list" where
  "sample_host = ascii ''server''"

lemma create_client_connects_witness:
  "\<exists>t. create_client tape_os (sample_client 0) sample_host (sample_st 0 [] handshake_tape) = Some (Ok () t) \<and>
    idle (s_client t) \<and> c_session (s_client t) = cells_of (replicate 16 6) \<and>
    c_maxreq (s_client t) = 4096 \<and> c_maxresp (s_client t) = 8192"
proof -
  let ?g = "os_getenv tape_os"
  let ?c1 = "connected [127, 0, 0, 1] 1 (new_client ?g (sample_client 0) sample_host (0 * 1000000000 + 0))"
  let ?c2 = "identified (replicate 8 5) 1 ?c1"
  let ?c3 = "session_limits (cells_of (replicate 16 6)) 4096 8192 8 1 (session_started ?c2)"
  let ?c4 = "rooted [7, 7, 7] (used_slot ?c3)"
  let ?r4 = "framed (reply 0xb956bea8 [] OP_RECLAIM_COMPLETE 0 [])"
  let ?r3 = "framed (reply 0xb956bea7 [] OP_GETFH 0 (be32 (word_of_nat (length [7, 7, 7 :: u8])) @ [7, 7, 7] @ [])) @ ?r4"
  let ?r2 = "framed (reply 0xb956bea6 [] OP_CREATE_SESSION 0 (session_reply (replicate 16 6) 1 0 0 4096 8192 0 8 1 0 [])) @ ?r3"
  have x: "c_xid ?c1 + 1 = 0xb956bea5" "c_xid ?c2 + 1 = 0xb956bea6" "c_xid ?c3 + 1 = 0xb956bea7" "c_xid ?c4 + 1 = 0xb956bea8"
    by (simp_all add: connected_def new_client_def identified_def next_call_def session_limits_def session_started_def
        rooted_def used_slot_def)
  have fresh: "length (c_session (sample_client 0)) = NFS4_SESSIONID_SIZE"
      "length (c_root_filehandle (sample_client 0)) = NFS4_FHSIZE"
    by (simp_all add: sample_client_def size_defs the_handle_def fresh_cells_def)
  have "\<exists>t. create_client tape_os (sample_client 0) sample_host (sample_st 0 [] handshake_tape) = Some (Ok () t) \<and>
    idle (s_client t) \<and> s_world t \<in> {[]} \<and> c_fd (s_client t) = 1 \<and> c_session (s_client t) = cells_of (replicate 16 6) \<and>
    c_maxreq (s_client t) = min (ucast (config_u64 ?g ''NFS_WRITE_LIMIT'' (1024 * 1024))) 4096 \<and>
    c_maxresp (s_client t) = min (ucast (config_u64 ?g ''NFS_READ_LIMIT'' (1024 * 1024))) 8192 \<and>
    take (length [7, 7, 7 :: u8]) (c_root_filehandle (s_client t)) = cells_of [7, 7, 7]"
  proof (rule create_client_connects[OF fresh, where ?c1.0 = ?c1 and ?c2.0 = ?c2 and ?c3.0 = ?c3 and ?c4.0 = ?c4 and
      W = "{handshake_tape}" and ?W1.0 = "{?r2}" and ?W2.0 = "{?r3}" and ?W3.0 = "{?r4}" and cid = "replicate 8 5" and
      sq = 1 and sess = "replicate 16 6" and flags = 0 and ?r1.0 = "[]" and ?r2.0 = "[]" and ?r3.0 = "[]" and
      ?r4.0 = "[]" and ?sq2.0 = 1 and sflags = 0 and hpad = 0 and cached = 0 and ops = 8 and reqs = 1 and rdma = 0 and
      addr = "[127, 0, 0, 1]" and sec = 0 and nsec = 0])
    show "awaits tape_os 1 {handshake_tape} (x_call (c_xid ?c1 + 1) [op_exchange_id name ?c1]) (c_xid ?c1 + 1)
        OP_EXCHANGE_ID (replicate 8 5 @ be32 1 @ be32 0 @ []) {?r2}" for name
      unfolding x handshake_tape_def by (rule tape_awaits) (simp add: limit_def)
    show "awaits tape_os 1 {?r2} (x_call (c_xid ?c2 + 1) [op_create_session ?c2]) (c_xid ?c2 + 1) OP_CREATE_SESSION
        (session_reply (replicate 16 6) 1 0 0 4096 8192 0 8 1 0 []) {?r3}"
      unfolding x by (rule tape_awaits) (simp add: limit_def session_reply_def)
    show "awaits tape_os 1 {?r3} (x_call (c_xid ?c3 + 1) [op_sequence ?c3, Putrootfh, Getfh]) (c_xid ?c3 + 1) OP_GETFH
        (be32 (word_of_nat (length [7, 7, 7 :: u8])) @ [7, 7, 7] @ []) {?r4}"
      unfolding x by (rule tape_awaits) (simp add: limit_def)
    show "awaits tape_os 1 {?r4} (x_call (c_xid ?c4 + 1) [op_sequence ?c4, Reclaim_complete False]) (c_xid ?c4 + 1)
        OP_RECLAIM_COMPLETE [] {[]}"
      unfolding x using tape_awaits[of "[]" 1 "0xb956bea8" OP_RECLAIM_COMPLETE "[]"] by (simp add: limit_def)
  qed (simp_all add: sample_host_def tape_os_def size_defs ascii_def)
  then show ?thesis by (auto simp: tape_os_def config_u64_def)
qed

text \<open>C8: After \<^verbatim>\<open>create_session\<close> the sizes of requests and replies, the number of operations and
  of requests in flight are at most what the server offered and at most what they were; the
  session starts at sequence 1.\<close>

theorem create_session_bounds:
  assumes c: "idle (s_client s)" and sess: "length sess = 16"
    and acc: "accepted os (x_call (c_xid (s_client s) + 1) [op_create_session (s_client s)])
      (session_started (s_client s)) ds OP_CREATE_SESSION
      (session_reply sess sq flags hpad req resp cached ops reqs rdma rest) s w'"
  shows "\<exists>t. create_session os s = Some (Ok () t) \<and> idle (s_client t) \<and>
    c_session (s_client t) = cells_of sess \<and> c_sequence (s_client t) = 1 \<and>
    c_maxreq (s_client t) \<le> req \<and> c_maxreq (s_client t) \<le> c_maxreq (s_client s) \<and>
    c_maxresp (s_client t) \<le> resp \<and> c_maxresp (s_client t) \<le> c_maxresp (s_client s) \<and>
    c_maxops (s_client t) \<le> ops \<and> c_maxops (s_client t) \<le> c_maxops (s_client s) \<and>
    c_maxreqs (s_client t) \<le> reqs \<and> c_maxreqs (s_client t) \<le> c_maxreqs (s_client s)"
proof -
  let ?d = "session_limits (cells_of sess) req resp ops reqs (session_started (s_client s))"
  from create_session_ok[OF c sess acc] obtain d where d:
      "create_session os s = Some (Ok () (s\<lparr>s_client := d, s_world := w'\<rparr>))" "apart d ?d" "idle d"
    by (auto simp: leaves_def)
  have f: "c_session d = c_session ?d" "c_sequence d = c_sequence ?d" "c_maxreq d = c_maxreq ?d"
    "c_maxresp d = c_maxresp ?d" "c_maxops d = c_maxops ?d" "c_maxreqs d = c_maxreqs ?d"
    by (rule apart_field[OF d(2)], simp add: bare_def)+
  show ?thesis
    using d(1,3) f by (simp add: session_limits_def session_started_def)
qed

lemma create_session_bounds_witness:
  "\<exists>t. create_session tape_os (sample_st 1 [] (framed (reply 6 [] OP_CREATE_SESSION 0
      (session_reply (replicate 16 6) 1 0 0 1 8192 0 8 1 0 [])))) = Some (Ok () t) \<and>
    c_maxreq (s_client t) \<le> 1 \<and> c_maxresp (s_client t) \<le> 3"
proof -
  let ?s = "sample_st 1 [] (framed (reply 6 [] OP_CREATE_SESSION 0 (session_reply (replicate 16 6) 1 0 0 1 8192 0 8 1 0 [])))"
  have "accepted tape_os msg (session_started (s_client ?s)) [] OP_CREATE_SESSION
      (session_reply (replicate 16 6) 1 0 0 1 8192 0 8 1 0 []) ?s []" for msg
    by (rule tape_accepted) (simp_all add: session_started_def plain_ops session_reply_def limit_def)
  from create_session_bounds[OF _ _ this] show ?thesis by auto
qed

text \<open>A root handle longer than the protocol allows is refused and leaves the client as it was, but
  for the sequence number of the slot: nothing is written past the 128 bytes it has for it.\<close>

theorem get_root_fh_refuses:
  assumes c: "idle (s_client s)" and n: "NFS4_FHSIZE < unat n"
    and acc: "accepted os (x_call (c_xid (s_client s) + 1) [op_sequence (s_client s), Putrootfh, Getfh])
      (used_slot (s_client s)) ds OP_GETFH (be32 n @ rest) s w'"
  shows "\<exists>d. get_root_fh os s = Some (Err ''encoding mismatch'' (s\<lparr>s_client := d, s_world := w'\<rparr>)) \<and>
    apart d (used_slot (s_client s)) \<and> idle d"
  using get_root_fh_too_long[OF c n acc] by (auto simp: rejects_def)

lemma get_root_fh_refuses_witness:
  "\<exists>d. get_root_fh tape_os (sample_st 1 [] (framed (reply 6 [] OP_GETFH 0 (be32 129 @ replicate 129 0)))) =
      Some (Err ''encoding mismatch''
        ((sample_st 1 [] (framed (reply 6 [] OP_GETFH 0 (be32 129 @ replicate 129 0))))\<lparr>s_client := d, s_world := []\<rparr>)) \<and>
    apart d (used_slot (sample_client 1)) \<and> idle d"
proof -
  let ?s = "sample_st 1 [] (framed (reply 6 [] OP_GETFH 0 (be32 129 @ replicate 129 0)))"
  have "accepted tape_os msg (used_slot (s_client ?s)) [] OP_GETFH (be32 129 @ replicate 129 0) ?s []" for msg
    by (rule tape_accepted) (simp_all add: plain_ops limit_def)
  from get_root_fh_refuses[OF _ _ this] show ?thesis by (simp add: size_defs)
qed

section \<open>Requests on the wire\<close>

text \<open>C15: The request of \<^verbatim>\<open>nfs4Lock\<close> for a range, as it is handed to the socket, is byte for byte the
  XDR form of a compound of \<^verbatim>\<open>SEQUENCE\<close>, \<^verbatim>\<open>PUTFH\<close> and \<^verbatim>\<open>LOCK\<close>, framed by its length and under
  the next transaction id; the client then counts the slot as used.\<close>

theorem lock_request_on_wire:
  assumes "idle (s_client s)" and "wf_file (s_file s)"
  shows "sends os Forward (bnd (lock_request os ty off n) (rpc_send os)) s
    (x_call (c_xid (s_client s) + 1)
       [op_sequence (s_client s), Putfh (handle (s_file s)),
        Lock ty False off n 0 (f_open_sid (s_file s)) 0 (client_owner (s_client s))])
    (used_slot (s_client s))"
  by (rule lock_request_sends[OF idle_ready[OF assms(1)] assms(2)])

lemma lock_request_on_wire_witness:
  "sends tape_os Forward (bnd (lock_request tape_os READ_LT PENDING_BYTE 1) (rpc_send tape_os)) (sample_st 1 [] [])
    (x_call 6 [Sequence (cells_of (replicate 16 3)) 1 0 0 False, Putfh the_handle,
       Lock READ_LT False PENDING_BYTE 1 0 sample_sid 0 (client_owner (sample_client 1))])
    (used_slot (sample_client 1))"
  using lock_request_on_wire[of "sample_st 1 [] []" tape_os READ_LT PENDING_BYTE 1]
  by (simp add: op_sequence_def) (simp add: sample_client_def sample_file_def)

text \<open>C16: The request for a chunk that is written carries exactly the bytes of the chunk, padded to
  a multiple of four, and asks for stable storage.\<close>

theorem write_request_on_wire:
  assumes "idle (s_client s)" and "wf_file (s_file s)" and "unat n \<le> length mem" and "unat n \<le> 2 ^ 29"
  shows "sends os Forward (bnd (write_request os mem off n) (rpc_send os)) s
    (x_call (c_xid (s_client s) + 1)
       [op_sequence (s_client s), Putfh (handle (s_file s)),
        Write (f_latest_sid (s_file s)) off FILE_SYNC4 (take (unat n) mem)])
    (used_slot (s_client s))"
  by (rule write_request_sends[OF idle_ready[OF assms(1)] assms(2-)])

lemma write_request_on_wire_witness:
  "sends tape_os Forward (bnd (write_request tape_os (cells_of [1, 2, 3, 4, 5]) 7 3) (rpc_send tape_os)) (sample_st 1 [] [])
    (x_call 6 [Sequence (cells_of (replicate 16 3)) 1 0 0 False, Putfh the_handle,
       Write sample_sid 7 FILE_SYNC4 (cells_of [1, 2, 3])])
    (used_slot (sample_client 1))"
  using write_request_on_wire[of "sample_st 1 [] []" 3 "cells_of [1, 2, 3, 4, 5]" tape_os 7]
  by (simp add: op_sequence_def) (simp add: sample_client_def sample_file_def)

section \<open>Answers\<close>

text \<open>C18: Whatever bytes arrive as the header of a reply, few or many, \<^verbatim>\<open>parse_rpc\<close> returns, with success
  or with an error; it does not crash, read outside the buffer or loop.\<close>

theorem parse_rpc_returns:
  assumes "at w s t bs"
  shows "\<exists>s'. parse_rpc w s = Some (Ok () s') \<or> (\<exists>cause. parse_rpc w s = Some (Err cause s'))"
  using total_parse_rpc[of w] assms unfolding total_def by (metis (full_types) old.unit.exhaust)

lemma cur_bytes:
  assumes "length bs < 2 ^ 31"
  shows "cur \<lparr>b_start = 0, b_end = word_of_nat (length bs), b_capacity = word_of_nat (length bs), b_contents = cells_of bs\<rparr> bs"
proof -
  have "unat (word_of_nat (length bs) :: u32) = length bs" using assms by (intro unat_of_nat_small) simp
  then show ?thesis using assms by (simp add: cur_def wf_buf_def data_def)
qed

definition with_reply :: "u8 list \<Rightarrow> 'w st \<Rightarrow> 'w st" where
  "with_reply bs s = s\<lparr>s_client := (s_client s)\<lparr>c_reverse := \<lparr>b_start = 0, b_end = word_of_nat (length bs),
     b_capacity = word_of_nat (length bs), b_contents = cells_of bs\<rparr>\<rparr>\<rparr>"

lemma at_with_reply: "length bs < 2 ^ 31 \<Longrightarrow> at Reverse (with_reply bs s) (with_reply bs s) bs"
  using cur_bytes[of bs] by (intro at_start) (simp add: with_reply_def)

lemma parse_rpc_returns_witness:
  "\<exists>s'. parse_rpc Reverse (with_reply [0, 0, 0, 5, 0] (sample_st 1 [] ())) = Some (Ok () s') \<or>
    (\<exists>cause. parse_rpc Reverse (with_reply [0, 0, 0, 5, 0] (sample_st 1 [] ())) = Some (Err cause s'))"
  by (rule parse_rpc_returns[OF at_with_reply]) simp

text \<open>C19: A reply with a status other than \<^verbatim>\<open>NFS4_OK\<close> is an error that names the status; it is taken for
  a lost session, so that the caller reconnects, exactly when the status is
  \<^verbatim>\<open>NFS4ERR_BADSESSION\<close>.\<close>

theorem parse_rpc_flags:
  assumes "at w s t (reply_head (c_xid (s_client t)) nstatus @ bs)" and "nstatus \<noteq> NFS4_OK"
  shows "\<exists>s' cause. parse_rpc w s = Some (Err cause s') \<and> codestring nfsstatus nstatus = Some cause \<and>
    (s_bad s' \<longleftrightarrow> nstatus = NFS4ERR_BADSESSION)"
proof -
  obtain cause where c: "codestring nfsstatus nstatus = Some cause" using nfsstatus_answers[of nstatus] by auto
  from failsD[OF fails_parse_rpc[OF refl assms(2) c] assms(1)] obtain s' where
    "parse_rpc w s = Some (Err cause s')" "at w s' (t\<lparr>s_bad := nstatus = NFS4ERR_BADSESSION\<rparr>) bs" by blast
  with c at_bad show ?thesis by fastforce
qed

lemma parse_rpc_flags_witness:
  "\<exists>s' cause. parse_rpc Reverse (with_reply (reply_head 5 NFS4ERR_BADSESSION @ []) (sample_st 1 [] ())) = Some (Err cause s') \<and>
    codestring nfsstatus NFS4ERR_BADSESSION = Some cause \<and> (s_bad s' \<longleftrightarrow> NFS4ERR_BADSESSION = NFS4ERR_BADSESSION)"
proof -
  let ?s = "with_reply (reply_head 5 NFS4ERR_BADSESSION @ []) (sample_st 1 [] ())"
  have "at Reverse ?s ?s (reply_head (c_xid (s_client ?s)) NFS4ERR_BADSESSION @ [])"
    using at_with_reply[of "reply_head 5 NFS4ERR_BADSESSION @ []" "sample_st 1 [] ()"]
    by (simp add: with_reply_def reply_head_def)
  then show ?thesis by (rule parse_rpc_flags) (simp add: NFS4_OK_def NFS4ERR_BADSESSION_def)
qed

text \<open>When a request is sent again on a new session, \<^verbatim>\<open>replay_rpc\<close> renews the transaction id but puts
  the new session where the credentials of the header are (byte 60) and not where \<^verbatim>\<open>SEQUENCE\<close>
  has it (byte 96): the replayed request still names the session that was lost.\<close>

lemma replay_keeps_lost_session:
  assumes "rep (get_buf (r_b r) (s_client s)) (x_call x (Sequence lost sq 0 0 False # ops))"
    and "length lost = 16" and "length (c_session (s_client s)) = 16"
  shows "\<exists>s' msg. replay_rpc r s = Some (Ok () s') \<and> rep (get_buf (r_b r) (s_client s')) msg \<and>
    take 4 (drop 4 msg) = x32 (c_xid (s_client s) + 1) \<and>
    take 16 (drop 60 msg) = c_session (s_client s) \<and> take 16 (drop 96 msg) = lost"
proof -
  let ?msg = "x_call x (Sequence lost sq 0 0 False # ops)"
  have l: "80 \<le> length ?msg" using long_x_call[of x "Sequence lost sq 0 0 False # ops"] by linarith
  obtain s' where s': "replay_rpc r s = Some (Ok () s')" "rep (get_buf (r_b r) (s_client s')) (patched (s_client s) ?msg)"
    using replay_patches[OF assms(1) l assms(3)] by blast
  have "take 4 (drop 4 (patched (s_client s) ?msg)) = x32 (c_xid (s_client s) + 1)"
      "take 16 (drop 60 (patched (s_client s) ?msg)) = c_session (s_client s)"
      "take 16 (drop 96 (patched (s_client s) ?msg)) = take 16 (drop 96 ?msg)"
    using l assms(3) by (simp_all add: patched_def min_def)
  with s' session_field[OF assms(2)] show ?thesis by metis
qed

definition exact :: "cells \<Rightarrow> buffer" where
  "exact msg = \<lparr>b_start = 0, b_end = word_of_nat (length msg), b_capacity = word_of_nat (length msg), b_contents = msg\<rparr>"

lemma rep_exact:
  assumes "length msg < 2 ^ 31"
  shows "rep (exact msg) msg"
proof -
  have "unat (word_of_nat (length msg) :: u32) = length msg" using assms by (intro unat_of_nat_small) simp
  then show ?thesis using assms by (simp add: exact_def rep_def wf_buf_def data_def)
qed

lemma replay_keeps_lost_session_witness:
  "\<exists>s' msg. replay_rpc \<lparr>r_opcountloc = 88, r_opcount = 2, r_b = Forward\<rparr>
      ((sample_st 1 [] ())\<lparr>s_client := (sample_client 1)\<lparr>c_forward :=
         exact (x_call 5 (Sequence (cells_of (replicate 16 1)) 1 0 0 False # [Putrootfh]))\<rparr>\<rparr>) = Some (Ok () s') \<and>
    rep (c_forward (s_client s')) msg \<and> take 16 (drop 60 msg) = cells_of (replicate 16 3) \<and>
    take 16 (drop 96 msg) = cells_of (replicate 16 1)"
proof -
  let ?r = "\<lparr>r_opcountloc = 88, r_opcount = 2, r_b = Forward\<rparr>"
  let ?msg = "x_call 5 (Sequence (cells_of (replicate 16 1)) 1 0 0 False # [Putrootfh])"
  let ?s = "(sample_st 1 [] ())\<lparr>s_client := (sample_client 1)\<lparr>c_forward := exact ?msg\<rparr>\<rparr>"
  have "length ?msg < 2 ^ 31" by (simp add: x_call_def Let_def xfixed_def)
  then have "rep (get_buf (r_b ?r) (s_client ?s)) ?msg" using rep_exact by simp
  from replay_keeps_lost_session[OF this] show ?thesis by auto
qed

text \<open>A step over result bytes the reply does not have goes unnoticed: the position passes the end of
  the message, the distance to it wraps around, and the next word is read from what an earlier
  message left in the buffer.\<close>

theorem truncated_reply_read_past_end:
  assumes "wf_buf b" and "length (data b) < unat n" and "unat (b_start b) + unat n + 4 \<le> unat (b_capacity b)"
    and "take 4 (drop (unat (b_start b) + unat n) (b_contents b)) = cells_of bs"
  shows "bnd (skip n) (\<lambda>_. read_beu32) b = Some (Ok (of_be32 bs) (b\<lparr>b_start := b_start b + n + 4\<rparr>))"
  by (rule skip_past_end[OF assms])

definition stale_buffer :: buffer where
  "stale_buffer = \<lparr>b_start = 4, b_end = 8, b_capacity = 24, b_contents = 
     cells_of [0, 0, 0, 0, 0, 0, 0, 0, 9, 9, 9, 9, 9, 9, 9, 9, 9, 9, 9, 9, 9, 9, 9, 9]\<rparr>"

lemma truncated_reply_read_past_end_witness:
  "bnd (skip 16) (\<lambda>_. read_beu32) stale_buffer = Some (Ok 0x09090909 (stale_buffer\<lparr>b_start := 24\<rparr>))"
proof -
  have "bnd (skip 16) (\<lambda>_. read_beu32) stale_buffer =
      Some (Ok (of_be32 [9, 9, 9, 9]) (stale_buffer\<lparr>b_start := b_start stale_buffer + 16 + 4\<rparr>))"
    by (rule truncated_reply_read_past_end) (simp_all add: stale_buffer_def wf_buf_def data_def)
  then show ?thesis by (simp add: of_be32_4) (simp add: stale_buffer_def)
qed

text \<open>An open for which the server grants a write delegation cannot succeed: \<^verbatim>\<open>parse_delegation\<close>
  runs into the error behind its cases whatever limit the server gives.\<close>

lemma write_delegation_fails:
  assumes "on_buf w read_beu32 s = Some (Ok OPEN_DELEGATE_WRITE s')"
  shows "parse_delegation w s \<noteq> Some (Ok a t)"
  by (rule delegation_write[OF assms])

lemma write_delegation_fails_witness:
  "\<forall>a t. parse_delegation Reverse (with_reply (be32 OPEN_DELEGATE_WRITE @ replicate 60 0) (sample_st 1 [] ())) \<noteq>
     Some (Ok a t)"
proof -
  obtain s' where "on_buf Reverse read_beu32 (with_reply (be32 OPEN_DELEGATE_WRITE @ replicate 60 0) (sample_st 1 [] ())) =
      Some (Ok OPEN_DELEGATE_WRITE s')"
    using goesD[OF goes_read32 at_with_reply[of "be32 OPEN_DELEGATE_WRITE @ replicate 60 0" "sample_st 1 [] ()"]] by auto
  then show ?thesis by (intro allI) (rule write_delegation_fails)
qed

end
