(* ===== verification/Lock_Properties.thy ===== *)
theory Lock_Properties
  imports Vfs_Calls
begin

text \<open>
  Properties of the lock levels: what several processes that lock one database can rely on, and
  what a request that fails halfway leaves behind.
\<close>

section \<open>Runs on the server of the examples\<close>

lemma sample_as_proc: "lock_client the_handle p (as_proc p sample_system)" "y_world sample_system \<in> denying []"
  by (simp_all add: sample_system_def as_proc_def lock_client_def denying_def quiet_def)

lemma sample_run:
  assumes "want = RESERVED_LOCK \<or> want = EXCLUSIVE_LOCK"
  shows "\<exists>y. (lock_step (proc_call srv_os) F)\<^sup>*\<^sup>* (sample_system, all_free) (y, all_free(1 := (want, Between)))"
proof -
  obtain y1 where y1: "(lock_step (proc_call srv_os) F)\<^sup>*\<^sup>* (sample_system, all_free(1 := (NO_LOCK, Between)))
      (y1, all_free(1 := (SHARED_LOCK, Between)))" "lock_client the_handle 1 (as_proc 1 y1)" "y_world y1 \<in> denying []"
    using proc_locks[where p = 1 and F = F and P = all_free, OF lock_script_ends(1) sample_as_proc srv_grants] by blast
  have "script_end SHARED_LOCK (nfs4Lock_script SHARED_LOCK want) = Some want"
    using assms lock_script_ends by auto
  from proc_locks[where p = 1 and F = F and P = all_free, OF this y1(2,3) srv_grants]
  obtain y2 where "(lock_step (proc_call srv_os) F)\<^sup>*\<^sup>* (y1, all_free(1 := (SHARED_LOCK, Between)))
      (y2, all_free(1 := (want, Between)))" by blast
  with y1(1) have "(lock_step (proc_call srv_os) F)\<^sup>*\<^sup>* (sample_system, all_free(1 := (NO_LOCK, Between)))
      (y2, all_free(1 := (want, Between)))" by (rule rtranclp_trans)
  moreover have "all_free(1 := (NO_LOCK, Between)) = (all_free :: int procs)" by (auto simp: all_free_def)
  ultimately show ?thesis by auto
qed

lemma srv_proc_call:
  assumes "lock_client the_handle p (as_proc p y)" and "y_world y \<in> denying D" and "wf_call c"
  shows "p = 1 \<Longrightarrow> c \<notin> set D \<Longrightarrow>
      \<exists>y'. proc_call srv_os p c y = Some (Ok () y') \<and> lock_client the_handle p (as_proc p y') \<and> y_world y' \<in> denying D"
    and "p \<noteq> 1 \<or> c \<in> set D \<Longrightarrow> \<exists>e y'. proc_call srv_os p c y = Some (Err e y')"
proof -
  let ?s = "as_proc p y"
  have w: "s_world ?s = y_world y" "v_deny (y_world y) = D" using assms(2) by (simp_all add: as_proc_def denying_def)
  note ask = may_ask_client[OF assms(1,3)]
  show "\<exists>y'. proc_call srv_os p c y = Some (Ok () y') \<and> lock_client the_handle p (as_proc p y') \<and> y_world y' \<in> denying D"
    if "p = 1" "c \<notin> set D"
  proof -
    have "granted srv_os srv_tbl (denying D) p (call_msg c ?s) (c_xid (s_client ?s) + 1) (op_of c) c (s_world ?s)"
      using srv_grants_call[OF ask, of "y_world y" "denying D"] that w by (simp add: call_msg_def)
    from granted_outcome[OF this assms(1)] obtain t where
      "client_call srv_os c ?s = Some (Ok () t)" "lock_client the_handle p t" "s_world t \<in> denying D"
      by (auto simp: call_granted_def)
    then show ?thesis by (auto simp: proc_call_run[OF refl] put_proc_def as_proc_def lock_client_def)
  qed
  show "\<exists>e y'. proc_call srv_os p c y = Some (Err e y')" if "p \<noteq> 1 \<or> c \<in> set D"
  proof -
    have "denied srv_os srv_tbl quiet p (call_msg c ?s) (c_xid (s_client ?s) + 1) (s_world ?s)"
      using srv_denies_call[OF ask, of p "y_world y"] that w by (simp add: call_msg_def)
    from denied_outcome[OF this assms(1)] show ?thesis by (auto simp: proc_call_run[OF refl])
  qed
qed

definition stubborn_system :: "call list \<Rightarrow> srv system" where
  "stubborn_system D = sample_system\<lparr>y_world := (y_world sample_system)\<lparr>v_deny := D\<rparr>\<rparr>"

lemma stubborn:
  "lock_client the_handle p (as_proc p (stubborn_system D))" "y_world (stubborn_system D) \<in> denying D"
  "lock_system srv_os srv_tbl quiet the_handle (stubborn_system D)"
  using srv_serves_locks
  by (simp_all add: stubborn_system_def sample_system_def as_proc_def lock_client_def denying_def quiet_def lock_system_def)

section \<open>Several processes\<close>

text \<open>C2: Take any run of processes that call \<^verbatim>\<open>nfs4Lock\<close> and \<^verbatim>\<open>nfs4Unlock\<close>, with their calls to the
  server interleaved in any order and succeeding or failing, in which an \<^verbatim>\<open>nfs4Unlock\<close> that fails
  after one of its calls succeeded occurs only in processes of \<open>F\<close>. A process outside \<open>F\<close> at
  \<^verbatim>\<open>EXCLUSIVE\<close> excludes all others outside \<open>F\<close>: each of them is at \<^verbatim>\<open>NONE\<close>. Neither of the
  two may be in the middle of an \<^verbatim>\<open>nfs4Unlock\<close> (\<open>settled\<close>).\<close>

theorem writer_is_alone:
  assumes "(lock_step (proc_call os) F)\<^sup>*\<^sup>* (y0, all_free) (y, P)" and "lock_system os tbl W h y0"
    and "P p = (EXCLUSIVE_LOCK, ph)" and "settled ph" and "p \<notin> F"
    and "P q = (l, ph')" and "settled ph'" and "q \<notin> F" and "p \<noteq> q"
  shows "l = NO_LOCK"
  by (rule db.writer_excludes[OF db.safe_reachable[OF assms(1,2)] assms(3-9)])

lemma writer_is_alone_witness:
  "\<exists>y l. (lock_step (proc_call srv_os) {3})\<^sup>*\<^sup>* (sample_system, all_free) (y, all_free(1 := (EXCLUSIVE_LOCK, Between))) \<and>
    (all_free(1 := (EXCLUSIVE_LOCK, Between))) (2 :: int) = (l, Between) \<and> l = NO_LOCK"
proof -
  obtain y where y: "(lock_step (proc_call srv_os) {3})\<^sup>*\<^sup>* (sample_system, all_free) (y, all_free(1 := (EXCLUSIVE_LOCK, Between)))"
    using sample_run[of EXCLUSIVE_LOCK "{3}"] by blast
  moreover obtain l where l: "(all_free(1 := (EXCLUSIVE_LOCK, Between))) (2 :: int) = (l, Between)"
    by (simp add: all_free_def)
  moreover have "l = NO_LOCK" by (rule writer_is_alone[OF y sample_lock_system _ _ _ l, of 1 Between]) simp_all
  ultimately show ?thesis by blast
qed

text \<open>C17: In the same runs, at most one process outside \<open>F\<close> is at \<^verbatim>\<open>RESERVED\<close>, those in the middle of
  an \<^verbatim>\<open>nfs4Unlock\<close> aside.\<close>

theorem one_writer_prepares:
  assumes "(lock_step (proc_call os) F)\<^sup>*\<^sup>* (y0, all_free) (y, P)" and "lock_system os tbl W h y0"
    and "P p = (RESERVED_LOCK, ph)" and "settled ph" and "p \<notin> F"
    and "P q = (RESERVED_LOCK, ph')" and "settled ph'" and "q \<notin> F"
  shows "p = q"
  by (rule db.one_reserved[OF db.safe_reachable[OF assms(1,2)] assms(3-8)])

lemma one_writer_prepares_witness:
  "\<exists>y. (lock_step (proc_call srv_os) {3})\<^sup>*\<^sup>* (sample_system, all_free) (y, all_free(1 := (RESERVED_LOCK, Between))) \<and>
    (\<forall>q. q \<noteq> 3 \<and> (all_free(1 := (RESERVED_LOCK, Between))) (q :: int) = (RESERVED_LOCK, Between) \<longrightarrow> 1 = q)"
proof -
  obtain y where y: "(lock_step (proc_call srv_os) {3})\<^sup>*\<^sup>* (sample_system, all_free) (y, all_free(1 := (RESERVED_LOCK, Between)))"
    using sample_run[of RESERVED_LOCK "{3}"] by blast
  moreover have "1 = q" if "q \<noteq> 3" "(all_free(1 := (RESERVED_LOCK, Between))) q = (RESERVED_LOCK, Between)" for q :: int
    by (rule one_writer_prepares[OF y sample_lock_system _ _ _ that(2), where ph = Between]) (use that(1) in simp_all)
  ultimately show ?thesis by blast
qed

text \<open>C10: In the same runs, the level a process outside \<open>F\<close> believes to be at is backed by what it holds
  on the server, unless it is in the middle of an \<^verbatim>\<open>nfs4Unlock\<close>: a read lock on the shared bytes
  from \<^verbatim>\<open>SHARED\<close> on, a write lock on the reserved byte at \<^verbatim>\<open>RESERVED\<close>, a write lock on the
  shared bytes at \<^verbatim>\<open>EXCLUSIVE\<close>. \<open>failed_downgrade_keeps_level\<close> below shows that processes of \<open>F\<close>
  are rightly left out.\<close>

theorem levels_are_backed:
  assumes "(lock_step (proc_call os) F)\<^sup>*\<^sup>* (y0, all_free) (y, P)" and "lock_system os tbl W h y0"
    and "P p = (l, ph)" and "settled ph" and "p \<notin> F"
  shows "worth l (tbl (y_world y) p)"
  by (rule db.level_worth[OF db.safe_reachable[OF assms(1,2)] assms(3-5)])

lemma levels_are_backed_witness:
  "\<exists>y. (lock_step (proc_call srv_os) {3})\<^sup>*\<^sup>* (sample_system, all_free) (y, all_free(1 := (EXCLUSIVE_LOCK, Between))) \<and>
    worth EXCLUSIVE_LOCK (srv_tbl (y_world y) 1)"
proof -
  obtain y where y: "(lock_step (proc_call srv_os) {3})\<^sup>*\<^sup>* (sample_system, all_free) (y, all_free(1 := (EXCLUSIVE_LOCK, Between)))"
    using sample_run[of EXCLUSIVE_LOCK "{3}"] by blast
  moreover have "worth EXCLUSIVE_LOCK (srv_tbl (y_world y) 1)"
    by (rule levels_are_backed[OF y sample_lock_system, of 1 EXCLUSIVE_LOCK Between]) simp_all
  ultimately show ?thesis by blast
qed

text \<open>
  The runs are those of the methods: \<^verbatim>\<open>nfs4Lock\<close> and \<^verbatim>\<open>nfs4Unlock\<close>, when they return, are sequences of
  the steps above. One process makes them on the system, the others stay where they are, and it
  ends at the level that \<^verbatim>\<open>eFileLock\<close> then has; \<^verbatim>\<open>nfs4Lock\<close> in any such run, \<^verbatim>\<open>nfs4Unlock\<close> if it
  succeeds or its process is in \<open>F\<close>.
\<close>

lemma nfs4Lock_is_steps:
  assumes "as_proc p y = v_st v" and "P p = (q_eFileLock (v_sql v), Between)" and "nfs4Lock os want v = Some (Ok rc v')"
  shows "\<exists>y'. (lock_step (proc_call os) F)\<^sup>*\<^sup>* (y, P) (y', P(p := (q_eFileLock (v_sql v'), Between))) \<and> as_proc p y' = v_st v'"
proof -
  let ?l = "q_eFileLock (v_sql v)" and ?l' = "q_eFileLock (v_sql v')"
  from proc_script[OF nfs4Lock_result[OF assms(3)] assms(1)] obtain y' where y':
    "run_script (proc_call os p) ?l (nfs4Lock_script ?l want) y = Some (Ok (rc, ?l') y')" "as_proc p y' = v_st v'" by blast
  have "lock_step (proc_call os) F (y, P) (y, P(p := (?l, Locking (nfs4Lock_script ?l want))))"
    using start_lock[of P p ?l "proc_call os" F y want] assms(2) by simp
  with run_script_steps(1)[where call = "proc_call os" and P = P and F = F, OF y'(1)] y'(2)
  show ?thesis by (metis converse_rtranclp_into_rtranclp)
qed

lemma nfs4Unlock_is_steps:
  assumes "as_proc p y = v_st v" and "P p = (q_eFileLock (v_sql v), Between)" and "NO_LOCK \<le> want"
    and "nfs4Unlock os junk want v = Some (Ok rc v')" and "rc = SQLITE_OK \<or> p \<in> F"
  shows "\<exists>y'. (lock_step (proc_call os) F)\<^sup>*\<^sup>* (y, P) (y', P(p := (q_eFileLock (v_sql v'), Between))) \<and> as_proc p y' = v_st v'"
proof -
  let ?l = "q_eFileLock (v_sql v)" and ?l' = "q_eFileLock (v_sql v')"
  from proc_script[OF nfs4Unlock_result[OF assms(4)] assms(1)] obtain y' where y':
    "run_script (proc_call os p) ?l (nfs4Unlock_script junk ?l want) y = Some (Ok (rc, ?l') y')" "as_proc p y' = v_st v'" by blast
  have "lock_step (proc_call os) F (y, P) (y, P(p := (?l, Unlocking False (nfs4Unlock_script junk ?l want))))"
    using start_unlock[of P p ?l want "proc_call os" F y junk] assms(2,3) by simp
  with run_script_steps(2)[where call = "proc_call os" and P = P and F = F and begun = False, OF y'(1) assms(5)] y'(2)
  show ?thesis by (metis converse_rtranclp_into_rtranclp)
qed

text \<open>C4: If the server grants the calls, a process that holds exactly the byte-range locks of its level holds
  exactly those of the new one after \<^verbatim>\<open>nfs4Lock\<close> and \<^verbatim>\<open>nfs4Unlock\<close>, which return \<^verbatim>\<open>SQLITE_OK\<close>: the lock
  on the pending byte is gone at \<^verbatim>\<open>SHARED\<close> and kept at \<^verbatim>\<open>EXCLUSIVE\<close>, the shared bytes are locked for
  reading or for writing as the level says (\<open>level_locks\<close>), and no byte is left behind. The locks
  of others do not change.\<close>

theorem locking_holds_exactly:
  assumes v: "lock_client h fd (v_st v)" "s_world (v_st v) \<in> W" and g: "grants_locks os tbl W h fd"
    and held: "q_eFileLock (v_sql v) = held" "holds_exactly held (tbl (s_world (v_st v)) fd)"
    and goal: "(held, want) \<in> {(NO_LOCK, SHARED_LOCK), (SHARED_LOCK, RESERVED_LOCK),
        (SHARED_LOCK, EXCLUSIVE_LOCK), (RESERVED_LOCK, EXCLUSIVE_LOCK)} \<and> run = nfs4Lock os want \<and> new = want \<or>
      want \<in> {NO_LOCK, SHARED_LOCK} \<and> run = nfs4Unlock os junk want \<and> new = min held want"
  shows "\<exists>v'. run v = Some (Ok SQLITE_OK v') \<and> q_eFileLock (v_sql v') = new \<and>
    holds_exactly new (tbl (s_world (v_st v')) fd) \<and> (\<forall>p. p \<noteq> fd \<longrightarrow> tbl (s_world (v_st v')) p = tbl (s_world (v_st v)) p)"
proof -
  from goal show ?thesis
  proof
    assume goal: "(held, want) \<in> {(NO_LOCK, SHARED_LOCK), (SHARED_LOCK, RESERVED_LOCK),
        (SHARED_LOCK, EXCLUSIVE_LOCK), (RESERVED_LOCK, EXCLUSIVE_LOCK)} \<and> run = nfs4Lock os want \<and> new = want"
    then have "script_end held (nfs4Lock_script held want) = Some want" using lock_script_ends by auto
    from granted_script[OF this v g] lock_script_effect[OF held(2), of want] nfs4Lock_run[of os v want SQLITE_OK want] goal held(1)
    show ?thesis by force
  next
    assume goal: "want \<in> {NO_LOCK, SHARED_LOCK} \<and> run = nfs4Unlock os junk want \<and> new = min held want"
    then have "script_end held (nfs4Unlock_script junk held want) = Some (min held want)"
      using held(2) by (intro unlock_script_ends) (simp_all add: holds_exactly_def)
    from granted_script[OF this v g] unlock_script_effect[OF held(2), of want junk]
      nfs4Unlock_run[of os v junk want SQLITE_OK "min held want"] goal held(1)
    show ?thesis by force
  qed
qed

lemma locking_holds_exactly_witness:
  "\<exists>v'. nfs4Lock srv_os SHARED_LOCK (sample_vfs 1 [] (sample_srv [])) = Some (Ok SQLITE_OK v') \<and>
    q_eFileLock (v_sql v') = SHARED_LOCK \<and> holds_exactly SHARED_LOCK (srv_tbl (s_world (v_st v')) 1)"
proof -
  let ?v = "sample_vfs 1 [] (sample_srv [])"
  have "holds_exactly NO_LOCK (srv_tbl (s_world (v_st ?v)) 1)"
    by (auto simp: holds_exactly_def level_locks_def fun_eq_iff srv_tbl_def sample_srv_def level_defs)
  from locking_holds_exactly[where v = ?v and want = SHARED_LOCK and run = "nfs4Lock srv_os SHARED_LOCK" and new = SHARED_LOCK,
      OF _ _ srv_grants _ this]
  show ?thesis by (fastforce simp: lock_client_def denying_def quiet_def sample_srv_def sample_vfs_def)
qed

text \<open>C5: If the server grants what a process asks for, \<^verbatim>\<open>nfs4Lock\<close> brings it from each level to the
  next ones: it returns \<^verbatim>\<open>SQLITE_OK\<close>, the level is the one that was asked for, and the client is
  ready for the next operation.\<close>

theorem nfs4Lock_granted:
  assumes "lock_client h fd (v_st v)" and "s_world (v_st v) \<in> W" and "grants_locks os tbl W h fd"
    and "(q_eFileLock (v_sql v), want) \<in> {(NO_LOCK, SHARED_LOCK), (SHARED_LOCK, RESERVED_LOCK),
      (SHARED_LOCK, EXCLUSIVE_LOCK), (RESERVED_LOCK, EXCLUSIVE_LOCK)}"
  shows "\<exists>v'. nfs4Lock os want v = Some (Ok SQLITE_OK v') \<and> q_eFileLock (v_sql v') = want \<and> lock_client h fd (v_st v')"
proof -
  have "script_end (q_eFileLock (v_sql v)) (nfs4Lock_script (q_eFileLock (v_sql v)) want) = Some want"
    using assms(4) lock_script_ends by auto
  from granted_script[OF this assms(1-3)] nfs4Lock_run[of os v want SQLITE_OK want] show ?thesis by force
qed

lemma nfs4Lock_granted_witness:
  "\<exists>v'. nfs4Lock srv_os SHARED_LOCK (sample_vfs 1 [] (sample_srv [])) = Some (Ok SQLITE_OK v') \<and>
    q_eFileLock (v_sql v') = SHARED_LOCK \<and> lock_client the_handle 1 (v_st v')"
  by (rule nfs4Lock_granted[OF _ _ srv_grants])
    (simp_all add: lock_client_def denying_def quiet_def sample_srv_def sample_vfs_def)

section \<open>Calls that are denied\<close>

text \<open>C14: Each call of the locking methods leaves the client fit for the next one, granted or denied: both
  buffers can take a request and the file keeps its handle and well-formed state ids. A denied
  call leaves the server's locks as they were, a granted one changes those of its own process.\<close>

theorem lock_calls_keep_client:
  assumes "serves_locks os tbl W h" and "lock_client h fd s" and "s_world s \<in> W" and "wf_call c"
  shows "\<exists>t. lock_client h fd t \<and> s_world t \<in> W \<and>
    (client_call os c s = Some (Ok () t) \<and> tbl (s_world t) = (tbl (s_world s))(fd := after_call c (tbl (s_world s) fd)) \<or>
     (\<exists>e. client_call os c s = Some (Err e t) \<and> tbl (s_world t) = tbl (s_world s)))"
  using client_call_outcome[OF assms] unfolding lock_outcome_def call_granted_def by blast

lemma lock_calls_keep_client_witness:
  "\<exists>t. lock_client the_handle 2 t \<and> s_world t \<in> quiet \<and>
    (client_call srv_os (Lock_range WRITE_LT 5 1) (sample_st 2 [] (sample_srv [])) = Some (Ok () t) \<and>
       srv_tbl (s_world t) = (srv_tbl (sample_srv []))(2 := after_call (Lock_range WRITE_LT 5 1) (srv_tbl (sample_srv []) 2)) \<or>
     (\<exists>e. client_call srv_os (Lock_range WRITE_LT 5 1) (sample_st 2 [] (sample_srv [])) = Some (Err e t) \<and>
       srv_tbl (s_world t) = srv_tbl (sample_srv [])))"
  using lock_calls_keep_client[OF srv_serves_locks, of 2 "sample_st 2 [] (sample_srv [])" "Lock_range WRITE_LT 5 1"]
  by (simp add: lock_client_def)

text \<open>C36: A request for \<^verbatim>\<open>SHARED\<close> that fails at the shared bytes leaves its lock on the pending byte behind:
  \<^verbatim>\<open>nfs4Lock\<close> reports an error at level \<^verbatim>\<open>NONE\<close>, the \<^verbatim>\<open>nfs4Unlock\<close> that follows does nothing, and
  from then on no other process can get to \<^verbatim>\<open>EXCLUSIVE\<close>, which takes that byte.\<close>

theorem failed_shared_blocks_writers:
  assumes g: "lock_system os tbl W h y"
    and 1: "proc_call os p (Lock_range READ_LT PENDING_BYTE 1) y = Some (Ok () y1)"
    and 2: "proc_call os p (Lock_range READ_LT SHARED_FIRST SHARED_SIZE) y1 = Some (Err e y2)" and pq: "p \<noteq> q"
  shows "run_script (proc_call os p) NO_LOCK (nfs4Lock_script NO_LOCK SHARED_LOCK) y = Some (Ok (SQLITE_ERROR, NO_LOCK) y2) \<and>
    run_script (proc_call os p) NO_LOCK (nfs4Unlock_script junk NO_LOCK NO_LOCK) y2 = Some (Ok (SQLITE_OK, NO_LOCK) y2) \<and>
    tbl (y_world y2) p PENDING_BYTE = 1 \<and>
    \<not> (\<exists>y3. proc_call os q (Lock_range WRITE_LT PENDING_BYTE 1) y2 = Some (Ok () y3))"
  using db.shared_request_leaks[OF g 1 2 pq] by blast

lemma failed_shared_blocks_writers_witness:
  "\<exists>y2. run_script (proc_call srv_os 1) NO_LOCK (nfs4Lock_script NO_LOCK SHARED_LOCK)
      (stubborn_system [Lock_range READ_LT SHARED_FIRST SHARED_SIZE]) = Some (Ok (SQLITE_ERROR, NO_LOCK) y2) \<and>
    srv_tbl (y_world y2) 1 PENDING_BYTE = 1 \<and>
    \<not> (\<exists>y3. proc_call srv_os 2 (Lock_range WRITE_LT PENDING_BYTE 1) y2 = Some (Ok () y3))"
proof -
  let ?D = "[Lock_range READ_LT SHARED_FIRST SHARED_SIZE]" and ?y = "stubborn_system [Lock_range READ_LT SHARED_FIRST SHARED_SIZE]"
  obtain y1 where 1: "proc_call srv_os 1 (Lock_range READ_LT PENDING_BYTE 1) ?y = Some (Ok () y1)"
      "lock_client the_handle 1 (as_proc 1 y1)" "y_world y1 \<in> denying ?D"
    using srv_proc_call(1)[OF stubborn(1)[of 1 ?D] stubborn(2)[of ?D], of "Lock_range READ_LT PENDING_BYTE 1"] by (auto simp: byte_defs)
  obtain e y2 where 2: "proc_call srv_os 1 (Lock_range READ_LT SHARED_FIRST SHARED_SIZE) y1 = Some (Err e y2)"
    using srv_proc_call(2)[OF 1(2,3), of "Lock_range READ_LT SHARED_FIRST SHARED_SIZE"] by auto
  from failed_shared_blocks_writers[OF stubborn(3) 1(1) 2, of 2 0] show ?thesis by auto
qed

text \<open>C37: A downgrade from \<^verbatim>\<open>EXCLUSIVE\<close> to \<^verbatim>\<open>SHARED\<close> of which only the first half succeeds reports an error and
  leaves \<^verbatim>\<open>eFileLock\<close> at \<^verbatim>\<open>EXCLUSIVE\<close>, although the write lock on the shared bytes is already
  gone: the level is not backed any more, and others may read while this process may write.\<close>

theorem failed_downgrade_keeps_level:
  assumes g: "lock_system os tbl W h y"
    and 1: "proc_call os p (Lock_range READ_LT SHARED_FIRST SHARED_SIZE) y = Some (Ok () y1)"
    and 2: "proc_call os p (Unlock_range READ_LT PENDING_BYTE 2) y1 = Some (Err e y2)"
  shows "run_script (proc_call os p) EXCLUSIVE_LOCK (nfs4Unlock_script junk EXCLUSIVE_LOCK SHARED_LOCK) y =
      Some (Ok (SQLITE_ERROR, EXCLUSIVE_LOCK) y2) \<and> \<not> worth EXCLUSIVE_LOCK (tbl (y_world y2) p)"
  using db.downgrade_keeps_level[OF g 1 2] by blast

lemma failed_downgrade_keeps_level_witness:
  "\<exists>y2. run_script (proc_call srv_os 1) EXCLUSIVE_LOCK (nfs4Unlock_script 0 EXCLUSIVE_LOCK SHARED_LOCK)
      (stubborn_system [Unlock_range READ_LT PENDING_BYTE 2]) = Some (Ok (SQLITE_ERROR, EXCLUSIVE_LOCK) y2) \<and>
    \<not> worth EXCLUSIVE_LOCK (srv_tbl (y_world y2) 1)"
proof -
  let ?D = "[Unlock_range READ_LT PENDING_BYTE 2]" and ?y = "stubborn_system [Unlock_range READ_LT PENDING_BYTE 2]"
  obtain y1 where 1: "proc_call srv_os 1 (Lock_range READ_LT SHARED_FIRST SHARED_SIZE) ?y = Some (Ok () y1)"
      "lock_client the_handle 1 (as_proc 1 y1)" "y_world y1 \<in> denying ?D"
    using srv_proc_call(1)[OF stubborn(1)[of 1 ?D] stubborn(2)[of ?D], of "Lock_range READ_LT SHARED_FIRST SHARED_SIZE"] by auto
  obtain e y2 where 2: "proc_call srv_os 1 (Unlock_range READ_LT PENDING_BYTE 2) y1 = Some (Err e y2)"
    using srv_proc_call(2)[OF 1(2,3), of "Unlock_range READ_LT PENDING_BYTE 2"] by auto
  from failed_downgrade_keeps_level[OF stubborn(3) 1(1) 2, of 0] show ?thesis by blast
qed

end
