(* ===== verification/Vfs_Properties.thy ===== *)
theory Vfs_Properties
  imports Vfs_Calls
begin

text \<open>
  Properties of the methods of the VFS that take a path: opening, asking for existence and
  deleting. What they share is the name being taken apart into the server and the components
  under its root (\<open>name_split\<close>, \<open>vfs_split\<close>).
\<close>

section \<open>Names\<close>

lemma forchar_wrapped:
  assumes "length x < 2 ^ 32"
  shows "forchar (buffer_wrap_string junk x) = Some (Ok x (buffer_wrap_string junk x))"
proof -
  have "unat (word_of_nat (length x) :: u32) = length x" using assms by (rule unat_of_nat_small)
  then show ?thesis
    by (simp add: forchar_def buffer_wrap_string_def buffer_length_def buf_bytes_def buf_load_def mem_load_def bnd_def)
qed

lemma on_heap_Ok: "m (s_heap s) = Some (Ok a H) \<Longrightarrow> on_heap m s = Some (Ok a (s\<lparr>s_heap := H\<rparr>))"
  by (simp add: on_heap_def zoom_def)

text \<open>
  A name without its server: \<open>zName\<close> is split at the slashes and the first component is taken off;
  \<open>comps\<close> are the others, and they stay readable after the server's name has been terminated.
\<close>

lemma path_of_update:
  assumes "path_of H path comps" and "vrep path (map heap_ptr [Suc n ..< m])" and "m \<le> length H" and "m < 2 ^ 64"
  shows "path_of (H[n := b]) path comps"
proof -
  obtain ps where ps: "vrep path ps"
      "list_all2 (\<lambda>p bs. \<exists>b. deref p H = Some (Ok b H) \<and> holds_bytes b bs) ps comps"
    using assms(1) by (auto simp: path_of_def)
  have e: "ps = map heap_ptr [Suc n ..< m]" 
    using vector_foreach_ok[OF ps(1), of "()"] vector_foreach_ok[OF assms(2), of "()"] by simp
  have "deref p (H[n := b]) = Some (Ok x (H[n := b]))" if "p \<in> set ps" "deref p H = Some (Ok x H)" for p x
  proof -
    from that(1) e obtain k where k: "p = heap_ptr k" "Suc n \<le> k" "k < m" by auto
    with assms(3,4) have "deref p H = Some (Ok (H ! k) H)" "deref p (H[n := b]) = Some (Ok (H[n := b] ! k) (H[n := b]))"
      by (simp_all add: deref_heap_ptr)
    with that(2) k(2) show ?thesis by simp
  qed
  then have "list_all2 (\<lambda>p bs. \<exists>x. deref p (H[n := b]) = Some (Ok x (H[n := b])) \<and> holds_bytes x bs) ps comps"
    using ps(2) by (auto simp: list_all2_conv_all_nth)
  with ps(1) show ?thesis by (auto simp: path_of_def)
qed

lemma length_split_spec: "length (split_spec d xs) \<le> length xs"
proof (induction d xs rule: split_spec.induct)
  case (1 d xs)
  show ?case
  proof (cases xs)
    case (Cons x ys)
    have "length (drop 1 (dropWhile (\<lambda>x. x \<noteq> d) xs)) < length xs"
      using Cons length_dropWhile_le[of "\<lambda>x. x \<noteq> d" xs] by auto
    with 1 Cons show ?thesis by (subst split_spec.simps) auto
  qed (simp add: split_spec.simps)
qed

lemma name_split:
  assumes "8 * (length zName + 1) \<le> limit" and "length (s_heap s) + 2 * length zName + 4 < 2 ^ 64"
    and "split_spec 47 zName = server # comps"
  obtains v path H' where "on_heap (split (buffer_wrap_string junk zName) 47) s = Some (Ok v (s\<lparr>s_heap := s_heap s @ H'\<rparr>))"
    and "vector_pop v = Some (Ok (heap_ptr (length (s_heap s))) path)" and "path_of (s_heap s @ H') path comps"
    and "vrep path (map heap_ptr [Suc (length (s_heap s)) ..< length (s_heap s) + Suc (length comps)])"
    and "Suc (length comps) \<le> length H'"
    and "rep (H' ! 0) (cells_of server)"
proof -
  let ?H = "s_heap s" and ?n = "length (s_heap s)"
  have "length zName < 2 ^ 32" using assms(1) by (simp add: limit_def)
  note f = forchar_wrapped[OF this, of junk]
  obtain v H' where v: "split (buffer_wrap_string junk zName) 47 ?H = Some (Ok v (?H @ H'))"
      "Suc (length comps) \<le> length H'" "fresh_path ?H H' v (server # comps)"
    using split_fresh[OF f assms(1), of ?H 47] assms(2,3) by auto
  have ptrs: "map heap_ptr [?n ..< ?n + length (server # comps)] =
      heap_ptr ?n # map heap_ptr [Suc ?n ..< ?n + Suc (length comps)]"
    by (simp add: upt_conv_Cons del: upt_Suc)
  from v(3)[unfolded fresh_path_def ptrs] have vr: "vrep v (heap_ptr ?n # map heap_ptr [Suc ?n ..< ?n + Suc (length comps)])"
    and ds: "\<exists>b. deref (heap_ptr ?n) (?H @ H') = Some (Ok b (?H @ H')) \<and> rep b (cells_of server)"
      "list_all2 (\<lambda>p bs. \<exists>b. deref p (?H @ H') = Some (Ok b (?H @ H')) \<and> rep b (cells_of bs))
         (map heap_ptr [Suc ?n ..< ?n + Suc (length comps)]) comps"
    by simp_all
  obtain path where path: "vector_pop v = Some (Ok (heap_ptr ?n) path)"
      "vrep path (map heap_ptr [Suc ?n ..< ?n + Suc (length comps)])"
    using vector_pop_ok[OF vr] by metis
  have "rep (H' ! 0) (cells_of server)"
    using ds(1) v(2) assms(2) deref_heap_ptr[of ?n "?H @ H'"] by (cases H') auto
  moreover have "path_of (?H @ H') path comps"
    unfolding path_of_def using path(2) ds(2) by (fastforce elim: list_all2_mono dest: repD)
  moreover have "on_heap (split (buffer_wrap_string junk zName) 47) s = Some (Ok v (s\<lparr>s_heap := ?H @ H'\<rparr>))"
    by (rule on_heap_Ok[where m = "split (buffer_wrap_string junk zName) 47", OF v(1)])
  ultimately show thesis using that path v(2) by blast
qed

lemma server_terminated:
  assumes "rep (H' ! 0) (cells_of server)" and "0 < length H'" and "Suc (length H) < 2 ^ 64"
    and "Suc (length server) \<le> limit" and "s_heap s = H @ H'"
  obtains b where "on_heap (heap_modify (heap_ptr (length H)) (push_char 0)) s =
     Some (Ok () (s\<lparr>s_heap := (H @ H')[length H := b]\<rparr>))" and "rep b (cells_of (server @ [0]))"
proof -
  obtain b where b: "push_char 0 (H' ! 0) = Some (Ok () b)" "rep b (cells_of (server @ [0]))"
    using writesD[OF writes_push_char assms(1), of 0] assms(4) by auto
  have d: "deref (heap_ptr (length H)) (H @ H') = Some (Ok (H' ! 0) (H @ H'))"
    using deref_heap_ptr[of "length H" "H @ H'"] assms(2,3,5) by (simp add: nth_append)
  have "heap_modify (heap_ptr (length H)) (push_char 0) (H @ H') = Some (Ok () ((H @ H')[length H := b]))"
    using b(1) assms(2,3,5) unfolding heap_modify_def
    by (simp add: bnd_def d zoom_def unat_heap_ptr nth_append)
  then have "on_heap (heap_modify (heap_ptr (length H)) (push_char 0)) s =
     Some (Ok () (s\<lparr>s_heap := (H @ H')[length H := b]\<rparr>))"
    using assms(5) by (intro on_heap_Ok) simp
  then show thesis using that b(2) by blast
qed

lemma c_string_prefix: "0 \<notin> set bs \<Longrightarrow> c_string (cells_of (bs @ [0]) @ rest) = Inr bs"
  by (induction bs) auto

lemma connect_fails:
  assumes "c_string (b_contents (c_hostname (s_client s))) = Inr name"
    and "os_gethostbyname os name (s_world s) = (Some addr, w1)" and "os_socket os w1 = (fd, w2)"
    and "w3 = (if config_boolean (os_getenv os) ''NFS_TCP_NODELAY'' True then os_setsockopt os fd 0 1 w2 else w2)"
    and "os_connect os fd (take 4 (cells_of addr)) 2049 w3 = (failed, w4)" and "failed \<noteq> 0"
  shows "nfs4_connect os s = Some (Err ''connect failure'' (s\<lparr>s_client := connected addr fd (s_client s), s_world := w4\<rparr>))"
  using assms unfolding nfs4_connect_def
  by (cases "config_boolean (os_getenv os) ''NFS_TCP_NODELAY'' True")
    (simp_all add: bnd_def on_world_def set_client_def connected_def check_def)

text \<open>What \<^verbatim>\<open>nfs4Open\<close> does once the name has been taken apart.\<close>

definition open_rest ::
    "sqlite \<Rightarrow> 'w os \<Rightarrow> string option \<Rightarrow> client \<Rightarrow> nfs_file \<Rightarrow> u32 \<Rightarrow> ptr \<Rightarrow> vector \<Rightarrow> ('w vfs, sqlite_rc) prog" where
  "open_rest sq os indet fresh_c fresh_f flags servername path =
     bnd (gets v_connected) (\<lambda>connected.
     bnd (if connected then ret None
          else
            bnd (on_st (on_heap (deref servername))) (\<lambda>name.
            case c_string (b_contents name) of
              Inl f \<Rightarrow> crash f
            | Inr host \<Rightarrow>
              bnd (modify (\<lambda>v. v\<lparr>v_connected := True\<rparr>)) (\<lambda>_.
              on_st (status_of (create_client os fresh_c host))))) (\<lambda>st.
     if st \<noteq> None then ret (translate_status st)
     else
       bnd (set_sql (\<lambda>q. q\<lparr>q_pMethods := True\<rparr>)) (\<lambda>_.
       if flags AND SQLITE_OPEN_READONLY sq \<noteq> 0 then
         translated (file_open_read os indet fresh_f path)
       else if flags AND SQLITE_OPEN_CREATE sq \<noteq> 0 then
         translated (file_create os indet fresh_f path)
       else if flags AND SQLITE_OPEN_READWRITE sq \<noteq> 0 then
         translated (file_open_write os indet fresh_f path)
       else ret SQLITE_CANTOPEN)))"

definition named :: "heap \<Rightarrow> 'w vfs \<Rightarrow> 'w vfs" where
  "named H v = v\<lparr>v_sql := (v_sql v)\<lparr>q_eFileLock := NO_LOCK, q_powersafe := True, q_readonly := False\<rparr>,
     v_st := (v_st v)\<lparr>s_heap := H\<rparr>\<rparr>"

definition good_name :: "u8 list \<Rightarrow> 'w vfs \<Rightarrow> bool" where
  "good_name zName v \<longleftrightarrow> 8 * (length zName + 1) \<le> limit \<and> length (s_heap (v_st v)) + 2 * length zName + 4 < 2 ^ 64"

lemma nfs4Open_start:
  assumes "\<not> v_trace v" and name: "good_name zName v" and sp: "split_spec 47 zName = server # comps" and "comps \<noteq> []"
  obtains p path H b where "nfs4Open sq os junk indet fresh_c fresh_f zName flags v =
      open_rest sq os indet fresh_c fresh_f flags p path (named H v)"
    and "path_of H path comps" and "deref p H = Some (Ok b H)" and "rep b (cells_of (server @ [0]))"
proof -
  let ?n = "length (s_heap (v_st v))" and ?H = "s_heap (v_st v)"
  from name have n: "8 * (length zName + 1) \<le> limit" "?n + 2 * length zName + 4 < 2 ^ 64"
    by (simp_all add: good_name_def)
  obtain vec path H' where s: "on_heap (split (buffer_wrap_string junk zName) 47) (v_st v) =
        Some (Ok vec ((v_st v)\<lparr>s_heap := ?H @ H'\<rparr>))"
      "vector_pop vec = Some (Ok (heap_ptr ?n) path)" "path_of (?H @ H') path comps"
      "vrep path (map heap_ptr [Suc ?n ..< ?n + Suc (length comps)])" "Suc (length comps) \<le> length H'"
      "rep (H' ! 0) (cells_of server)"
    by (rule name_split[OF n sp, of junk])
  have srv: "Suc (length server) \<le> limit"
  proof -
    have "server = takeWhile (\<lambda>x. x \<noteq> 47) zName"
      using sp by (subst (asm) split_spec.simps) (auto split: if_splits)
    then show ?thesis using n(1) length_takeWhile_le[of "\<lambda>x. x \<noteq> 47" zName] by simp
  qed
  obtain b where b: "on_heap (heap_modify (heap_ptr ?n) (push_char 0)) ((v_st v)\<lparr>s_heap := ?H @ H'\<rparr>) =
        Some (Ok () ((v_st v)\<lparr>s_heap := (?H @ H')[?n := b]\<rparr>))" "rep b (cells_of (server @ [0]))"
    by (rule server_terminated[OF s(6), where s = "(v_st v)\<lparr>s_heap := ?H @ H'\<rparr>" and H = ?H]) (use n s(5) srv in auto)
  let ?H2 = "(?H @ H')[?n := b]"
  obtain z where z: "vector_get 0 path = Some (Ok z path)"
    using vector_get_ok[OF s(4), of 0] assms(4) by (auto simp del: upt_Suc)
  let ?v = "v\<lparr>v_sql := (v_sql v)\<lparr>q_eFileLock := NO_LOCK, q_powersafe := True, q_readonly := False\<rparr>\<rparr>"
  have s1: "on_st (on_heap (split (buffer_wrap_string junk zName) 47)) ?v =
      Some (Ok vec (?v\<lparr>v_st := (v_st v)\<lparr>s_heap := ?H @ H'\<rparr>\<rparr>))"
    using s(1) by (simp add: on_st_def zoom_def)
  have b1: "on_st (on_heap (heap_modify (heap_ptr ?n) (push_char 0))) (?v\<lparr>v_st := (v_st v)\<lparr>s_heap := ?H @ H'\<rparr>\<rparr>) =
      Some (Ok () (?v\<lparr>v_st := (v_st v)\<lparr>s_heap := ?H2\<rparr>\<rparr>))"
    using b(1) by (simp add: on_st_def zoom_def)
  have "nfs4Open sq os junk indet fresh_c fresh_f zName flags v =
      open_rest sq os indet fresh_c fresh_f flags (heap_ptr ?n) path (named ?H2 v)"
    unfolding nfs4Open_def open_rest_def set_sql_def
    by (simp add: assms(1) bnd_def s1[simplified] on_local_def s(2) z b1[simplified] named_def)
  moreover have "deref (heap_ptr ?n) ?H2 = Some (Ok b ?H2)"
    using deref_heap_ptr[of ?n ?H2] n s(5) by (cases H') simp_all
  moreover have "path_of ?H2 path comps"
    using path_of_update[OF s(3,4), of b] n s(5) length_split_spec[of 47 zName] sp by simp
  ultimately show thesis using that b(2) by blast
qed

section \<open>Opening\<close>

text \<open>The mode an open asks for: whether it writes and whether it creates.\<close>

definition open_mode :: "sqlite \<Rightarrow> u32 \<Rightarrow> (bool \<times> bool) option" where
  "open_mode sq flags =
     (if flags AND SQLITE_OPEN_READONLY sq \<noteq> 0 then Some (False, False)
      else if flags AND SQLITE_OPEN_CREATE sq \<noteq> 0 then Some (True, True)
      else if flags AND SQLITE_OPEN_READWRITE sq \<noteq> 0 then Some (True, False)
      else None)"

definition with_methods :: "'w vfs \<Rightarrow> 'w vfs" where
  "with_methods v = v\<lparr>v_sql := (v_sql v)\<lparr>q_pMethods := True\<rparr>\<rparr>"

lemma with_methods_simps [simp]:
  "v_st (with_methods v) = v_st v" "q_pMethods (v_sql (with_methods v))"
  "q_eFileLock (v_sql (with_methods v)) = q_eFileLock (v_sql v)"
  by (simp_all add: with_methods_def)

lemma open_rest_connected:
  assumes "v_connected v"
  shows "open_rest sq os indet fresh_c fresh_f flags p path v = (case open_mode sq flags of
      None \<Rightarrow> Some (Ok SQLITE_CANTOPEN (with_methods v))
    | Some (writable, create) \<Rightarrow> translated (bnd (modify (\<lambda>s. s\<lparr>s_file := fresh_f\<lparr>f_path := path\<rparr>\<rparr>))
        (\<lambda>_. file_open_internal os indet path writable create)) (with_methods v))"
  using assms
  by (simp add: open_rest_def open_mode_def bnd_def file_open_read_def file_open_write_def file_create_def
    set_sql_def with_methods_def)

text \<open>C9: With the client connected, \<^verbatim>\<open>nfs4Open\<close> of \<^verbatim>\<open>server/dir/.../name\<close> looks the path up under the
  root and asks for the last component in the mode of the flags; the file is left without a lock. The
  result depends on the value of \<^verbatim>\<open>parse_open\<close>, which ends without a \<^verbatim>\<open>return\<close>: only if its caller happens
  to find \<^verbatim>\<open>STATUS_OK\<close> (\<open>indet = None\<close>) does the open succeed, with the handle the server gave; with
  any other value it is \<^verbatim>\<open>SQLITE_ERROR\<close> although the server has opened the file, and the handle stays
  what the allocation left in it.\<close>

theorem nfs4Open_opens:
  assumes v: "v_connected v" "\<not> v_trace v" and c: "idle (s_client (v_st v))"
    and name: "good_name zName v" "split_spec 47 zName = server # init @ [l]"
    and mode: "open_mode sq flags = Some (writable, create)"
    and arr: "length (f_filehandle fresh_f) = NFS4_FHSIZE" and fh: "length fh \<le> NFS4_FHSIZE"
    and other: "length other = 12" and attrs: "length attrs < 2 ^ 30"
    and ops: "ops = op_sequence (s_client (v_st v)) # open_ops (used_slot (s_client (v_st v))) init l writable create"
    and len: "length (x_call 0 ops) \<le> limit"
    and acc: "accepted os (x_call (c_xid (s_client (v_st v)) + 1) ops) (used_slot (s_client (v_st v))) ds OP_OPEN
      (open_reply q other atomic before after rflags attrs fh rest) (v_st v) w'"
  shows "\<exists>t. nfs4Open sq os junk indet fresh_c fresh_f zName flags v =
      Some (Ok (if indet = None then SQLITE_OK else SQLITE_ERROR) t) \<and>
    q_eFileLock (v_sql t) = NO_LOCK \<and> q_pMethods (v_sql t) \<and> idle (s_client (v_st t)) \<and>
    path_of (s_heap (v_st t)) (f_path (s_file (v_st t))) (init @ [l]) \<and>
    (if indet = None then wf_file (s_file (v_st t)) \<and> handle (s_file (v_st t)) = cells_of fh
     else f_filehandle (s_file (v_st t)) = f_filehandle fresh_f)"
proof -
  obtain p path H b where s: "nfs4Open sq os junk indet fresh_c fresh_f zName flags v =
        open_rest sq os indet fresh_c fresh_f flags p path (named H v)" "path_of H path (init @ [l])"
    by (rule nfs4Open_start[OF v(2) name, of sq os junk indet fresh_c fresh_f flags]) simp
  let ?v = "with_methods (named H v)" and ?f = "fresh_f\<lparr>f_path := path\<rparr>"
  let ?s = "(v_st ?v)\<lparr>s_file := ?f\<rparr>"
  let ?t = "\<lambda>f. ?s\<lparr>s_client := used_slot (s_client ?s), s_file := f, s_world := w'\<rparr>"
  have run: "nfs4Open sq os junk indet fresh_c fresh_f zName flags v =
      translated (bnd (modify (\<lambda>s. s\<lparr>s_file := ?f\<rparr>)) (\<lambda>_. file_open_internal os indet path writable create)) ?v"
    unfolding s(1) using v(1) mode by (subst open_rest_connected) (simp_all add: named_def)
  have acc': "accepted os (x_call (c_xid (s_client ?s) + 1) ops) (used_slot (s_client ?s)) ds OP_OPEN
      (open_reply q other atomic before after rflags attrs fh rest) ?s w'"
    using acc by (simp add: named_def accepted_def)
  have i: "idle (s_client ?s)" "path_of (s_heap ?s) path (init @ [l])"
    "ops = op_sequence (s_client ?s) # open_ops (used_slot (s_client ?s)) init l writable create"
    using c s(2) ops by (simp_all add: named_def)
  show ?thesis
  proof (cases indet)
    case None
    have "leaves (file_open_internal os None path writable create) ?s () (?t (opened_as q other fh (s_file ?s)))"
      by (rule file_open_internal_ok[OF i(1,2) _ fh other attrs i(3) len acc']) (simp add: arr)
    then obtain d where d: "file_open_internal os indet path writable create ?s =
        Some (Ok () (?t (opened_as q other fh (s_file ?s))\<lparr>s_client := d\<rparr>))" "idle d"
      using None by (auto simp: leaves_def)
    have "nfs4Open sq os junk indet fresh_c fresh_f zName flags v =
        Some (Ok SQLITE_OK (?v\<lparr>v_st := ?t (opened_as q other fh (s_file ?s))\<lparr>s_client := d\<rparr>\<rparr>))"
      unfolding run by (rule translated_Ok) (use d(1) in \<open>simp add: bnd_def\<close>)
    then show ?thesis
      using None d(2) s(2) wf_opened_as[of ?f fh other q] arr fh other
      by (simp add: named_def) (simp add: opened_as_def opened_def Let_def)
  next
    case (Some cause)
    have "rejects (file_open_internal os (Some cause) path writable create) ?s cause (?t (opened q other (s_file ?s)))"
      by (rule file_open_internal_lost[OF i(1,2) other attrs i(3) len acc'])
    then obtain d where d: "file_open_internal os indet path writable create ?s =
        Some (Err cause (?t (opened q other (s_file ?s))\<lparr>s_client := d\<rparr>))" "idle d"
      using Some by (auto simp: rejects_def)
    have "nfs4Open sq os junk indet fresh_c fresh_f zName flags v =
        Some (Ok SQLITE_ERROR (?v\<lparr>v_st := ?t (opened q other (s_file ?s))\<lparr>s_client := d\<rparr>\<rparr>))"
      unfolding run by (rule translated_Err) (use d(1) in \<open>simp add: bnd_def\<close>)
    then show ?thesis
      using Some d(2) s(2) by (simp add: named_def) (simp add: opened_def Let_def)
  qed
qed

definition sample_name :: "u8 list" where
  "sample_name = ascii ''s/f''"

lemma sample_name_split: "split_spec 47 sample_name = [115] # [] @ [[102]]"
  by (simp add: sample_name_def ascii_def split_spec.simps)

lemma sample_name_good: "good_name sample_name (sample_vfs fd mem w)"
  by (simp add: good_name_def sample_name_def ascii_def limit_def)

lemmas op_sizes = length_x_ops op_sequence_def open_ops_def delete_ops_def lookups_def root_handle_def length_xopaque
  xfixed_def fill_def open_how_def client_owner_def xbool_def xbitmap_def used_slot_def

lemma padded_small: "n \<le> 24 \<Longrightarrow> n + (4 - m mod 4) mod (4 :: nat) \<le> 1073741473"
  using mod_less_divisor[of 4 "4 - m mod 4"] by linarith

lemma sample_sizes:
  "length (x_call 0 (op_sequence (sample_client fd) # open_ops (used_slot (sample_client fd)) [] [102] True True)) \<le> limit"
  "length (x_call 0 (op_sequence (sample_client fd) # Putrootfh # lookups [[102]] @ [Getfh])) \<le> limit"
  "length (x_call 0 (op_sequence (sample_client fd) # delete_ops (used_slot (sample_client fd)) [] [102])) \<le> limit"
  using length_owner_string[of "replicate 8 4"]
  by (simp_all add: padded_small op_sizes limit_def sample_client_def the_handle_def fresh_cells_def)

lemma noent: "codestring nfsstatus 2 = Some ''no such file/directory''" "(2 :: u32) \<noteq> NFS4_OK" "(2 :: u32) \<noteq> NFS4ERR_BADSESSION"
  by (simp_all add: nfsstatus_def NFS4_OK_def NFS4ERR_BADSESSION_def)

lemma nfs4Open_opens_witness:
  "(\<exists>t. nfs4Open sample_sqlite tape_os 0 None (sample_client 0) sample_file sample_name 6
      (sample_vfs 1 [] (framed (reply 6 [] OP_OPEN 0 (open_reply 1 (replicate 12 1) 0 0 0 0 [] [7, 7 :: u8] [])))) = Some (Ok SQLITE_OK t) \<and>
    q_eFileLock (v_sql t) = NO_LOCK \<and> handle (s_file (v_st t)) = cells_of [7, 7] \<and>
    path_of (s_heap (v_st t)) (f_path (s_file (v_st t))) [[102]] \<and> idle (s_client (v_st t))) \<and>
   (\<exists>t. nfs4Open sample_sqlite tape_os 0 (Some ''left over'') (sample_client 0) sample_file sample_name 6
      (sample_vfs 1 [] (framed (reply 6 [] OP_OPEN 0 (open_reply 1 (replicate 12 1) 0 0 0 0 [] [7, 7 :: u8] [])))) = Some (Ok SQLITE_ERROR t))"
proof -
  let ?v = "sample_vfs 1 [] (framed (reply 6 [] OP_OPEN 0 (open_reply 1 (replicate 12 1) 0 0 0 0 [] [7, 7 :: u8] [])))"
  let ?ops = "op_sequence (s_client (v_st ?v)) # open_ops (used_slot (s_client (v_st ?v))) [] [102] True True"
  have *: "\<exists>t. nfs4Open sample_sqlite tape_os 0 indet (sample_client 0) sample_file sample_name 6 ?v =
      Some (Ok (if indet = None then SQLITE_OK else SQLITE_ERROR) t) \<and>
    q_eFileLock (v_sql t) = NO_LOCK \<and> q_pMethods (v_sql t) \<and> idle (s_client (v_st t)) \<and>
    path_of (s_heap (v_st t)) (f_path (s_file (v_st t))) ([] @ [[102]]) \<and>
    (if indet = None then wf_file (s_file (v_st t)) \<and> handle (s_file (v_st t)) = cells_of [7, 7]
     else f_filehandle (s_file (v_st t)) = f_filehandle sample_file)" for indet
  proof (rule nfs4Open_opens[OF _ _ _ sample_name_good sample_name_split])
    show "open_mode sample_sqlite 6 = Some (True, True)" by (simp add: open_mode_def sample_sqlite_def)
    show "?ops = ?ops" ..
    show "accepted tape_os (x_call (c_xid (s_client (v_st ?v)) + 1) ?ops) (used_slot (s_client (v_st ?v))) [] OP_OPEN
        (open_reply 1 (replicate 12 1) 0 0 0 0 [] [7, 7 :: u8] []) (v_st ?v) []"
      by (rule tape_accepted) (simp_all add: used_slot_def limit_def open_reply_def open_result_def stepped_over_def step_ops OP_OPEN_def)
    show "length (x_call 0 ?ops) \<le> limit"
      using sample_sizes(1) by simp
  qed (simp_all add: sample_vfs_def sample_file_def the_handle_def fresh_cells_def size_defs)
  from *[of None] *[of "Some ''left over''"] show ?thesis by auto
qed

text \<open>C24: The first \<^verbatim>\<open>nfs4Open\<close> of a VFS connects to the server its path begins with. If the server
  cannot be reached it returns an error, but the VFS counts as connected from then on: every later
  open skips the connection and uses a client that never had a session.\<close>

theorem nfs4Open_unreachable:
  assumes v: "\<not> v_connected v" "\<not> v_trace v"
    and name: "good_name zName v" "split_spec 47 zName = server # comps" "comps \<noteq> []" "0 \<notin> set server"
    and net: "os_clock os (s_world (v_st v)) = ((sec, nsec), w0)"
      "os_gethostbyname os server w0 = (Some addr, w1)" "os_socket os w1 = (fd, w2)"
      "w3 = (if config_boolean (os_getenv os) ''NFS_TCP_NODELAY'' True then os_setsockopt os fd 0 1 w2 else w2)"
      "os_connect os fd (take 4 (cells_of addr)) 2049 w3 = (failed, w4)" "failed \<noteq> 0"
  shows "\<exists>t. nfs4Open sq os junk indet fresh_c fresh_f zName flags v = Some (Ok SQLITE_ERROR t) \<and>
    v_connected t \<and> c_session (s_client (v_st t)) = c_session fresh_c \<and>
    c_clientid (s_client (v_st t)) = c_clientid fresh_c"
proof -
  let ?c = "new_client (os_getenv os) fresh_c server (sec * 1000000000 + nsec)"
  obtain p path H b where s: "nfs4Open sq os junk indet fresh_c fresh_f zName flags v =
        open_rest sq os indet fresh_c fresh_f flags p path (named H v)" "deref p H = Some (Ok b H)"
      "rep b (cells_of (server @ [0]))"
    by (rule nfs4Open_start[OF v(2) name(1-3), of sq os junk indet fresh_c fresh_f flags])
  let ?s = "v_st (named H v)"
  have "server = takeWhile (\<lambda>x. x \<noteq> 47) zName" "length zName < 2 ^ 31"
    using name(1,2) by (subst (asm) split_spec.simps, auto simp: good_name_def limit_def split: if_splits)
  then have h: "length server + 1 < 2 ^ 31"
    using length_takeWhile_le[of "\<lambda>x. x \<noteq> 47" zName] name(1) by (simp add: good_name_def limit_def)
  have "create_client os fresh_c server ?s = rpc_connection os (?s\<lparr>s_client := ?c, s_world := w0\<rparr>)"
    by (rule create_client_run[OF h]) (simp add: named_def net(1))
  also have "rpc_connection os (?s\<lparr>s_client := ?c, s_world := w0\<rparr>) =
    Some (Err ''connect failure'' (?s\<lparr>s_client := ?c\<lparr>c_address := take 4 (cells_of addr), c_fd := fd\<rparr>, s_world := w4\<rparr>))"
    unfolding rpc_connection_def using c_string_prefix[OF name(4), of "[]"] net(2-6)
    by (intro bnd_Err[where m = "nfs4_connect os"], subst connect_fails[OF _ _ net(3-6)])
      (simp_all add: new_client_def host_name_def connected_def)
  finally have cc: "create_client os fresh_c server ?s =
    Some (Err ''connect failure'' (?s\<lparr>s_client := ?c\<lparr>c_address := take 4 (cells_of addr), c_fd := fd\<rparr>, s_world := w4\<rparr>))" .
  have "c_string (b_contents b) = Inr server"
  proof -
    have "b_contents b = cells_of (server @ [0]) @ drop (unat (b_end b)) (b_contents b)"
      using repD(2,3)[OF s(3)] append_take_drop_id[of "unat (b_end b)" "b_contents b"] by (simp add: data_def)
    then show ?thesis using c_string_prefix[OF name(4)] by metis
  qed
  then show ?thesis
    unfolding s(1) using v(1) s(2) cc
    by (simp add: open_rest_def named_def bnd_def on_st_def zoom_def on_heap_def status_of_def translate_status_def new_client_def)
qed

lemma nfs4Open_unreachable_witness:
  "\<exists>t. nfs4Open sample_sqlite (tape_os\<lparr>os_connect := (\<lambda>_ _ _ w. (1, w))\<rparr>) 0 None (sample_client 0) sample_file sample_name 6
      ((sample_vfs 1 [] [])\<lparr>v_connected := False\<rparr>) = Some (Ok SQLITE_ERROR t) \<and> v_connected t"
proof -
  let ?v = "(sample_vfs 1 [] [])\<lparr>v_connected := False\<rparr>" and ?os = "tape_os\<lparr>os_connect := (\<lambda>_ _ _ w. (1, w))\<rparr>"
  have g: "good_name sample_name ?v"
    using sample_name_good by (simp add: good_name_def)
  have "\<exists>t. nfs4Open sample_sqlite ?os 0 None (sample_client 0) sample_file sample_name 6 ?v = Some (Ok SQLITE_ERROR t) \<and>
      v_connected t \<and> c_session (s_client (v_st t)) = c_session (sample_client 0) \<and>
      c_clientid (s_client (v_st t)) = c_clientid (sample_client 0)"
    by (rule nfs4Open_unreachable[OF _ _ g sample_name_split, where sec = 0 and nsec = 0 and ?w0.0 = "[]" and
        addr = "[127, 0, 0, 1]" and ?w1.0 = "[]" and fd = 1 and ?w2.0 = "[]" and ?w3.0 = "[]" and failed = 1 and ?w4.0 = "[]"])
      (simp_all add: tape_os_def sample_vfs_def)
  then show ?thesis by blast
qed

section \<open>Asking and deleting\<close>

lemma delete_refused:
  assumes c: "idle (s_client s)" and p: "path_of (s_heap s) path (init @ [l])"
    and ops: "ops = op_sequence (s_client s) # delete_ops (used_slot (s_client s)) init l"
    and len: "length (x_call 0 ops) \<le> limit"
    and resp: "responds os (c_fd (s_client s)) (x_call (c_xid (s_client s) + 1) ops)
      (refusal (c_xid (s_client s) + 1) nstatus rest) (s_world s) w'"
    and len': "length (refusal (c_xid (s_client s) + 1) nstatus rest) \<le> limit"
    and st: "nstatus \<noteq> NFS4_OK" "codestring nfsstatus nstatus = Some cause" "nstatus \<noteq> NFS4ERR_BADSESSION"
  shows "rejects (delete os path) s cause (s\<lparr>s_client := used_slot (s_client s), s_world := w'\<rparr>)"
proof -
  have "delete os path = bnd (delete_request path) (\<lambda>r. bnd (transact os r OP_REMOVE Reverse) ret)"
    by (simp add: delete_def)
  then show ?thesis
    using call_rejects[OF delete_request_sends[OF idle_ready[OF c] p ops len] idle_used_slot[OF c] _ long_x_call _ _ st,
        where k = ret] resp len' by simp
qed

lemma vfs_split:
  assumes "good_name zName v" and "split_spec 47 zName = server # comps"
  obtains vec p path H where "on_st (on_heap (split (buffer_wrap_string junk zName) 47)) v =
      Some (Ok vec (v\<lparr>v_st := (v_st v)\<lparr>s_heap := H\<rparr>\<rparr>))"
    and "vector_pop vec = Some (Ok p path)" and "path_of H path comps"
proof -
  from assms(1) have n: "8 * (length zName + 1) \<le> limit" "length (s_heap (v_st v)) + 2 * length zName + 4 < 2 ^ 64"
    by (simp_all add: good_name_def)
  show thesis
    by (rule name_split[OF n assms(2), of junk], rule that) (simp_all add: on_st_def zoom_def)
qed

text \<open>C22: \<^verbatim>\<open>nfs4Access\<close> for existence tells apart a path that the server can resolve from one it
  cannot, and answers with \<^verbatim>\<open>SQLITE_OK\<close> either way.\<close>

theorem nfs4Access_tells:
  assumes v: "v_connected v" and c: "idle (s_client (v_st v))"
    and name: "good_name zName v" "split_spec 47 zName = server # comps"
    and ops: "ops = op_sequence (s_client (v_st v)) # Putrootfh # lookups comps @ [Getfh]"
    and len: "length (x_call 0 ops) \<le> limit"
    and sq: "SQLITE_ACCESS_EXISTS sq \<noteq> SQLITE_ACCESS_READWRITE sq"
    and answer: "found \<and> accepted os (x_call (c_xid (s_client (v_st v)) + 1) ops) (used_slot (s_client (v_st v))) ds OP_GETFH rest (v_st v) w' \<or>
      \<not> found \<and> responds os (c_fd (s_client (v_st v))) (x_call (c_xid (s_client (v_st v)) + 1) ops)
        (refusal (c_xid (s_client (v_st v)) + 1) nstatus rest) (s_world (v_st v)) w' \<and>
        length (refusal (c_xid (s_client (v_st v)) + 1) nstatus rest) \<le> limit \<and>
        nstatus \<noteq> NFS4_OK \<and> codestring nfsstatus nstatus = Some cause \<and> nstatus \<noteq> NFS4ERR_BADSESSION"
  shows "\<exists>t. nfs4Access sq os junk zName (SQLITE_ACCESS_EXISTS sq) out v =
      Some (Ok (SQLITE_OK, if found then 1 else 0) t) \<and> idle (s_client (v_st t))"
proof -
  obtain vec p path H where s: "on_st (on_heap (split (buffer_wrap_string junk zName) 47)) v =
        Some (Ok vec (v\<lparr>v_st := (v_st v)\<lparr>s_heap := H\<rparr>\<rparr>))" "vector_pop vec = Some (Ok p path)" "path_of H path comps"
    by (rule vfs_split[OF name, of junk])
  let ?s = "(v_st v)\<lparr>s_heap := H\<rparr>"
  have "\<exists>d w. status_of (exists os path) ?s = Some (Ok (if found then None else Some cause) (?s\<lparr>s_client := d, s_world := w\<rparr>)) \<and> idle d"
  proof (cases found)
    case True
    then have "leaves (exists os path) ?s () (?s\<lparr>s_client := used_slot (s_client ?s), s_world := w'\<rparr>)"
      using answer c s(3) ops by (intro exists_ok[OF _ _ _ len, where ds = ds and rest = rest]) (simp_all add: accepted_def)
    then obtain d where d: "exists os path ?s = Some (Ok () (?s\<lparr>s_client := d, s_world := w'\<rparr>))" "idle d"
      by (auto simp: leaves_def)
    with True status_of_Ok[where m = "exists os path", OF d(1)] show ?thesis by auto
  next
    case False
    then have "rejects (exists os path) ?s cause (?s\<lparr>s_client := used_slot (s_client ?s), s_world := w'\<rparr>)"
      using answer c s(3) ops by (intro exists_refused[OF _ _ _ len, where nstatus = nstatus and rest = rest]) simp_all
    then obtain d where d: "exists os path ?s = Some (Err cause (?s\<lparr>s_client := d, s_world := w'\<rparr>))" "idle d"
      by (auto simp: rejects_def)
    with False status_of_Err[where m = "exists os path", OF d(1)] show ?thesis by auto
  qed
  then obtain d w where d: "status_of (exists os path) ?s =
      Some (Ok (if found then None else Some cause) (?s\<lparr>s_client := d, s_world := w\<rparr>))" "idle d" by blast
  then have "on_st (status_of (exists os path)) (v\<lparr>v_st := ?s\<rparr>) =
      Some (Ok (if found then None else Some cause) (v\<lparr>v_st := ?s\<lparr>s_client := d, s_world := w\<rparr>\<rparr>))"
    by (simp add: on_st_def zoom_def)
  with v sq d(2) show ?thesis
    by (simp add: nfs4Access_def bnd_def s(1) on_local_def s(2) require_def)
qed

lemma nfs4Access_tells_witness:
  "\<exists>t. nfs4Access sample_sqlite tape_os 0 sample_name 0 5
      (sample_vfs 1 [] (framed (refusal 6 2 []))) = Some (Ok (SQLITE_OK, 0) t)"
proof -
  let ?v = "sample_vfs 1 [] (framed (refusal 6 2 []))"
  let ?ops = "op_sequence (s_client (v_st ?v)) # Putrootfh # lookups [[102]] @ [Getfh]"
  have "s_world (v_st ?v) = framed (refusal 6 2 []) @ []" by simp
  note r = tape_refused[OF this]
  have "\<exists>t. nfs4Access sample_sqlite tape_os 0 sample_name (SQLITE_ACCESS_EXISTS sample_sqlite) 5 ?v =
      Some (Ok (SQLITE_OK, if False then 1 else 0) t) \<and> idle (s_client (v_st t))"
    by (rule nfs4Access_tells[OF _ _ sample_name_good sample_name_split[simplified append.simps] refl, where cause = "''no such file/directory''" and nstatus = 2 and rest = "[]" and w' = "[]"])
     (use r noent sample_sizes(2)[of 1] in \<open>simp_all add: sample_vfs_def sample_sqlite_def\<close>)
  then show ?thesis by (auto simp: sample_sqlite_def)
qed

text \<open>C23: \<^verbatim>\<open>nfs4Delete\<close> returns \<^verbatim>\<open>SQLITE_OK\<close> when the server refuses to remove the file.\<close>

theorem nfs4Delete_hides_errors:
  assumes v: "v_connected v" and c: "idle (s_client (v_st v))"
    and name: "good_name zName v" "split_spec 47 zName = server # init @ [l]"
    and ops: "ops = op_sequence (s_client (v_st v)) # delete_ops (used_slot (s_client (v_st v))) init l"
    and len: "length (x_call 0 ops) \<le> limit"
    and resp: "responds os (c_fd (s_client (v_st v))) (x_call (c_xid (s_client (v_st v)) + 1) ops)
      (refusal (c_xid (s_client (v_st v)) + 1) nstatus rest) (s_world (v_st v)) w'"
    and len': "length (refusal (c_xid (s_client (v_st v)) + 1) nstatus rest) \<le> limit"
    and st: "nstatus \<noteq> NFS4_OK" "codestring nfsstatus nstatus = Some cause" "nstatus \<noteq> NFS4ERR_BADSESSION"
  shows "\<exists>t. nfs4Delete os junk zName v = Some (Ok SQLITE_OK t) \<and> idle (s_client (v_st t))"
proof -
  obtain vec p path H where s: "on_st (on_heap (split (buffer_wrap_string junk zName) 47)) v =
        Some (Ok vec (v\<lparr>v_st := (v_st v)\<lparr>s_heap := H\<rparr>\<rparr>))" "vector_pop vec = Some (Ok p path)" "path_of H path (init @ [l])"
    by (rule vfs_split[OF name, of junk])
  let ?s = "(v_st v)\<lparr>s_heap := H\<rparr>"
  have "rejects (delete os path) ?s cause (?s\<lparr>s_client := used_slot (s_client ?s), s_world := w'\<rparr>)"
    using c s(3) ops resp len' by (intro delete_refused[OF _ _ _ len _ _ st]) simp_all
  then obtain d where d: "delete os path ?s = Some (Err cause (?s\<lparr>s_client := d, s_world := w'\<rparr>))" "idle d"
    by (auto simp: rejects_def)
  then have "on_st (ignoring (delete os path)) (v\<lparr>v_st := ?s\<rparr>) = Some (Ok () (v\<lparr>v_st := ?s\<lparr>s_client := d, s_world := w'\<rparr>\<rparr>))"
    by (simp add: on_st_def zoom_def ignoring_def status_of_def bnd_def)
  with v d(2) show ?thesis
    by (simp add: nfs4Delete_def bnd_def s(1) on_local_def s(2) require_def)
qed

lemma nfs4Delete_hides_errors_witness:
  "\<exists>t. nfs4Delete tape_os 0 sample_name (sample_vfs 1 [] (framed (refusal 6 2 []))) = Some (Ok SQLITE_OK t)"
proof -
  let ?v = "sample_vfs 1 [] (framed (refusal 6 2 []))"
  have "s_world (v_st ?v) = framed (refusal 6 2 []) @ []" by simp
  note r = tape_refused[OF this]
  have "\<exists>t. nfs4Delete tape_os 0 sample_name ?v = Some (Ok SQLITE_OK t) \<and> idle (s_client (v_st t))"
    by (rule nfs4Delete_hides_errors[OF _ _ sample_name_good sample_name_split refl, where cause = "''no such file/directory''" and nstatus = 2 and rest = "[]" and w' = "[]"])
     (use r noent sample_sizes(3)[of 1] in \<open>simp_all add: sample_vfs_def\<close>)
  then show ?thesis by auto
qed

end
