(* ===== verification/Methods.thy ===== *)
theory Methods
  imports Vfs
begin

text \<open>
  The two tables of \<^verbatim>\<open>nfsv4/nfs4.c\<close> through which SQLite, and any other user of the VFS, reaches
  the methods: \<^verbatim>\<open>sqlite3_io_methods\<close> for an open file and \<^verbatim>\<open>sqlite3_vfs\<close>. They are records of
  operations on a state \<open>'s\<close>, so that callers can be modelled over any table.
\<close>

record 's io_methods =
  io_iVersion :: nat
  xClose :: "('s, sqlite_rc) prog"
  xRead :: "u32 \<Rightarrow> u64 \<Rightarrow> ('s, sqlite_rc) prog"
  xWrite :: "u32 \<Rightarrow> u64 \<Rightarrow> ('s, sqlite_rc) prog"
  xTruncate :: "u64 \<Rightarrow> ('s, sqlite_rc) prog"
  xSync :: "u32 \<Rightarrow> ('s, sqlite_rc) prog"
  xFileSize :: "('s, sqlite_rc \<times> u64) prog"
  xLock :: "int \<Rightarrow> ('s, sqlite_rc) prog"
  xUnlock :: "int \<Rightarrow> ('s, sqlite_rc) prog"
  xCheckReservedLock :: "('s, sqlite_rc \<times> int) prog"
  xFileControl :: "u32 \<Rightarrow> ('s, sqlite_rc \<times> fcntl_result) prog"
  xSectorSize :: "('s, u32) prog"
  xDeviceCharacteristics :: "('s, u32) prog"
  xShmMap :: "('s, sqlite_rc) prog"
  xShmLock :: "('s, sqlite_rc) prog"
  xShmBarrier :: "('s, unit) prog"
  xShmUnmap :: "('s, sqlite_rc) prog"
  xFetch :: "u64 \<Rightarrow> u32 \<Rightarrow> ('s, sqlite_rc) prog"
  xUnfetch :: "('s, sqlite_rc) prog"

record 's sqlite3_vfs =
  vfs_iVersion :: nat
  mxPathname :: nat
  zName :: string
  xOpen :: "u8 list \<Rightarrow> u32 \<Rightarrow> ('s, sqlite_rc) prog"
  xDelete :: "u8 list \<Rightarrow> ('s, sqlite_rc) prog"
  xAccess :: "u8 list \<Rightarrow> u32 \<Rightarrow> int \<Rightarrow> ('s, sqlite_rc \<times> int) prog"
  xFullPathname :: "u8 list \<Rightarrow> nat \<Rightarrow> sqlite_rc \<times> u8 list"
  xDlOpen :: "u8 list \<Rightarrow> ('s, u64) prog"
  xDlError :: "nat \<Rightarrow> ('s, u8 list) prog"
  xDlSym :: "u64 \<Rightarrow> u8 list \<Rightarrow> ('s, u64) prog"
  xDlClose :: "u64 \<Rightarrow> ('s, unit) prog"
  xRandomness :: "nat \<Rightarrow> ('s, int \<times> u8 list) prog"
  xSleep :: "int \<Rightarrow> ('s, int) prog"
  xCurrentTime :: "('s, int \<times> u64) prog"
  xGetLastError :: "('s, sqlite_rc) prog"
  xCurrentTimeInt64 :: "('s, int \<times> u64) prog"

text \<open>
  What locals and fresh allocations of the methods happen to hold: the capacity of the buffer on
  the stack, the value of a status never returned, the structures \<^verbatim>\<open>malloc\<close> hands out, the lock
  type and the size that are not set on every path.
\<close>

record leftovers =
  j_capacity :: u32
  j_status :: "string option"
  j_client :: client
  j_file :: nfs_file
  j_type :: u32
  j_size :: u64

definition nfs4_vfs ::
    "sqlite \<Rightarrow> 'w os \<Rightarrow> 'w parent_vfs \<Rightarrow> leftovers \<Rightarrow> 'w vfs sqlite3_vfs" where
  "nfs4_vfs sq os parent j = \<lparr>
     vfs_iVersion = 2,
     mxPathname = 1024,
     zName = ''nfs4'',
     xOpen = nfs4Open sq os (j_capacity j) (j_status j) (j_client j) (j_file j),
     xDelete = nfs4Delete os (j_capacity j),
     xAccess = nfs4Access sq os (j_capacity j),
     xFullPathname = nfs4FullPathname,
     xDlOpen = nfs4DlOpen parent,
     xDlError = nfs4DlError parent,
     xDlSym = nfs4DlSym parent,
     xDlClose = nfs4DlClose parent,
     xRandomness = nfs4Randomness parent,
     xSleep = nfs4Sleep parent,
     xCurrentTime = nfs4CurrentTime parent,
     xGetLastError = nfs4GetLastError,
     xCurrentTimeInt64 = nfs4CurrentTimeInt64 parent\<rparr>"

definition nfs4_io_methods :: "sqlite \<Rightarrow> 'w os \<Rightarrow> leftovers \<Rightarrow> 'w vfs io_methods" where
  "nfs4_io_methods sq os j = \<lparr>
     io_iVersion = 3,
     xClose = nfs4Close,
     xRead = nfs4Read os,
     xWrite = nfs4Write os,
     xTruncate = nfs4Truncate,
     xSync = nfs4Sync,
     xFileSize = nfs4FileSize os (j_size j),
     xLock = nfs4Lock os,
     xUnlock = nfs4Unlock os (j_type j),
     xCheckReservedLock = nfs4CheckReservedLock,
     xFileControl = nfs4FileControl sq,
     xSectorSize = ret nfs4SectorSize,
     xDeviceCharacteristics = bnd (gets v_sql) (\<lambda>f. ret (nfs4DeviceCharacteristics sq f)),
     xShmMap = nfs4ShmMap,
     xShmLock = nfs4ShmLock,
     xShmBarrier = nfs4ShmBarrier,
     xShmUnmap = nfs4ShmUnmap,
     xFetch = nfs4Fetch os,
     xUnfetch = nfs4Unfetch\<rparr>"

end
