(* ===== verification/Bench.thy ===== *)
theory Bench
  imports Methods "HOL-Library.Signed_Division"
begin

text \<open>
  The benchmark \<^verbatim>\<open>pyvfsbench/vfsbench.c\<close>, a second user of the VFS beside SQLite: it opens a file
  through the table of a VFS and calls the methods of the file in a loop, measuring the time. It
  is built with \<^verbatim>\<open>TIMING_DETAIL\<close> (\<^verbatim>\<open>setup.py\<close>). The buffer \<^verbatim>\<open>zBuf\<close> is the caller's memory
  \<open>s_mem\<close>; the clock and \<^verbatim>\<open>random\<close> are the parameter \<open>bench_os\<close>.
\<close>

section \<open>Timing\<close>

record 'w bench_os =
  b_realtime :: "'w \<Rightarrow> (u64 \<times> u64) \<times> 'w"
  b_random :: "'w \<Rightarrow> nat \<times> 'w"

text \<open>Times are pairs of seconds and nanoseconds.\<close>

record timing =
  t_start :: "u64 \<times> u64"
  t_end :: "u64 \<times> u64"

record test_result =
  r_success_op_ct :: u32
  r_overall_timing :: timing
  r_detail_timing :: "timing list"

record test_config =
  cfg_vfs_name :: string
  cfg_mode :: string
  cfg_data_path :: "u8 list"
  cfg_block_size :: u32
  cfg_blocks_per_thread :: u32
  cfg_test_result :: test_result

definition timing_start :: "'w bench_os \<Rightarrow> timing \<Rightarrow> ('w vfs, timing) prog" where
  "timing_start bos t = bnd (on_st (on_world (b_realtime bos))) (\<lambda>now. ret (t\<lparr>t_start := now\<rparr>))"

definition timing_finish :: "'w bench_os \<Rightarrow> timing \<Rightarrow> ('w vfs, timing) prog" where
  "timing_finish bos t = bnd (on_st (on_world (b_realtime bos))) (\<lambda>now. ret (t\<lparr>t_end := now\<rparr>))"

text \<open>The remainder is that of C on signed numbers.\<close>

definition timing_elapsed_ns :: "timing \<Rightarrow> u64" where
  "timing_elapsed_ns t =
     (fst (t_end t) - fst (t_start t)) * 1000000000 +
     word_of_int (sint (snd (t_end t) - snd (t_start t)) smod 1000000000)"

text \<open>The numbers that are printed: nanoseconds, blocks and bytes per second.\<close>

definition print_perf :: "u64 \<Rightarrow> u64 \<Rightarrow> timing \<Rightarrow> ('s, u64 \<times> u64 \<times> u64) prog" where
  "print_perf block_size num_blocks t =
     (let elapsed_ns = timing_elapsed_ns t in
      if elapsed_ns = 0 then crash Div_by_zero
      else
        let blocks_per_sec = num_blocks * 1000000000 div elapsed_ns in
        ret (elapsed_ns, blocks_per_sec, blocks_per_sec * block_size))"

section \<open>Loops\<close>

definition le32 :: "u32 \<Rightarrow> u8 list" where
  "le32 w = rev (be32 w)"

definition store_mem :: "nat \<Rightarrow> cells \<Rightarrow> ('w vfs, unit) prog" where
  "store_mem off xs = on_st (bnd (gets (\<lambda>s. mem_store off xs (s_mem s))) (\<lambda>mem.
     case mem of None \<Rightarrow> crash Out_of_bounds | Some mem \<Rightarrow> modify (\<lambda>s. s\<lparr>s_mem := mem\<rparr>)))"

text \<open>\<^verbatim>\<open>fill_random\<close>: \<open>p\<close> is the distance to the beginning of the buffer.\<close>

function fill_random_loop :: "'w bench_os \<Rightarrow> nat \<Rightarrow> nat \<Rightarrow> ('w vfs, unit) prog" where
  "fill_random_loop bos len p =
     (if p < len then
        bnd (on_st (on_world (b_random bos))) (\<lambda>x.
        bnd (store_mem p (cells_of (le32 (word_of_nat x)))) (\<lambda>_.
        fill_random_loop bos len (p + 4)))
      else ret ())"
  by pat_completeness auto
termination by (relation "measure (\<lambda>(bos, len, p). len - p)") auto

declare fill_random_loop.simps [simp del]

definition bench_fill_random :: "'w bench_os \<Rightarrow> u64 \<Rightarrow> ('w vfs, unit) prog" where
  "bench_fill_random bos len = fill_random_loop bos (unat len) 0"

text \<open>\<^verbatim>\<open>sqlite3_malloc\<close> takes an \<^verbatim>\<open>int\<close>; null is a buffer without cells.\<close>

definition bench_malloc :: "u64 \<Rightarrow> ('w vfs, unit) prog" where
  "bench_malloc len =
     (let n = (ucast len :: u32) in
      on_st (modify (\<lambda>s. s\<lparr>s_mem := if 0 < sint n then fresh_cells (unat n) else []\<rparr>)))"

text \<open>\<^verbatim>\<open>if (rc)\<close>: using the value of a function that ended without a \<^verbatim>\<open>return\<close> is undefined.\<close>

fun is_error :: "sqlite_rc \<Rightarrow> ('s, bool) prog" where
  "is_error SQLITE_OK = ret False"
| "is_error Indeterminate = crash Uninitialised"
| "is_error (Parent_rc n) = ret (n \<noteq> 0)"
| "is_error _ = ret True"

definition on_detail ::
    "u64 \<Rightarrow> (timing \<Rightarrow> ('s, timing) prog) \<Rightarrow> test_result \<Rightarrow> ('s, test_result) prog" where
  "on_detail ct f r =
     (if unat ct < length (r_detail_timing r) then
        bnd (f (r_detail_timing r ! unat ct)) (\<lambda>t.
        ret (r\<lparr>r_detail_timing := (r_detail_timing r)[unat ct := t]\<rparr>))
      else crash Out_of_bounds)"

definition on_overall :: "(timing \<Rightarrow> ('s, timing) prog) \<Rightarrow> test_result \<Rightarrow> ('s, test_result) prog" where
  "on_overall f r = bnd (f (r_overall_timing r)) (\<lambda>t. ret (r\<lparr>r_overall_timing := t\<rparr>))"

lemma fewer_left: "ct < n \<Longrightarrow> unat (n - (ct + 1)) < unat (n - ct)" for n :: u64
proof -
  assume "ct < n"
  then have ne: "n - ct \<noteq> 0" by auto
  then have "0 < unat (n - ct)" by (simp add: unat_gt_0)
  with unat_minus_one[OF ne] show ?thesis by (simp add: diff_diff_eq)
qed

type_synonym 'w file_op = "u32 \<Rightarrow> u64 \<Rightarrow> ('w vfs, sqlite_rc) prog"

function sequential_loop ::
    "'w bench_os \<Rightarrow> 'w file_op \<Rightarrow> u64 \<Rightarrow> u64 \<Rightarrow> u64 \<Rightarrow> u64 \<Rightarrow> sqlite_rc \<Rightarrow> test_result \<Rightarrow>
     ('w vfs, sqlite_rc \<times> u64 \<times> test_result) prog" where
  "sequential_loop bos op block_size n_ops pos ct rc result =
     (if ct < n_ops then
        bnd (on_detail ct (timing_start bos) result) (\<lambda>result.
        bnd (op (ucast block_size) pos) (\<lambda>rc.
        bnd (on_detail ct (timing_finish bos) result) (\<lambda>result.
        bnd (is_error rc) (\<lambda>bad.
        if bad then ret (rc, ct, result)
        else sequential_loop bos op block_size n_ops (pos + block_size) (ct + 1) rc result))))
      else ret (rc, ct, result))"
  by pat_completeness auto
termination
proof (relation "measure (\<lambda>(bos, op, block_size, n_ops, pos, ct, rc, result). unat (n_ops - ct))", goal_cases)
  case 1
  show ?case by simp
next
  case (2 bos op block_size n_ops pos ct rc result r1 rc1 r2 bad)
  then show ?case by (simp add: fewer_left)
qed

declare sequential_loop.simps [simp del]

function random_loop ::
    "'w bench_os \<Rightarrow> 'w file_op \<Rightarrow> u64 \<Rightarrow> u64 \<Rightarrow> u64 \<Rightarrow> u64 \<Rightarrow> sqlite_rc \<Rightarrow> test_result \<Rightarrow>
     ('w vfs, sqlite_rc \<times> u64 \<times> test_result) prog" where
  "random_loop bos op block_size n_ops block_limit ct rc result =
     (if ct < n_ops then
        bnd (on_st (on_world (b_random bos))) (\<lambda>x.
        bnd (require Div_by_zero (block_limit \<noteq> 0)) (\<lambda>_.
        bnd (on_detail ct (timing_start bos) result) (\<lambda>result.
        bnd (op (ucast block_size) (block_size * (word_of_nat x mod block_limit))) (\<lambda>rc.
        bnd (on_detail ct (timing_finish bos) result) (\<lambda>result.
        bnd (is_error rc) (\<lambda>bad.
        if bad then ret (rc, ct, result)
        else random_loop bos op block_size n_ops block_limit (ct + 1) rc result))))))
      else ret (rc, ct, result))"
  by pat_completeness auto
termination
proof (relation "measure (\<lambda>(bos, op, block_size, n_ops, block_limit, ct, rc, result). unat (n_ops - ct))", goal_cases)
  case 1
  show ?case by simp
next
  case (2 bos op block_size n_ops block_limit ct rc result x u r1 rc1 r2 bad)
  then show ?case by (simp add: fewer_left)
qed

declare random_loop.simps [simp del]

text \<open>
  Both leave the buffer they allocated behind; the status of \<^verbatim>\<open>xSync\<close> is not looked at. The number
  of operations is stored as an \<^verbatim>\<open>int\<close>.
\<close>

definition op_sequentially ::
    "sqlite \<Rightarrow> 'w bench_os \<Rightarrow> 'w vfs io_methods \<Rightarrow> 'w file_op \<Rightarrow> u64 \<Rightarrow> u64 \<Rightarrow> test_result \<Rightarrow> bool \<Rightarrow>
     ('w vfs, sqlite_rc \<times> test_result) prog" where
  "op_sequentially sq bos pMethods op block_size n_ops result sync =
     bnd (bench_malloc block_size) (\<lambda>_.
     bnd (bench_fill_random bos block_size) (\<lambda>_.
     bnd (on_overall (timing_start bos) result) (\<lambda>result.
     bnd (sequential_loop bos op block_size n_ops 0 0 SQLITE_OK result) (\<lambda>(rc, ct, result).
     let result = result\<lparr>r_success_op_ct := ucast ct\<rparr> in
     bnd (if sync then bnd (xSync pMethods (SQLITE_SYNC_NORMAL sq)) (\<lambda>_. ret ()) else ret ()) (\<lambda>_.
     bnd (on_overall (timing_finish bos) result) (\<lambda>result.
     ret (rc, result)))))))"

definition op_randomly ::
    "sqlite \<Rightarrow> 'w bench_os \<Rightarrow> 'w vfs io_methods \<Rightarrow> 'w file_op \<Rightarrow> u64 \<Rightarrow> u64 \<Rightarrow> u64 \<Rightarrow> test_result \<Rightarrow> bool \<Rightarrow>
     ('w vfs, sqlite_rc \<times> test_result) prog" where
  "op_randomly sq bos pMethods op block_size n_ops block_limit result sync =
     bnd (bench_malloc block_size) (\<lambda>_.
     bnd (bench_fill_random bos block_size) (\<lambda>_.
     bnd (on_overall (timing_start bos) result) (\<lambda>result.
     bnd (random_loop bos op block_size n_ops block_limit 0 SQLITE_OK result) (\<lambda>(rc, ct, result).
     let result = result\<lparr>r_success_op_ct := ucast ct\<rparr> in
     bnd (if sync then bnd (xSync pMethods (SQLITE_SYNC_NORMAL sq)) (\<lambda>_. ret ()) else ret ()) (\<lambda>_.
     bnd (on_overall (timing_finish bos) result) (\<lambda>result.
     ret (rc, result)))))))"

section \<open>A run\<close>

text \<open>
  \<open>vfs_find\<close> is \<^verbatim>\<open>sqlite3_vfs_find\<close>, and \<open>pMethods\<close> the table an open sets in the file. The second
  test of \<^verbatim>\<open>rc\<close> looks at the result of the open again, since that of \<^verbatim>\<open>xFileSize\<close> is not stored.
  The number of blocks of the file is a signed division.
\<close>

definition file_blocks :: "u64 \<Rightarrow> u32 \<Rightarrow> ('s, u64) prog" where
  "file_blocks bytes block_size =
     (if block_size = 0 then crash Div_by_zero
      else ret (word_of_int (sint bytes sdiv sint block_size)))"

definition run_test ::
    "sqlite \<Rightarrow> 'w bench_os \<Rightarrow> (string \<Rightarrow> 'w vfs sqlite3_vfs option) \<Rightarrow> 'w vfs io_methods \<Rightarrow> test_config \<Rightarrow>
     ('w vfs, test_result) prog" where
  "run_test sq bos vfs_find pMethods cfg =
     (case vfs_find (cfg_vfs_name cfg) of
        None \<Rightarrow> crash Null_pointer
      | Some vfs \<Rightarrow>
        bnd (xOpen vfs (cfg_data_path cfg) (SQLITE_OPEN_READWRITE sq)) (\<lambda>rc.
        bnd (is_error rc) (\<lambda>bad.
        bnd (require (Exit 1) (\<not> bad)) (\<lambda>_.
        bnd (xFileSize pMethods) (\<lambda>(_, bytes).
        bnd (is_error rc) (\<lambda>bad.
        bnd (require (Exit 1) (\<not> bad)) (\<lambda>_.
        let block_size = scast (cfg_block_size cfg); n_ops = scast (cfg_blocks_per_thread cfg);
            result = cfg_test_result cfg
        in
        if cfg_mode cfg = ''sr'' then
          bnd (op_sequentially sq bos pMethods (xRead pMethods) block_size n_ops result False) (\<lambda>(_, r). ret r)
        else if cfg_mode cfg = ''rr'' then
          bnd (file_blocks bytes (cfg_block_size cfg)) (\<lambda>limit.
          bnd (op_randomly sq bos pMethods (xRead pMethods) block_size n_ops limit result False) (\<lambda>(_, r). ret r))
        else if cfg_mode cfg = ''sw'' then
          bnd (op_sequentially sq bos pMethods (xWrite pMethods) block_size n_ops result True) (\<lambda>(_, r). ret r)
        else if cfg_mode cfg = ''rw'' then
          bnd (file_blocks bytes (cfg_block_size cfg)) (\<lambda>limit.
          bnd (op_randomly sq bos pMethods (xWrite pMethods) block_size n_ops limit result True) (\<lambda>(_, r). ret r))
        else crash (Exit 1))))))))"

end
