(* ===== verification/Bench_Properties.thy ===== *)
theory Bench_Properties
  imports Bench Vfs_Calls
begin

text \<open>
  Properties of the benchmark: what it does to its buffer, which blocks it visits and what it
  counts, for any methods, and what becomes of it over the methods of the NFS file system.
\<close>

section \<open>Rules\<close>

text \<open>\<open>seen mem w v\<close>: the state \<open>v\<close> with the caller's memory \<open>mem\<close> and the world \<open>w\<close>.\<close>

definition seen :: "cells \<Rightarrow> 'w \<Rightarrow> 'w vfs \<Rightarrow> 'w vfs" where
  "seen mem w v = v\<lparr>v_st := (v_st v)\<lparr>s_mem := mem, s_world := w\<rparr>\<rparr>"

lemma seen_simps [simp]:
  "s_mem (v_st (seen mem w v)) = mem" "s_world (v_st (seen mem w v)) = w"
  "seen mem' w' (seen mem w v) = seen mem' w' v"
  "s_client (v_st (seen mem w v)) = s_client (v_st v)" "s_file (v_st (seen mem w v)) = s_file (v_st v)"
  "s_heap (v_st (seen mem w v)) = s_heap (v_st v)" "s_bad (v_st (seen mem w v)) = s_bad (v_st v)"
  by (simp_all add: seen_def)

lemma seen_self: "seen (s_mem (v_st v)) (s_world (v_st v)) v = v"
  by (simp add: seen_def)

lemma world_step: "on_st (on_world f) v =
    Some (Ok (fst (f (s_world (v_st v)))) (seen (s_mem (v_st v)) (snd (f (s_world (v_st v)))) v))"
  by (simp add: on_st_def zoom_def on_world_def seen_def split: prod.split)

definition clock_tick :: "'w bench_os \<Rightarrow> 'w vfs \<Rightarrow> 'w vfs" where
  "clock_tick bos v = seen (s_mem (v_st v)) (snd (b_realtime bos (s_world (v_st v)))) v"

lemma timing_run:
  "timing_start bos t v = Some (Ok (t\<lparr>t_start := fst (b_realtime bos (s_world (v_st v)))\<rparr>) (clock_tick bos v))"
  "timing_finish bos t v = Some (Ok (t\<lparr>t_end := fst (b_realtime bos (s_world (v_st v)))\<rparr>) (clock_tick bos v))"
  by (simp_all add: timing_start_def timing_finish_def bnd_def world_step clock_tick_def)

lemma detail_run:
  assumes "unat ct < length (r_detail_timing r)"
  obtains r1 r2 where "on_detail ct (timing_start bos) r v = Some (Ok r1 (clock_tick bos v))"
    and "on_detail ct (timing_finish bos) r v = Some (Ok r2 (clock_tick bos v))"
    and "length (r_detail_timing r1) = length (r_detail_timing r)" and "length (r_detail_timing r2) = length (r_detail_timing r)"
  using assms by (simp add: on_detail_def bnd_def timing_run)

lemma overall_run:
  obtains r1 r2 where "on_overall (timing_start bos) r v = Some (Ok r1 (clock_tick bos v))"
    and "on_overall (timing_finish bos) r v = Some (Ok r2 (clock_tick bos v))"
    and "r_detail_timing r1 = r_detail_timing r" and "r_success_op_ct r2 = r_success_op_ct r"
  by (simp add: on_overall_def bnd_def timing_run)

section \<open>Filling the buffer\<close>

lemma length_le32 [simp]: "length (le32 w) = 4"
  by (simp add: le32_def)

lemma store_mem_run: "store_mem off xs v = (if off + length xs \<le> length (s_mem (v_st v))
    then Some (Ok () (seen (take off (s_mem (v_st v)) @ xs @ drop (off + length xs) (s_mem (v_st v))) (s_world (v_st v)) v))
    else Some (Crash Out_of_bounds))"
  by (simp add: store_mem_def on_st_def zoom_def bnd_def mem_store_def seen_def)

lemma written_cells: "None \<notin> set xs \<Longrightarrow> \<exists>bs. xs = cells_of bs"
  by (metis ex_map_conv not_None_eq)

lemma fill_step:
  assumes "p < len" and "length (s_mem (v_st v)) = len"
  shows "fill_random_loop bos len p v =
    (let (x, w) = b_random bos (s_world (v_st v)) in
     if p + 4 \<le> len then fill_random_loop bos len (p + 4)
       (seen (take p (s_mem (v_st v)) @ cells_of (le32 (word_of_nat x)) @ drop (p + 4) (s_mem (v_st v))) w v)
     else Some (Crash Out_of_bounds))"
  using assms by (subst fill_random_loop.simps) (simp add: bnd_def world_step store_mem_run Let_def split: prod.split)

lemma fill_random_runs:
  assumes "length (s_mem (v_st v)) = len" and "p \<le> len" and "4 dvd p" and "s_world (v_st v) \<in> W"
    and W: "\<And>w. w \<in> W \<Longrightarrow> snd (b_random bos w) \<in> W" and "None \<notin> set (take p (s_mem (v_st v)))"
  shows "if 4 dvd len then \<exists>bs w. length bs = len \<and> w \<in> W \<and> fill_random_loop bos len p v = Some (Ok () (seen (cells_of bs) w v))
    else fill_random_loop bos len p v = Some (Crash Out_of_bounds)"
  using assms(1-4,6)
proof (induction "len - p" arbitrary: p v rule: less_induct)
  case less
  let ?mem = "s_mem (v_st v)"
  show ?case
  proof (cases "p < len")
    case False
    with less.prems(2) have p: "p = len" by simp
    with less.prems(1,5) obtain bs where bs: "?mem = cells_of bs" using written_cells[of ?mem] by auto
    from p less.prems(3,4) show ?thesis
      using seen_self[of v] less.prems(1) bs
      by (intro if_P[THEN iffD2]) (auto simp: fill_random_loop.simps intro!: exI[of _ bs] exI[of _ "s_world (v_st v)"])
  next
    case True
    obtain x w where xw: "b_random bos (s_world (v_st v)) = (x, w)" by fastforce
    let ?mem' = "take p ?mem @ cells_of (le32 (word_of_nat x)) @ drop (p + 4) ?mem"
    have w: "w \<in> W" using W[OF less.prems(4)] xw by simp
    show ?thesis
    proof (cases "p + 4 \<le> len")
      case True
      have "length ?mem' = len" "4 dvd p + 4" "None \<notin> set (take (p + 4) ?mem')"
        using True less.prems(1,3,5) by simp_all
      then have "if 4 dvd len then \<exists>bs w'. length bs = len \<and> w' \<in> W \<and>
          fill_random_loop bos len (p + 4) (seen ?mem' w v) = Some (Ok () (seen (cells_of bs) w' v))
        else fill_random_loop bos len (p + 4) (seen ?mem' w v) = Some (Crash Out_of_bounds)"
        using less.hyps[of "p + 4" "seen ?mem' w v"] True w by (simp cong: if_cong)
      with fill_step[OF \<open>p < len\<close> less.prems(1), of bos] xw True show ?thesis by (simp cong: if_cong)
    next
      case False
      with less.prems(3) \<open>p < len\<close> have "\<not> 4 dvd len" by presburger
      with fill_step[OF \<open>p < len\<close> less.prems(1), of bos] xw False show ?thesis by simp
    qed
  qed
qed

section \<open>The numbers\<close>

lemma unat_of_nat_u64: "k < 2 ^ 64 \<Longrightarrow> unat (word_of_nat k :: u64) = k"
  by (simp add: unat_of_nat take_bit_nat_eq_self)

lemma unat_less_uint: "unat b < numeral n \<Longrightarrow> uint b < numeral n" for b :: "'a :: len word"
  by (metis of_nat_less_iff of_nat_numeral uint_nat)

lemma sint_small:
  "- (2 ^ 63) \<le> x \<Longrightarrow> x < 2 ^ 63 \<Longrightarrow> sint (word_of_int x :: u64) = x"
  "- (2 ^ 31) \<le> x \<Longrightarrow> x < 2 ^ 31 \<Longrightarrow> sint (word_of_int x :: u32) = x"
  by (subst sint_sbintrunc', simp add: signed_take_bit_int_eq_self)+


text \<open>The time that is measured is the difference of the two clock readings in nanoseconds, although
  the nanoseconds are subtracted on their own and may come out negative.\<close>

lemma timing_elapsed_exact:
  assumes "t_start t = (word_of_nat s1, word_of_nat n1)" and "t_end t = (word_of_nat s2, word_of_nat n2)"
    and "n1 < 1000000000" and "n2 < 1000000000" and "s1 * 1000000000 + n1 \<le> s2 * 1000000000 + n2"
    and "s2 * 1000000000 + n2 < 2 ^ 64"
  shows "unat (timing_elapsed_ns t) = (s2 * 1000000000 + n2) - (s1 * 1000000000 + n1)"
proof -
  have s: "sint (word_of_nat n2 - word_of_nat n1 :: u64) = int n2 - int n1"
    using sint_small(1)[of "int n2 - int n1"] assms(3,4) by simp
  have "\<bar>int n2 - int n1\<bar> < 1000000000" using assms(3,4) by linarith
  then have "(int n2 - int n1) smod 1000000000 = int n2 - int n1"
    by (simp add: signed_modulo_int_def sgn_if)
  then have "timing_elapsed_ns t = word_of_int ((int s2 - int s1) * 1000000000 + (int n2 - int n1))"
    using assms(1,2) s by (simp add: timing_elapsed_ns_def)
  also have "(int s2 - int s1) * 1000000000 + (int n2 - int n1) = int ((s2 * 1000000000 + n2) - (s1 * 1000000000 + n1))"
    using assms(5) by (simp add: of_nat_diff)
  finally have "timing_elapsed_ns t = word_of_nat ((s2 * 1000000000 + n2) - (s1 * 1000000000 + n1))" by simp
  then show ?thesis using assms(6) unat_of_nat_u64[of "(s2 * 1000000000 + n2) - (s1 * 1000000000 + n1)"] by simp
qed

lemma timing_elapsed_exact_witness:
  "unat (timing_elapsed_ns \<lparr>t_start = (1, 900000000), t_end = (2, 100000000)\<rparr>) = 200000000"
  using timing_elapsed_exact[of "\<lparr>t_start = (1, 900000000), t_end = (2, 100000000)\<rparr>" 1 900000000 2 100000000] by simp

section \<open>The loops\<close>

text \<open>
  The rule for the loop: \<open>I k\<close> holds before block \<open>k\<close>; the first \<open>m\<close> calls succeed, the next one
  fails if the loop gets there.
\<close>

lemma sequential_rule:
  assumes tick: "\<And>k v. I k v \<Longrightarrow> I k (clock_tick bos v)"
    and op: "\<And>k v. I k v \<Longrightarrow> k < m \<Longrightarrow> \<exists>v'. op (ucast bs) (word_of_nat k * bs) v = Some (Ok SQLITE_OK v') \<and> I (Suc k) v'"
    and bad: "\<And>v. I m v \<Longrightarrow> m < unat n \<Longrightarrow> \<exists>v'. op (ucast bs) (word_of_nat m * bs) v = Some (Ok SQLITE_ERROR v')"
  shows "I k v \<Longrightarrow> k \<le> m \<Longrightarrow> k \<le> unat n \<Longrightarrow> unat n \<le> length (r_detail_timing r) \<Longrightarrow>
    \<exists>r' v'. sequential_loop bos op bs n (word_of_nat k * bs) (word_of_nat k) rc r v =
      Some (Ok (if m < unat n then SQLITE_ERROR else if k < unat n then SQLITE_OK else rc, word_of_nat (min m (unat n)), r') v') \<and>
      (unat n \<le> m \<longrightarrow> I (unat n) v')"
proof (induction "unat n - k" arbitrary: k v r rc)
  case 0
  then have "k = unat n" by simp
  then have "k = unat n" "word_of_nat k = n" by simp_all
  with 0 show ?case by (subst sequential_loop.simps) (simp add: min_def)
next
  case (Suc d)
  from Suc.hyps(2) have k: "k < unat n" by simp
  then have kn: "unat (word_of_nat k :: u64) = k"
    using unat_of_nat_u64[of k] unat_u64[of n] by simp
  with k Suc.prems(4) have det: "unat (word_of_nat k :: u64) < length (r_detail_timing r)" by simp
  have lt: "(word_of_nat k :: u64) < n" using k kn by (simp add: word_less_nat_alt)
  obtain r1 where r1: "on_detail (word_of_nat k) (timing_start bos) r v = Some (Ok r1 (clock_tick bos v))"
      "length (r_detail_timing r1) = length (r_detail_timing r)"
    using detail_run[OF det] by metis
  have I1: "I k (clock_tick bos v)" using tick Suc.prems(1) by blast
  have det1: "unat (word_of_nat k :: u64) < length (r_detail_timing r1)" using det r1(2) by simp
  show ?case
  proof (cases "k < m")
    case True
    obtain v2 where v2: "op (ucast bs) (word_of_nat k * bs) (clock_tick bos v) = Some (Ok SQLITE_OK v2)" "I (Suc k) v2"
      using op[OF I1 True] by blast
    obtain r2 where r2: "on_detail (word_of_nat k) (timing_finish bos) r1 v2 = Some (Ok r2 (clock_tick bos v2))"
        "length (r_detail_timing r2) = length (r_detail_timing r1)"
      using detail_run[OF det1] by metis
    have run: "sequential_loop bos op bs n (word_of_nat k * bs) (word_of_nat k) rc r v =
        sequential_loop bos op bs n (word_of_nat (Suc k) * bs) (word_of_nat (Suc k)) SQLITE_OK r2 (clock_tick bos v2)"
      using lt r1(1) v2(1) r2(1)
      by (subst sequential_loop.simps) (simp add: bnd_def distrib_right add.commute)
    from Suc.hyps(1)[of "Suc k" "clock_tick bos v2" r2 SQLITE_OK] show ?thesis
      unfolding run using Suc.hyps(2) Suc.prems(4) True k r1(2) r2(2) tick[OF v2(2)] by (auto split: if_splits)
  next
    case False
    with Suc.prems(2) have km: "k = m" by simp
    obtain v2 where v2: "op (ucast bs) (word_of_nat k * bs) (clock_tick bos v) = Some (Ok SQLITE_ERROR v2)"
      using bad I1 k km by metis
    obtain r2 where r2: "on_detail (word_of_nat k) (timing_finish bos) r1 v2 = Some (Ok r2 (clock_tick bos v2))"
      using detail_run[OF det1] by metis
    show ?thesis
      using lt r1(1) v2(1) r2(1) k km by (subst sequential_loop.simps) (simp add: bnd_def min_def)
  qed
qed

lemma filled:
  assumes "unat bs < 2 ^ 31" and "4 dvd unat bs" and W: "\<And>w. w \<in> W \<Longrightarrow> snd (b_random bos w) \<in> W" and "s_world (v_st v) \<in> W"
  obtains xs w where "bnd (bench_malloc bs) (\<lambda>_. bnd (bench_fill_random bos bs) k) v = k () (seen (cells_of xs) w v)"
    and "length xs = unat bs" and "w \<in> W"
proof -
  have u: "unat (ucast bs :: u32) = unat bs"
    using assms(1) by (simp add: unsigned_ucast_eq take_bit_eq_mod)
  have "sint (ucast bs :: u32) = int (unat bs)"
    using sint_small(2)[of "int (unat bs)"] assms(1) order_trans[of "- 2147483648" 0 "uint bs"] by (simp add: unat_less_uint)
  moreover have "0 < uint bs" if "bs \<noteq> 0"
    using that by (metis less_le uint_0_iff unsigned_greater_eq)
  ultimately have m: "bench_malloc bs v = Some (Ok () (seen (fresh_cells (unat bs)) (s_world (v_st v)) v))"
    by (cases "bs = 0") (simp_all add: bench_malloc_def on_st_def zoom_def seen_def u fresh_cells_def)
  from fill_random_runs[of "seen (fresh_cells (unat bs)) (s_world (v_st v)) v" "unat bs" 0 W bos] assms
  obtain xs w where "length xs = unat bs" "w \<in> W"
      "bench_fill_random bos bs (seen (fresh_cells (unat bs)) (s_world (v_st v)) v) = Some (Ok () (seen (cells_of xs) w v))"
    by (auto simp: bench_fill_random_def fresh_cells_def)
  with m that show thesis by (simp add: bnd_def)
qed

text \<open>C29: \<^verbatim>\<open>fill_random\<close> writes every byte of the buffer and nothing else when its size is a multiple of
  four. For other sizes its last word goes past the end of the allocation, where the comment at
  the loop expects the last bytes to be left out.\<close>

theorem bench_fill_random_bounds:
  assumes "length (s_mem (v_st v)) = unat n"
  shows "if 4 dvd unat n then \<exists>bs w. length bs = unat n \<and> bench_fill_random bos n v = Some (Ok () (seen (cells_of bs) w v))
    else bench_fill_random bos n v = Some (Crash Out_of_bounds)"
  using fill_random_runs[of v "unat n" 0 UNIV bos] assms by (simp add: bench_fill_random_def split: if_splits)

text \<open>A machine whose clock stands still, and an operation that keeps the positions it is called with.\<close>

definition still_os :: "'w bench_os" where
  "still_os = \<lparr>b_realtime = (\<lambda>w. ((0, 0), w)), b_random = (\<lambda>w. (7, w))\<rparr>"

definition log_op :: "u8 list file_op" where
  "log_op k pos v = (if length (s_world (v_st v)) < 2
     then Some (Ok SQLITE_OK (seen (s_mem (v_st v)) (s_world (v_st v) @ [ucast pos]) v))
     else Some (Ok SQLITE_ERROR v))"

definition sample_result :: test_result where
  "sample_result = \<lparr>r_success_op_ct = 0, r_overall_timing = \<lparr>t_start = (0, 0), t_end = (0, 0)\<rparr>,
     r_detail_timing = replicate 3 \<lparr>t_start = (0, 0), t_end = (0, 0)\<rparr>\<rparr>"

definition sample_leftovers :: leftovers where
  "sample_leftovers = \<lparr>j_capacity = 0, j_status = None, j_client = sample_client 0, j_file = sample_file, j_type = 0, j_size = 0\<rparr>"

lemma bench_fill_random_bounds_witness:
  "bench_fill_random still_os 6 (seen (fresh_cells 6) [] (sample_vfs 1 [] [])) = Some (Crash Out_of_bounds)"
proof -
  have "\<not> 4 dvd (6 :: nat)" by presburger
  then show ?thesis
    using bench_fill_random_bounds[of "seen (fresh_cells 6) [] (sample_vfs 1 [] [])" 6 still_os] by (simp add: fresh_cells_def)
qed

text \<open>C25: \<^verbatim>\<open>op_sequentially\<close> goes through the blocks in order, each at its number times the block
  size: if the first \<open>m\<close> calls succeed and the one after fails, it ends after \<open>m\<close> blocks with
  the error, and if \<open>m\<close> is at least the number of blocks it ends after all of them with
  \<^verbatim>\<open>SQLITE_OK\<close>; the count in the result is the number of calls that succeeded.\<close>

theorem op_sequentially_counts:
  assumes start: "unat bs < 2 ^ 31" "4 dvd unat bs" "\<And>w. w \<in> W \<Longrightarrow> snd (b_random bos w) \<in> W" "s_world (v_st v) \<in> W"
      "\<And>xs w. length xs = unat bs \<Longrightarrow> w \<in> W \<Longrightarrow> I 0 (clock_tick bos (seen (cells_of xs) w v))"
    and tick: "\<And>k v. I k v \<Longrightarrow> I k (clock_tick bos v)"
    and op: "\<And>k v. I k v \<Longrightarrow> k < m \<Longrightarrow> \<exists>v'. op (ucast bs) (word_of_nat k * bs) v = Some (Ok SQLITE_OK v') \<and> I (Suc k) v'"
    and bad: "\<And>v. I m v \<Longrightarrow> m < unat n \<Longrightarrow> \<exists>v'. op (ucast bs) (word_of_nat m * bs) v = Some (Ok SQLITE_ERROR v')"
    and detail: "unat n \<le> length (r_detail_timing r)"
    and sync: "\<And>v. \<exists>rc v'. xSync pMethods (SQLITE_SYNC_NORMAL sq) v = Some (Ok rc v')"
  shows "\<exists>r' v'. op_sequentially sq bos pMethods op bs n r sync v =
      Some (Ok (if m < unat n then SQLITE_ERROR else SQLITE_OK, r') v') \<and>
    r_success_op_ct r' = word_of_nat (min m (unat n))"
proof -
  obtain xs w where f: "op_sequentially sq bos pMethods op bs n r sync v =
     (\<lambda>_. bnd (on_overall (timing_start bos) r) (\<lambda>result.
     bnd (sequential_loop bos op bs n 0 0 SQLITE_OK result) (\<lambda>(rc, ct, result).
     let result = result\<lparr>r_success_op_ct := ucast ct\<rparr> in
     bnd (if sync then bnd (xSync pMethods (SQLITE_SYNC_NORMAL sq)) (\<lambda>_. ret ()) else ret ()) (\<lambda>_.
     bnd (on_overall (timing_finish bos) result) (\<lambda>result.
     ret (rc, result)))))) () (seen (cells_of xs) w v)" "length xs = unat bs" "w \<in> W"
    unfolding op_sequentially_def by (rule filled[OF start(1-4)])
  obtain r1 where r1: "on_overall (timing_start bos) r (seen (cells_of xs) w v) = Some (Ok r1 (clock_tick bos (seen (cells_of xs) w v)))"
      "r_detail_timing r1 = r_detail_timing r"
    using overall_run by metis
  have "I 0 (clock_tick bos (seen (cells_of xs) w v))" by (rule start(5)[OF f(2,3)])
  from sequential_rule[where bos = bos and k = 0 and I = I and bs = bs and n = n and m = m and op = op and r = r1 and rc = SQLITE_OK,
      OF tick op bad this] detail r1(2)
  obtain r2 v2 where l: "sequential_loop bos op bs n 0 0 SQLITE_OK r1 (clock_tick bos (seen (cells_of xs) w v)) =
      Some (Ok (if m < unat n then SQLITE_ERROR else SQLITE_OK, word_of_nat (min m (unat n)), r2) v2)"
    by auto
  let ?r3 = "r2\<lparr>r_success_op_ct := ucast (word_of_nat (min m (unat n)) :: u64)\<rparr>"
  obtain v3 where s: "(if sync then bnd (xSync pMethods (SQLITE_SYNC_NORMAL sq)) (\<lambda>_. ret ()) else ret ()) v2 = Some (Ok () v3)"
    using sync[of v2] by (cases sync) (auto simp: bnd_def)
  have "unat (word_of_nat (min m (unat n)) :: u64) = min m (unat n)"
    using unat_u64[of n] by (intro unat_of_nat_u64) simp
  then have count: "ucast (word_of_nat (min m (unat n)) :: u64) = (word_of_nat (min m (unat n)) :: u32)"
    by (metis of_nat_unat)
  obtain r4 where "on_overall (timing_finish bos) ?r3 v3 = Some (Ok r4 (clock_tick bos v3))" "r_success_op_ct r4 = r_success_op_ct ?r3"
    using overall_run by metis
  then show ?thesis
    unfolding f(1) using r1(1) l s count by (simp add: bnd_def Let_def)
qed

lemma op_sequentially_counts_witness:
  "\<exists>r v. op_sequentially sample_sqlite still_os (nfs4_io_methods sample_sqlite tape_os sample_leftovers) log_op 8 3
      sample_result True (sample_vfs 1 [] []) = Some (Ok (SQLITE_ERROR, r) v) \<and> r_success_op_ct r = 2"
proof -
  let ?I = "\<lambda>k v :: u8 list vfs. length (s_world (v_st v)) = k"
  have "\<exists>r v. op_sequentially sample_sqlite still_os (nfs4_io_methods sample_sqlite tape_os sample_leftovers) log_op 8 3
      sample_result True (sample_vfs 1 [] []) = Some (Ok (if 2 < unat (3 :: u64) then SQLITE_ERROR else SQLITE_OK, r) v) \<and>
      r_success_op_ct r = word_of_nat (min 2 (unat (3 :: u64)))"
    by (rule op_sequentially_counts[where W = "{[]}" and I = ?I and m = 2])
      (auto simp: still_os_def clock_tick_def log_op_def sample_result_def nfs4_io_methods_def nfs4Sync_def)
  then show ?thesis by simp
qed

lemma random_in_file:
  fixes bs lim :: u64
  assumes "unat bs * unat lim < 2 ^ 64"
  shows "unat (bs * (word_of_nat x mod lim)) + unat bs \<le> unat bs * unat lim \<or> lim = 0"
proof (cases "lim = 0")
  case False
  let ?y = "word_of_nat x mod lim"
  have y: "unat ?y < unat lim" using False by (simp add: unat_mod_distrib unat_gt_0)
  then have le: "unat bs * unat ?y + unat bs \<le> unat bs * unat lim"
    by (metis Suc_leI add.commute mult_Suc_right mult_le_mono2)
  with assms have "unat (bs * ?y) = unat bs * unat ?y"
    by (intro unat_mult_lem[THEN iffD1]) simp
  with le show ?thesis by simp
qed simp

text \<open>A method that faults on any range that is not inside the first \<open>bytes\<close> bytes of its file.\<close>

definition within :: "u64 \<Rightarrow> 'w file_op \<Rightarrow> 'w file_op" where
  "within bytes op k pos = (if unat pos + unat k \<le> unat bytes then op k pos else crash Out_of_bounds)"

lemma random_loop_within:
  assumes "unat bs * unat lim \<le> unat bytes" and "unat (ucast bs :: u32) = unat bs"
  shows "random_loop bos (within bytes op) bs n lim ct rc r v = random_loop bos op bs n lim ct rc r v"
proof (induction "unat (n - ct)" arbitrary: ct rc r v rule: less_induct)
  case less
  show ?case
  proof (cases "ct < n \<and> lim \<noteq> 0")
    case True
    then have IH: "random_loop bos (within bytes op) bs n lim (ct + 1) rc' r' = random_loop bos op bs n lim (ct + 1) rc' r'"
      for rc' r'
      using less[of "ct + 1"] fewer_left by blast
    have "unat bs * unat lim < 2 ^ 64" using assms(1) unat_u64[of bytes] by simp
    then have "unat (bs * (word_of_nat x mod lim)) + unat bs \<le> unat bytes" for x
      using random_in_file[of bs lim x] True assms(1) by simp
    then have "within bytes op (ucast bs) (bs * (word_of_nat x mod lim)) = op (ucast bs) (bs * (word_of_nat x mod lim))" for x
      by (intro ext) (simp add: within_def assms(2))
    then show ?thesis by (subst (1 2) random_loop.simps) (simp only: IH)
  next
    case False
    then show ?thesis
      by (subst (1 2) random_loop.simps) (auto simp: bnd_def world_step require_def crash_def)
  qed
qed

lemma op_randomly_within:
  assumes "unat bs * unat lim \<le> unat bytes" and "unat (ucast bs :: u32) = unat bs" and "xSync pMethods' = xSync pMethods"
  shows "op_randomly sq bos pMethods' (within bytes op) bs n lim r sync = op_randomly sq bos pMethods op bs n lim r sync"
proof -
  have "random_loop bos (within bytes op) bs n lim = random_loop bos op bs n lim"
    by (intro ext) (rule random_loop_within[OF assms(1,2)])
  then show ?thesis by (simp only: op_randomly_def assms(3))
qed

text \<open>The number of whole blocks of a file, in the signed numbers of the code.\<close>

lemma unat_word_of_int_u64: "0 \<le> k \<Longrightarrow> k < 2 ^ 64 \<Longrightarrow> unat (word_of_int k :: u64) = nat k"
  by (simp only: unat_eq_nat_uint uint_word_of_int) (simp add: take_bit_int_eq_self)

lemma file_blocks_fit:
  assumes "0 \<le> sint bytes" and "0 < sint block_size"
  defines "lim \<equiv> word_of_int (sint bytes div sint block_size) :: u64"
  shows "file_blocks bytes block_size = ret lim"
    and "unat (scast block_size :: u64) * unat lim \<le> unat bytes"
    and "unat (ucast (scast block_size :: u64) :: u32) = unat (scast block_size :: u64)"
proof -
  let ?b = "sint block_size" and ?n = "sint bytes"
  have b: "?b < 2 ^ 31" using sint_lt[of block_size] by simp
  have n: "?n < 2 ^ 63" using sint_lt[of bytes] by simp
  have "?b * (?n div ?b) + ?n mod ?b = ?n" "0 \<le> ?n mod ?b" using assms(2) by simp_all
  then have q: "?b * (?n div ?b) \<le> ?n" "0 \<le> ?n div ?b"
    using assms(1,2) by (linarith, simp add: pos_imp_zdiv_nonneg_iff)
  have "1 * (?n div ?b) \<le> ?b * (?n div ?b)" using assms(2) q(2) by (intro mult_right_mono) simp_all
  with q(1) have le: "?n div ?b \<le> ?n" by simp
  show "file_blocks bytes block_size = ret lim"
    using assms(1,2) by (auto simp: file_blocks_def lim_def signed_divide_int_def sgn_if)
  have ub: "unat (scast block_size :: u64) = nat ?b"
    unfolding scast_eq using b assms(2) by (intro unat_word_of_int_u64) simp_all
  have ul: "unat lim = nat (?n div ?b)"
    using q(2) le n unat_word_of_int_u64[of "?n div ?b"] by (simp add: lim_def)
  have "unat bytes = nat ?n" using n assms(1) unat_word_of_int_u64[of ?n] by simp
  with ub ul q assms(2) show "unat (scast block_size :: u64) * unat lim \<le> unat bytes"
    by (simp flip: nat_mult_distrib)
  show "unat (ucast (scast block_size :: u64) :: u32) = unat (scast block_size :: u64)"
    using b assms(2) ub by (simp add: unsigned_ucast_eq take_bit_nat_eq_self)
qed

text \<open>C27: A random benchmark stays inside the file: whatever size of zero or more \<^verbatim>\<open>xFileSize\<close> hands out for
  the file that was opened, \<^verbatim>\<open>run_test\<close> in the modes \<^verbatim>\<open>rr\<close> and \<^verbatim>\<open>rw\<close> behaves as it does with methods
  that fault on a range that ends after that size, so it never asks for one. That the size is the
  one of the file is not checked: the status of \<^verbatim>\<open>xFileSize\<close> may be any.\<close>

theorem random_test_in_file:
  assumes "cfg_mode cfg = ''rr'' \<or> cfg_mode cfg = ''rw''" and "0 < sint (cfg_block_size cfg)"
    and "vfs_find (cfg_vfs_name cfg) = Some vfs"
    and "xOpen vfs (cfg_data_path cfg) (SQLITE_OPEN_READWRITE sq) v = Some (Ok SQLITE_OK v')"
    and "xFileSize pMethods v' = Some (Ok (rc, bytes) v'')" and "0 \<le> sint bytes"
  shows "run_test sq bos vfs_find pMethods cfg v =
    run_test sq bos vfs_find (pMethods\<lparr>xRead := within bytes (xRead pMethods), xWrite := within bytes (xWrite pMethods)\<rparr>) cfg v"
proof -
  note lim = file_blocks_fit[OF assms(6,2)]
  note same = op_randomly_within[OF lim(2,3), where pMethods = pMethods]
  show ?thesis
    using assms(1) unfolding run_test_def
    by (auto simp: assms(3-5) bnd_Ok[where m = "xOpen vfs _ _"] bnd_Ok[where m = "xFileSize pMethods"] lim(1) same Let_def)
qed

text \<open>A file system whose reads all succeed and whose file has 16 bytes.\<close>

definition count_vfs :: "u8 list vfs sqlite3_vfs" where
  "count_vfs = \<lparr>vfs_iVersion = 2, mxPathname = 1024, zName = ''count'', xOpen = (\<lambda>_ _. ret SQLITE_OK), xDelete = (\<lambda>_. ret SQLITE_OK),
     xAccess = (\<lambda>_ _ _. ret (SQLITE_OK, 0)), xFullPathname = (\<lambda>path _. (SQLITE_OK, path)), xDlOpen = (\<lambda>_. ret 0),
     xDlError = (\<lambda>_. ret []), xDlSym = (\<lambda>_ _. ret 0), xDlClose = (\<lambda>_. ret ()), xRandomness = (\<lambda>_. ret (0, [])),
     xSleep = ret, xCurrentTime = ret (0, 0), xGetLastError = ret SQLITE_OK, xCurrentTimeInt64 = ret (0, 0)\<rparr>"

definition count_methods :: "u8 list vfs io_methods" where
  "count_methods = (nfs4_io_methods sample_sqlite tape_os sample_leftovers)
     \<lparr>xRead := log_op, xFileSize := ret (SQLITE_OK, 16)\<rparr>"

definition random_config :: test_config where
  "random_config = \<lparr>cfg_vfs_name = ''count'', cfg_mode = ''rr'', cfg_data_path = [], cfg_block_size = 4,
     cfg_blocks_per_thread = 2, cfg_test_result = sample_result\<rparr>"

lemma random_test_in_file_witness:
  "run_test sample_sqlite still_os (\<lambda>_. Some count_vfs) count_methods random_config (sample_vfs 1 [] []) =
   run_test sample_sqlite still_os (\<lambda>_. Some count_vfs)
     (count_methods\<lparr>xRead := within 16 (xRead count_methods), xWrite := within 16 (xWrite count_methods)\<rparr>) random_config (sample_vfs 1 [] [])"
  by (rule random_test_in_file[where vfs = count_vfs and v' = "sample_vfs 1 [] []" and v'' = "sample_vfs 1 [] []" and rc = SQLITE_OK])
    (simp_all add: random_config_def count_vfs_def count_methods_def)

text \<open>C28: Over the NFS file system the benchmark has no defined behaviour: as soon as the first read
  returns, \<^verbatim>\<open>op_sequentially\<close> uses the value of a method that returned none.\<close>

theorem nfs4_benchmark_undefined:
  assumes bs: "unat bs < 2 ^ 31" "4 dvd unat bs" and n: "0 < n" "0 < length (r_detail_timing r)"
    and W: "\<And>w. w \<in> W \<Longrightarrow> snd (b_random bos w) \<in> W" "\<And>w. w \<in> W \<Longrightarrow> snd (b_realtime bos w) \<in> W" "s_world (v_st v) \<in> W"
    and c: "idle (s_client (v_st v))" "wf_file (s_file (v_st v))"
      "0 < c_maxresp (s_client (v_st v))" "unat (c_maxresp (s_client (v_st v))) \<le> 2 ^ 29"
      "serves_reads os bytes W (c_fd (s_client (v_st v))) (c_session (s_client (v_st v))) (s_file (v_st v))"
  shows "op_sequentially sq bos pMethods (xRead (nfs4_io_methods sq' os j)) bs n r sync v = Some (Crash Uninitialised)"
proof -
  let ?op = "xRead (nfs4_io_methods sq' os j)"
  obtain xs w where f: "op_sequentially sq bos pMethods ?op bs n r sync v =
     (\<lambda>_. bnd (on_overall (timing_start bos) r) (\<lambda>result.
     bnd (sequential_loop bos ?op bs n 0 0 SQLITE_OK result) (\<lambda>(rc, ct, result).
     let result = result\<lparr>r_success_op_ct := ucast ct\<rparr> in
     bnd (if sync then bnd (xSync pMethods (SQLITE_SYNC_NORMAL sq)) (\<lambda>_. ret ()) else ret ()) (\<lambda>_.
     bnd (on_overall (timing_finish bos) result) (\<lambda>result.
     ret (rc, result)))))) () (seen (cells_of xs) w v)" "length xs = unat bs" "w \<in> W"
    unfolding op_sequentially_def by (rule filled[OF bs W(1,3)])
  let ?v = "clock_tick bos (clock_tick bos (seen (cells_of xs) w v))"
  obtain r1 where r1: "on_overall (timing_start bos) r (seen (cells_of xs) w v) = Some (Ok r1 (clock_tick bos (seen (cells_of xs) w v)))"
      "r_detail_timing r1 = r_detail_timing r"
    using overall_run by metis
  have d: "unat (0 :: u64) < length (r_detail_timing r1)" using n(2) r1(2) by simp
  obtain r2 where r2: "on_detail 0 (timing_start bos) r1 (clock_tick bos (seen (cells_of xs) w v)) = Some (Ok r2 ?v)"
      "length (r_detail_timing r2) = length (r_detail_timing r1)"
    using detail_run[OF d] by metis
  have u: "unat (ucast bs :: u32) = unat bs"
    using bs(1) by (simp add: unsigned_ucast_eq take_bit_eq_mod)
  have "can_read os bytes W (c_maxresp (s_client (v_st ?v))) 0 0 (unat (ucast bs :: u32)) (v_st ?v)"
    using c f(2,3) W(2) bs(1) by (simp add: can_read_def can_transfer_def clock_tick_def u)
  then obtain t where t: "nfs4Read os (ucast bs) 0 ?v = Some (Ok Indeterminate (?v\<lparr>v_st := t\<rparr>))"
    by (rule nfs4Read_reads) (use c(3) in \<open>simp add: clock_tick_def\<close>)
  have d2: "unat (0 :: u64) < length (r_detail_timing r2)" using d r2(2) by simp
  obtain r3 where r3: "on_detail 0 (timing_finish bos) r2 (?v\<lparr>v_st := t\<rparr>) = Some (Ok r3 (clock_tick bos (?v\<lparr>v_st := t\<rparr>)))"
    using detail_run[OF d2] by metis
  have "sequential_loop bos ?op bs n 0 0 SQLITE_OK r1 (clock_tick bos (seen (cells_of xs) w v)) = Some (Crash Uninitialised)"
    using n(1) r2(1) t r3 by (subst sequential_loop.simps) (simp add: bnd_def nfs4_io_methods_def crash_def)
  then show ?thesis unfolding f(1) using r1(1) by (simp add: bnd_def)
qed

lemma nfs4_benchmark_undefined_witness:
  "op_sequentially sample_sqlite still_os (nfs4_io_methods sample_sqlite srv_os sample_leftovers)
     (xRead (nfs4_io_methods sample_sqlite srv_os sample_leftovers)) 4 1 sample_result False
     (sample_vfs 1 [] (sample_srv [7])) = Some (Crash Uninitialised)"
  by (rule nfs4_benchmark_undefined[where W = quiet and bytes = v_bytes])
    (use sample_serves(1)[of 1] in \<open>simp_all add: still_os_def sample_result_def\<close>)

end
