(* ===== verification/Bench_Log.thy ===== *)
theory Bench_Log
  imports Bench
begin

text \<open>
  The entry point of the benchmark, \<^verbatim>\<open>benchmark_vfs\<close>, and the line it adds to its log with
  \<^verbatim>\<open>save_perf\<close>. SQLite's library, Python's argument parser, the C library's files and the scheduler
  of the threads are parameters (\<open>bench_lib\<close>).
\<close>

section \<open>The log\<close>

text \<open>
  \<^verbatim>\<open>%d\<close> and \<^verbatim>\<open>%09d\<close>. The code passes 64-bit numbers to some of them, of which the machine's
  calling convention makes the conversion see the low half.
\<close>

fun dec_string :: "nat \<Rightarrow> string" where
  "dec_string n = (if n < 10 then [] else dec_string (n div 10)) @ [char_of (48 + n mod 10)]"

declare dec_string.simps [simp del]

definition fmt_d :: "u32 \<Rightarrow> string" where
  "fmt_d w = (if sint w < 0 then ''-'' else []) @ dec_string (nat \<bar>sint w\<bar>)"

definition fmt_09d :: "u32 \<Rightarrow> string" where
  "fmt_09d w =
     (let sign = (if sint w < 0 then ''-'' else []); digits = dec_string (nat \<bar>sint w\<bar>) in
      sign @ replicate (9 - length sign - length digits) (CHR ''0'') @ digits)"

definition fmt_time :: "u64 \<times> u64 \<Rightarrow> string" where
  "fmt_time t = fmt_d (ucast (fst t)) @ ''.'' @ fmt_09d (ucast (snd t))"

definition quote :: string where
  "quote = [CHR 0x22]"

definition log_key :: "string \<Rightarrow> string" where
  "log_key k = quote @ k @ quote @ '':''"

text \<open>A loop that prints \<open>n\<close> items with a comma before each but the first.\<close>

function log_loop :: "(nat \<Rightarrow> ('s, string) prog) \<Rightarrow> nat \<Rightarrow> nat \<Rightarrow> ('s, string) prog" where
  "log_loop item n i =
     (if i < n then
        bnd (item i) (\<lambda>x.
        bnd (log_loop item n (i + 1)) (\<lambda>rest.
        ret ((if 0 < i then '','' else []) @ x @ rest)))
      else ret [])"
  by pat_completeness auto
termination by (relation "measure (\<lambda>(item, n, i). n - i)") auto

declare log_loop.simps [simp del]

definition element :: "'a list \<Rightarrow> nat \<Rightarrow> ('s, 'a) prog" where
  "element xs i = (if i < length xs then ret (xs ! i) else crash Out_of_bounds)"

definition log_detail :: "test_result \<Rightarrow> nat \<Rightarrow> ('s, string) prog" where
  "log_detail r i =
     bnd (element (r_detail_timing r) i) (\<lambda>t.
     ret (''{'' @ log_key ''start_time'' @ fmt_time (t_start t) @ '','' @
          log_key ''end_time'' @ fmt_time (t_end t) @ ''}''))"

definition log_thread :: "test_result list \<Rightarrow> nat \<Rightarrow> ('s, string) prog" where
  "log_thread results t =
     bnd (element results t) (\<lambda>r.
     bnd (log_loop (log_detail r) (nat (sint (r_success_op_ct r))) 0) (\<lambda>details.
     ret (''{'' @ log_key ''thread_start_time'' @ fmt_time (t_start (r_overall_timing r)) @ '','' @
          log_key ''thread_end_time'' @ fmt_time (t_end (r_overall_timing r)) @
          '','' @ log_key ''op_detail'' @ ''['' @ details @ '']'' @ ''}'')))"

text \<open>
  The text that \<^verbatim>\<open>save_perf\<close> appends to the file; \<open>add\<close> is \<open>None\<close> when the file cannot be opened,
  which the code does not test.
\<close>

definition save_perf ::
    "(string \<Rightarrow> string \<Rightarrow> 'w \<Rightarrow> 'w option) \<Rightarrow> string \<Rightarrow> string \<Rightarrow> u64 \<Rightarrow> u64 \<Rightarrow> u32 \<Rightarrow> test_result list \<Rightarrow>
     ('w vfs, unit) prog" where
  "save_perf add file_name mode block_size blocks_per_thread num_threads results =
     bnd (log_loop (log_thread results) (nat (sint num_threads)) 0) (\<lambda>threads.
     on_st (bnd (gets (\<lambda>s. add file_name
       (''{'' @ log_key ''mode'' @ quote @ mode @ quote @ '','' @
        log_key ''block_size'' @ fmt_d (ucast block_size) @ '','' @
        log_key ''blocks_per_thread'' @ fmt_d (ucast blocks_per_thread) @ '','' @
        log_key ''num_threads'' @ fmt_d num_threads @ '','' @
        log_key ''results'' @ ''['' @ threads @ '']'' @ ''}'' @ [CHR 0x0A]) (s_world s))) (\<lambda>w.
     case w of None \<Rightarrow> crash Null_pointer | Some w \<Rightarrow> modify (\<lambda>s. s\<lparr>s_world := w\<rparr>))))"

section \<open>The entry point\<close>

text \<open>
  Status codes of SQLite and of \<^verbatim>\<open>pthread_create\<close> are numbers, 0 for success. \<open>l_threads\<close> runs the
  bodies of the threads in some interleaving until all have ended.
\<close>

record 'w bench_lib =
  l_srandom :: "'w \<Rightarrow> unit \<times> 'w"
  l_open :: "'w \<Rightarrow> nat \<times> 'w"
  l_enable_load_extension :: "'w \<Rightarrow> nat \<times> 'w"
  l_load_extension :: "'w \<Rightarrow> nat \<times> 'w"
  l_vfs_find :: "'w \<Rightarrow> string \<Rightarrow> 'w vfs sqlite3_vfs option"
  l_pthread_create :: "'w \<Rightarrow> nat \<times> 'w"
  l_threads :: "('w vfs, test_result) prog list \<Rightarrow> ('w vfs, test_result list) prog"
  l_append :: "string \<Rightarrow> string \<Rightarrow> 'w \<Rightarrow> 'w option"

text \<open>What a fresh allocation of a result holds.\<close>

record bench_junk =
  k_success_op_ct :: u32
  k_overall :: timing
  k_detail :: "nat \<Rightarrow> timing"

definition fresh_result :: "bench_junk \<Rightarrow> u32 \<Rightarrow> test_result" where
  "fresh_result k blocks_per_thread = \<lparr>r_success_op_ct = k_success_op_ct k, r_overall_timing = k_overall k,
     r_detail_timing = map (k_detail k) [0..<nat (sint blocks_per_thread)]\<rparr>"

text \<open>
  \<^verbatim>\<open>nfs4\<close> is loaded by the first call that names it; \<open>loaded\<close> is the static variable. \<open>None\<close>: the
  database that is used to load it cannot be opened.
\<close>

definition bench_setup :: "'w bench_lib \<Rightarrow> string \<Rightarrow> bool \<Rightarrow> ('w vfs, bool option) prog" where
  "bench_setup lib vfs_name loaded =
     bnd (on_st (on_world (l_srandom lib))) (\<lambda>_.
     bnd (on_st (on_world (l_open lib))) (\<lambda>rc.
     if rc \<noteq> 0 then ret None
     else if vfs_name = ''nfs4'' \<and> \<not> loaded then
       bnd (on_st (on_world (l_enable_load_extension lib))) (\<lambda>rc.
       bnd (require (Exit 1) (rc = 0)) (\<lambda>_.
       bnd (on_st (on_world (l_load_extension lib))) (\<lambda>rc.
       bnd (require (Exit 1) (rc = 0)) (\<lambda>_.
       ret (Some True)))))
     else ret (Some loaded)))"

text \<open>
  \<^verbatim>\<open>results\<close> is an array of \<open>num_threads\<close> pointers; without threads its first element is taken all
  the same.
\<close>

definition bench_run ::
    "sqlite \<Rightarrow> 'w bench_os \<Rightarrow> 'w bench_lib \<Rightarrow> 'w vfs io_methods \<Rightarrow> test_config \<Rightarrow> test_result list \<Rightarrow>
     ('w vfs, test_result list) prog" where
  "bench_run sq bos lib pMethods config results =
     bnd (on_st (gets (\<lambda>s. l_vfs_find lib (s_world s)))) (\<lambda>vfs_find.
     if 1 < length results then
       bnd (seqs (map (\<lambda>_. bnd (on_st (on_world (l_pthread_create lib))) (\<lambda>rc. require (Exit 1) (rc = 0))) results)) (\<lambda>_.
       l_threads lib (map (\<lambda>r. run_test sq bos vfs_find pMethods (config\<lparr>cfg_test_result := r\<rparr>)) results))
     else
       bnd (element results 0) (\<lambda>r.
       bnd (run_test sq bos vfs_find pMethods (config\<lparr>cfg_test_result := r\<rparr>)) (\<lambda>r.
       ret [r])))"

text \<open>
  The result is a pointer to a Python object: null for arguments that do not parse, the number 1
  taken as a pointer when the database cannot be opened.
\<close>

datatype py_object = Py_null | Py_pointer nat | Py_long int

definition benchmark_vfs ::
    "sqlite \<Rightarrow> 'w bench_os \<Rightarrow> 'w bench_lib \<Rightarrow> 'w vfs io_methods \<Rightarrow> (nat \<Rightarrow> bench_junk) \<Rightarrow> bool \<Rightarrow>
     (string \<times> u8 list \<times> u32 \<times> u32 \<times> u32 \<times> string) option \<Rightarrow> ('w vfs, py_object \<times> bool) prog" where
  "benchmark_vfs sq bos lib pMethods junk loaded args =
     (case args of
        None \<Rightarrow> ret (Py_null, loaded)
      | Some (vfs_name, data_path, block_size, blocks_per_thread, num_threads, mode) \<Rightarrow>
        bnd (bench_setup lib vfs_name loaded) (\<lambda>setup.
        case setup of
          None \<Rightarrow> ret (Py_pointer 1, loaded)
        | Some loaded \<Rightarrow>
          let results = map (\<lambda>t. fresh_result (junk t) blocks_per_thread) [0..<nat (sint num_threads)];
              config = \<lparr>cfg_vfs_name = vfs_name, cfg_mode = mode, cfg_data_path = data_path, cfg_block_size = block_size,
                cfg_blocks_per_thread = blocks_per_thread, cfg_test_result = fresh_result (junk 0) blocks_per_thread\<rparr>
          in
          bnd (bench_run sq bos lib pMethods config results) (\<lambda>results.
          bnd (seqs (map (\<lambda>r. bnd (print_perf (scast block_size) (scast blocks_per_thread) (r_overall_timing r)) (\<lambda>_. ret ()))
            results)) (\<lambda>_.
          bnd (save_perf (l_append lib) ''/tmp/perf_log.json'' mode (scast block_size) (scast blocks_per_thread) num_threads results) (\<lambda>_.
          bnd (element results 0) (\<lambda>r.
          ret (Py_long (sint (timing_elapsed_ns (r_overall_timing r))), loaded)))))))"

end
