(* ===== verification/Log_Properties.thy ===== *)
theory Log_Properties
  imports Bench_Log Bench_Properties
begin

text \<open>
  The log of the benchmark measured against JSON: a line of the log is the rendering of an object
  with the parameters and the results of the run, and its time stamps keep every nanosecond.
\<close>

section \<open>Numbers\<close>

text \<open>
  Decimal notation as a reader understands it, independent of how the code prints: the digit at
  position \<open>i\<close> is \<open>n div 10 ^ i mod 10\<close>, and a number is written with as many digits as it has
  places.
\<close>

fun digits_at :: "nat \<Rightarrow> nat \<Rightarrow> string" where
  "digits_at 0 n = []"
| "digits_at (Suc k) n = char_of (48 + n div 10 ^ k mod 10) # digits_at k n"

fun places :: "nat \<Rightarrow> nat" where
  "places n = (if n < 10 then 1 else Suc (places (n div 10)))"

declare places.simps [simp del]

definition number_text :: "nat \<Rightarrow> string" where
  "number_text n = digits_at (places n) n"

text \<open>Seconds with nine decimals.\<close>

definition seconds_text :: "nat \<Rightarrow> nat \<Rightarrow> string" where
  "seconds_text s ns = number_text s @ ''.'' @ digits_at 9 ns"

lemma digits_at_snoc: "digits_at (Suc k) n = digits_at k (n div 10) @ [char_of (48 + n mod 10)]"
  by (induction k) (simp_all add: div_mult2_eq)

lemma length_digits_at [simp]: "length (digits_at k n) = k"
  by (induction k) simp_all

lemma char_zero: "char_of (48 :: nat) = CHR ''0''"
  by code_simp

lemma digits_at_0: "digits_at k 0 = replicate k (CHR ''0'')"
  by (induction k) (simp_all add: char_zero)

lemma dec_string_places: "dec_string n = digits_at (places n) n"
proof (induction n rule: places.induct)
  case (1 n)
  then show ?case
    by (subst dec_string.simps, subst places.simps) (auto simp: digits_at_snoc simp del: digits_at.simps(2))
qed

lemma places_pos: "0 < places n"
  by (subst places.simps) simp

lemma digits_at_pad: "places n \<le> k \<Longrightarrow> digits_at k n = replicate (k - places n) (CHR ''0'') @ digits_at (places n) n"
proof (induction n arbitrary: k rule: places.induct)
  case (1 n)
  then obtain k' where k: "k = Suc k'" using places_pos[of n] by (cases k) auto
  show ?case
  proof (cases "n < 10")
    case True
    then have "digits_at k n = digits_at k' 0 @ [char_of (48 + n)]" by (simp only: k digits_at_snoc) simp
    moreover have "digits_at 1 n = [char_of (48 + n)]" using True by simp
    ultimately show ?thesis using True by (simp add: places.simps[of n] k digits_at_0 del: digits_at.simps(2))
  next
    case False
    have "places (n div 10) \<le> k'" using 1(2) False by (simp add: places.simps[of n] k)
    from 1(1)[OF False this] False show ?thesis by (simp add: places.simps[of n] k digits_at_snoc del: digits_at.simps(2))
  qed
qed

lemma places_less: "n < 10 ^ Suc k \<Longrightarrow> places n \<le> Suc k"
proof (induction k arbitrary: n)
  case 0
  then show ?case by (subst places.simps) simp
next
  case (Suc k)
  then have "places (n div 10) \<le> Suc k" by (simp add: less_mult_imp_div_less mult.commute)
  then show ?case by (subst places.simps) simp
qed

text \<open>What the formats of the code print.\<close>

lemma sint_unat: "unat w < 2 ^ 31 \<Longrightarrow> sint w = int (unat w)" for w :: u32
  using sint_small(2)[of "int (unat w)"] order_trans[of "- 2147483648" 0 "uint w"] by (simp add: unat_less_uint)

lemma fmt_d_number: "unat w < 2 ^ 31 \<Longrightarrow> fmt_d w = number_text (unat w)"
  by (simp only: fmt_d_def number_text_def dec_string_places sint_unat) simp

lemma fmt_09d_digits:
  assumes "unat w < 1000000000"
  shows "fmt_09d w = digits_at 9 (unat w)"
proof -
  have "places (unat w) \<le> 9" using places_less[of "unat w" 8] assms by simp
  moreover have "sint w = int (unat w)" using assms by (intro sint_unat) simp
  ultimately show ?thesis by (simp add: fmt_09d_def dec_string_places digits_at_pad[of _ 9] del: digits_at.simps(2) of_nat_unat)
qed

text \<open>A time of a clock whose seconds fit into 31 bits.\<close>

definition clock_time :: "u64 \<times> u64 \<Rightarrow> bool" where
  "clock_time t \<longleftrightarrow> unat (fst t) < 2 ^ 31 \<and> unat (snd t) < 1000000000"

lemma fmt_time_seconds:
  assumes "clock_time t"
  shows "fmt_time t = seconds_text (unat (fst t)) (unat (snd t))"
proof -
  have u: "unat (ucast w :: u32) = unat w" if "unat w < 2 ^ 31" for w :: u64
    using that by (simp add: unsigned_ucast_eq take_bit_nat_eq_self)
  from assms show ?thesis
    by (simp add: fmt_time_def seconds_text_def clock_time_def u fmt_d_number fmt_09d_digits)
qed

section \<open>JSON\<close>

text \<open>Documents and their text, as RFC 8259 has them.\<close>

datatype json =
    Number nat
  | Seconds nat nat
  | Text string
  | Array "json list"
  | Object "(string \<times> json) list"

fun commas :: "string list \<Rightarrow> string" where
  "commas [] = []"
| "commas [x] = x"
| "commas (x # xs) = x @ '','' @ commas xs"

definition escaped :: "string \<Rightarrow> string" where
  "escaped s = concat (map (\<lambda>c. if c = CHR 0x22 \<or> c = CHR 0x5C then [CHR 0x5C, c] else [c]) s)"

fun render :: "json \<Rightarrow> string" where
  "render (Number n) = number_text n"
| "render (Seconds s ns) = seconds_text s ns"
| "render (Text s) = quote @ escaped s @ quote"
| "render (Array js) = ''['' @ commas (map render js) @ '']''"
| "render (Object kjs) = ''{'' @ commas (map (\<lambda>(k, j). quote @ escaped k @ quote @ '':'' @ render j) kjs) @ ''}''"

definition time_json :: "u64 \<times> u64 \<Rightarrow> json" where
  "time_json t = Seconds (unat (fst t)) (unat (snd t))"

definition detail_json :: "timing \<Rightarrow> json" where
  "detail_json t = Object [(''start_time'', time_json (t_start t)), (''end_time'', time_json (t_end t))]"

definition result_json :: "test_result \<Rightarrow> json" where
  "result_json r = Object
     [(''thread_start_time'', time_json (t_start (r_overall_timing r))),
      (''thread_end_time'', time_json (t_end (r_overall_timing r))),
      (''op_detail'', Array (map detail_json (take (nat (sint (r_success_op_ct r))) (r_detail_timing r))))]"

definition perf_json :: "string \<Rightarrow> u32 \<Rightarrow> u32 \<Rightarrow> u32 \<Rightarrow> test_result list \<Rightarrow> json" where
  "perf_json mode block_size blocks_per_thread num_threads rs = Object
     [(''mode'', Text mode), (''block_size'', Number (unat block_size)),
      (''blocks_per_thread'', Number (unat blocks_per_thread)), (''num_threads'', Number (unat num_threads)),
      (''results'', Array (map result_json rs))]"

text \<open>The times of a result that are logged, and a result that can be logged.\<close>

definition logged_times :: "test_result \<Rightarrow> (u64 \<times> u64) list" where
  "logged_times r = t_start (r_overall_timing r) # t_end (r_overall_timing r) #
     concat (map (\<lambda>t. [t_start t, t_end t]) (take (nat (sint (r_success_op_ct r))) (r_detail_timing r)))"

definition loggable :: "test_result \<Rightarrow> bool" where
  "loggable r \<longleftrightarrow> nat (sint (r_success_op_ct r)) \<le> length (r_detail_timing r) \<and> list_all clock_time (logged_times r)"

lemma log_loop_run:
  assumes "\<And>i s. i < n \<Longrightarrow> item i s = Some (Ok (f i) s)"
  shows "i \<le> n \<Longrightarrow> log_loop item n i s =
    Some (Ok ((if 0 < i \<and> i < n then '','' else []) @ commas (map f [i..<n])) s)"
proof (induction "n - i" arbitrary: i)
  case 0
  then show ?case by (simp add: log_loop.simps)
next
  case (Suc d)
  then have "i < n" by simp
  moreover from this have "[i..<n] = i # [Suc i..<n]" by (simp add: upt_rec)
  moreover have "commas (f i # map f [Suc i..<n]) = f i @ (if Suc i < n then '','' else []) @ commas (map f [Suc i..<n])"
    by (cases "Suc i < n") (simp_all add: upt_conv_Cons)
  ultimately show ?case
    using Suc assms by (subst log_loop.simps) (simp add: bnd_def)
qed

lemma log_loop_list:
  assumes "n \<le> length xs" and "\<And>i s. i < n \<Longrightarrow> item i s = Some (Ok (f (xs ! i)) s)"
  shows "log_loop item n 0 s = Some (Ok (commas (map f (take n xs))) s)"
proof -
  have "map (\<lambda>i. f (xs ! i)) [0..<n] = map f (take n xs)"
    using assms(1) by (auto intro!: nth_equalityI)
  with log_loop_run[of n item "\<lambda>i. f (xs ! i)" 0 s] assms(2) show ?thesis by simp
qed

lemma log_detail_run:
  assumes "i < length (r_detail_timing r)" and "clock_time (t_start (r_detail_timing r ! i))" and "clock_time (t_end (r_detail_timing r ! i))"
  shows "log_detail r i s = Some (Ok (render (detail_json (r_detail_timing r ! i))) s)"
  using assms
  by (simp add: log_detail_def element_def detail_json_def time_json_def log_key_def escaped_def fmt_time_seconds)

lemma logged_detail:
  assumes "loggable r" and "i < nat (sint (r_success_op_ct r))"
  shows "i < length (r_detail_timing r)" and "clock_time (t_start (r_detail_timing r ! i))" and "clock_time (t_end (r_detail_timing r ! i))"
proof -
  show i: "i < length (r_detail_timing r)" using assms by (simp add: loggable_def)
  then have "r_detail_timing r ! i \<in> set (take (nat (sint (r_success_op_ct r))) (r_detail_timing r))"
    using assms(2) by (auto simp: in_set_conv_nth intro!: exI[of _ i])
  then show "clock_time (t_start (r_detail_timing r ! i))" "clock_time (t_end (r_detail_timing r ! i))"
    using assms(1) by (auto simp: loggable_def logged_times_def list_all_iff)
qed

lemma log_thread_run:
  assumes "t < length rs" and l: "loggable (rs ! t)"
  shows "log_thread rs t s = Some (Ok (render (result_json (rs ! t))) s)"
proof -
  let ?r = "rs ! t"
  have "log_loop (log_detail ?r) (nat (sint (r_success_op_ct ?r))) 0 s = Some (Ok (commas (map (render \<circ> detail_json)
      (take (nat (sint (r_success_op_ct ?r))) (r_detail_timing ?r)))) s)"
    by (rule log_loop_list) (use l in \<open>simp_all add: log_detail_run[OF logged_detail[OF l]] loggable_def\<close>)
  moreover have "clock_time (t_start (r_overall_timing ?r))" "clock_time (t_end (r_overall_timing ?r))"
    using l by (simp_all add: loggable_def logged_times_def)
  ultimately show ?thesis
    using assms(1)
    by (simp add: log_thread_def element_def bnd_def result_json_def time_json_def log_key_def escaped_def fmt_time_seconds)
qed

lemma nonneg_u32: "0 \<le> sint w \<Longrightarrow> unat w < 2 ^ 31" for w :: u32
proof -
  assume p: "0 \<le> sint w"
  have l: "sint w < 2 ^ 31" using sint_lt[of w] by simp
  have "unat (word_of_int (sint w) :: u32) = nat (sint w)"
    using p l by (simp only: unat_eq_nat_uint uint_word_of_int) (simp add: take_bit_int_eq_self)
  then show "unat w < 2 ^ 31" using l by simp
qed

lemma save_perf_run:
  assumes "length rs = nat (sint num_threads)" and "escaped mode = mode" and "\<And>r. r \<in> set rs \<Longrightarrow> loggable r"
    and "0 \<le> sint block_size" and "0 \<le> sint blocks" and "0 \<le> sint num_threads"
    and "add file (render (perf_json mode block_size blocks num_threads rs) @ [CHR 0x0A]) (s_world (v_st v)) = Some w"
  shows "save_perf add file mode (scast block_size) (scast blocks) num_threads rs v = Some (Ok () (seen (s_mem (v_st v)) w v))"
proof -
  have "log_loop (log_thread rs) (nat (sint num_threads)) 0 v = Some (Ok (commas (map (render \<circ> result_json) (take (nat (sint num_threads)) rs))) v)"
    by (rule log_loop_list) (use assms(1,3) in \<open>simp_all add: log_thread_run\<close>)
  moreover have "ucast (scast x :: u64) = x" for x :: u32 by (rule bit_word_eqI) (simp add: bit_simps)
  ultimately show ?thesis
    using assms(1,2,7) fmt_d_number[OF nonneg_u32[OF assms(4)]] fmt_d_number[OF nonneg_u32[OF assms(5)]] fmt_d_number[OF nonneg_u32[OF assms(6)]]
    by (simp add: save_perf_def bnd_def on_st_def zoom_def perf_json_def log_key_def escaped_def[of "_ # _"] seen_def)
qed

section \<open>The benchmark\<close>

lemma print_perf_all:
  "seqs (map (\<lambda>r. bnd (print_perf bs n (r_overall_timing r)) (\<lambda>_. ret ())) rs) v =
    (if \<exists>r \<in> set rs. timing_elapsed_ns (r_overall_timing r) = 0 then Some (Crash Div_by_zero) else Some (Ok () v))"
  by (induction rs) (simp_all add: print_perf_def Let_def bnd_def crash_def)

text \<open>C26: Take a call of \<^verbatim>\<open>benchmark_vfs\<close> whose runs have ended with the results \<open>rs\<close>, one for each thread, with
  times below \<open>2 ^ 31\<close> seconds and no more successes than times recorded (\<open>loggable\<close>). If one of
  the threads took no measurable time, the program divides by zero. Otherwise it adds one line to its
  log, the JSON object with the parameters and, for every thread, the times of all operations that
  succeeded, to the nanosecond, and returns the time the first thread took.\<close>

theorem benchmark_vfs_logs:
  assumes prepared: "bench_setup lib vfs_name loaded v = Some (Ok (Some loaded') v1)"
    and run: "bench_run sq bos lib pMethods \<lparr>cfg_vfs_name = vfs_name, cfg_mode = mode, cfg_data_path = data_path,
        cfg_block_size = block_size, cfg_blocks_per_thread = blocks, cfg_test_result = fresh_result (junk 0) blocks\<rparr>
        (map (\<lambda>t. fresh_result (junk t) blocks) [0..<nat (sint num_threads)]) v1 = Some (Ok rs v2)"
    and rs: "length rs = nat (sint num_threads)" "rs \<noteq> []" "\<And>r. r \<in> set rs \<Longrightarrow> loggable r"
    and pars: "escaped mode = mode" "0 \<le> sint block_size" "0 \<le> sint blocks"
    and log: "l_append lib ''/tmp/perf_log.json'' (render (perf_json mode block_size blocks num_threads rs) @ [CHR 0x0A])
        (s_world (v_st v2)) = Some w"
  shows "benchmark_vfs sq bos lib pMethods junk loaded (Some (vfs_name, data_path, block_size, blocks, num_threads, mode)) v =
    (if \<exists>r \<in> set rs. timing_elapsed_ns (r_overall_timing r) = 0 then Some (Crash Div_by_zero)
     else Some (Ok (Py_long (sint (timing_elapsed_ns (r_overall_timing (hd rs)))), loaded') (seen (s_mem (v_st v2)) w v2)))"
proof -
  have "0 \<le> sint num_threads" using rs(1,2) by (cases rs) simp_all
  from prepared run save_perf_run[where add = "l_append lib", OF rs(1) pars(1) rs(3) pars(2,3) this log] rs(2)
  show ?thesis
    by (simp add: print_perf_all benchmark_vfs_def bnd_def[of "bench_setup _ _ _"] bnd_def[of "bench_run _ _ _ _ _ _"]
      bnd_def[of "seqs _"] bnd_def[of "save_perf _ _ _ _ _ _ _"] Let_def element_def hd_conv_nth)
qed

text \<open>A machine whose clock shows the number of reads so far.\<close>

definition count_os :: "u8 list bench_os" where
  "count_os = \<lparr>b_realtime = (\<lambda>w. ((0, word_of_nat (length w)), w)), b_random = (\<lambda>w. (7, w))\<rparr>"

definition count_lib :: "u8 list bench_lib" where
  "count_lib = \<lparr>l_srandom = (\<lambda>w. ((), w)), l_open = (\<lambda>w. (0, w)), l_enable_load_extension = (\<lambda>w. (0, w)),
     l_load_extension = (\<lambda>w. (0, w)), l_vfs_find = (\<lambda>_ _. Some count_vfs), l_pthread_create = (\<lambda>w. (0, w)),
     l_threads = (\<lambda>_. crash Assertion), l_append = (\<lambda>_ _ w. Some w)\<rparr>"

definition count_junk :: "nat \<Rightarrow> bench_junk" where
  "count_junk t = \<lparr>k_success_op_ct = 9, k_overall = \<lparr>t_start = (5, 5), t_end = (5, 5)\<rparr>, k_detail = (\<lambda>_. \<lparr>t_start = (5, 5), t_end = (5, 5)\<rparr>)\<rparr>"

definition count_start :: "u8 list vfs" where
  "count_start = sample_vfs 1 [] []"

lemma count_run:
  "\<exists>v. bench_run sample_sqlite count_os count_lib count_methods
     \<lparr>cfg_vfs_name = ''count'', cfg_mode = ''sr'', cfg_data_path = [], cfg_block_size = 4, cfg_blocks_per_thread = 1,
      cfg_test_result = fresh_result (count_junk 0) 1\<rparr> (map (\<lambda>t. fresh_result (count_junk t) 1) [0..<1]) count_start =
   Some (Ok [\<lparr>r_success_op_ct = 1, r_overall_timing = \<lparr>t_start = (0, 0), t_end = (0, 1)\<rparr>,
     r_detail_timing = [\<lparr>t_start = (0, 0), t_end = (0, 1)\<rparr>]\<rparr>] v)"
  by (simp add: bench_run_def count_lib_def fresh_result_def count_junk_def element_def run_test_def count_vfs_def count_methods_def
    op_sequentially_def bnd_def on_st_def zoom_def bench_malloc_def bench_fill_random_def fill_random_loop.simps
    on_world_def store_mem_run count_os_def count_start_def sample_vfs_def fresh_cells_def seen_def on_overall_def
    sequential_loop.simps on_detail_def timing_start_def timing_finish_def log_op_def)

lemma benchmark_vfs_logs_witness:
  "\<exists>v. benchmark_vfs sample_sqlite count_os count_lib count_methods count_junk False (Some (''count'', [], 4, 1, 1, ''sr'')) count_start =
    Some (Ok (Py_long 1, False) v)"
proof -
  let ?r = "\<lparr>r_success_op_ct = 1, r_overall_timing = \<lparr>t_start = (0, 0), t_end = (0, 1)\<rparr>,
     r_detail_timing = [\<lparr>t_start = (0, 0), t_end = (0, 1)\<rparr>]\<rparr>"
  obtain v where v: "bench_run sample_sqlite count_os count_lib count_methods
     \<lparr>cfg_vfs_name = ''count'', cfg_mode = ''sr'', cfg_data_path = [], cfg_block_size = 4, cfg_blocks_per_thread = 1,
      cfg_test_result = fresh_result (count_junk 0) 1\<rparr> (map (\<lambda>t. fresh_result (count_junk t) 1) [0..<nat (sint (1 :: u32))]) count_start =
      Some (Ok [?r] v)"
    using count_run by auto
  have prep: "bench_setup count_lib ''count'' False count_start = Some (Ok (Some False) count_start)"
    by (simp add: bench_setup_def count_lib_def bnd_def world_step seen_self)
  have e: "timing_elapsed_ns \<lparr>t_start = (0, 0), t_end = (0, 1)\<rparr> = 1"
    by (simp add: timing_elapsed_ns_def signed_modulo_int_def)
  have "benchmark_vfs sample_sqlite count_os count_lib count_methods count_junk False (Some (''count'', [], 4, 1, 1, ''sr'')) count_start =
    Some (Ok (Py_long (sint (timing_elapsed_ns (r_overall_timing (hd [?r])))), False) (seen (s_mem (v_st v)) (s_world (v_st v)) v))"
    using benchmark_vfs_logs[OF prep v, where w = "s_world (v_st v)"]
    by (simp add: e count_lib_def escaped_def loggable_def logged_times_def clock_time_def)
  then show ?thesis by (auto simp: e)
qed

lemma fmt_time_example: "fmt_time (5, 42) = ''5.000000042''"
  by code_simp

end
