(* ===== verification/Recovery.thy ===== *)
theory Recovery
  imports Connection
begin

text \<open>
  What \<^verbatim>\<open>transact\<close> does after a lost session: it sets up a new connection in the buffer \<^verbatim>\<open>reverse\<close>,
  which leaves the request in \<^verbatim>\<open>forward\<close> alone (\<open>spares\<close>), patches the request and sends it again.
\<close>

section \<open>Programs that leave the request alone\<close>

text \<open>\<open>spares Q m\<close>: \<open>m\<close> does not change the buffer \<^verbatim>\<open>forward\<close>, and \<open>Q\<close> holds for what it returns.\<close>

definition spares :: "('a \<Rightarrow> bool) \<Rightarrow> ('w st, 'a) prog \<Rightarrow> bool" where
  "spares Q m \<longleftrightarrow> (\<forall>s. case m s of
      Some (Ok a t) \<Rightarrow> c_forward (s_client t) = c_forward (s_client s) \<and> Q a
    | Some (Err c t) \<Rightarrow> c_forward (s_client t) = c_forward (s_client s)
    | _ \<Rightarrow> True)"

abbreviation unspoilt :: "('w st, 'a) prog \<Rightarrow> bool" where
  "unspoilt \<equiv> spares (\<lambda>_. True)"

named_theorems spare \<open>programs that leave the buffer of the request alone\<close>

lemma sparesD:
  assumes "spares Q m"
  shows "m s = Some (Ok a t) \<Longrightarrow> c_forward (s_client t) = c_forward (s_client s) \<and> Q a"
    and "m s = Some (Err c t) \<Longrightarrow> c_forward (s_client t) = c_forward (s_client s)"
  using assms unfolding spares_def by (auto dest!: spec[of _ s])

lemma sparesI:
  assumes "\<And>s a t. m s = Some (Ok a t) \<Longrightarrow> c_forward (s_client t) = c_forward (s_client s) \<and> Q a"
    and "\<And>s c t. m s = Some (Err c t) \<Longrightarrow> c_forward (s_client t) = c_forward (s_client s)"
  shows "spares Q m"
  unfolding spares_def using assms by (auto split: option.split out.split)

lemma spares_bnd:
  fixes m :: "('w st, 'a) prog"
  assumes "spares Q m" and "\<And>a. Q a \<Longrightarrow> spares R (k a)"
  shows "spares R (bnd m k)"
proof (rule sparesI)
  fix s t :: "'w st" and b assume "bnd m k s = Some (Ok b t)"
  then obtain a u where "m s = Some (Ok a u)" "k a u = Some (Ok b t)" by (rule bnd_OkE)
  with sparesD(1)[OF assms(1)] sparesD(1)[OF assms(2)]
  show "c_forward (s_client t) = c_forward (s_client s) \<and> R b" by metis
next
  fix s t :: "'w st" and c assume "bnd m k s = Some (Err c t)"
  then consider "m s = Some (Err c t)" | a u where "m s = Some (Ok a u)" "k a u = Some (Err c t)"
    by (auto simp: bnd_def split: option.splits out.splits)
  then show "c_forward (s_client t) = c_forward (s_client s)"
    by cases (use sparesD[OF assms(1)] sparesD(2)[OF assms(2)] in metis)+
qed

lemmas unspoilt_bnd [spare] = spares_bnd[where Q = "\<lambda>_. True"]

lemma spares_weaken: "spares Q m \<Longrightarrow> (\<And>a. Q a \<Longrightarrow> R a) \<Longrightarrow> spares R m"
  by (rule sparesI) (auto dest: sparesD)

lemma unspoilt_simple [spare]:
  "unspoilt (ret a)" "unspoilt (err c)" "unspoilt (crash f)" "unspoilt (gets g)" "unspoilt (check c b)"
  "unspoilt (on_world h)" "unspoilt (of_status st)" "unspoilt (nfs_error v)"
  by (auto simp: spares_def check_def on_world_def of_status_def nfs_error_def split: option.split prod.split)

lemma unspoilt_modify [spare]:
  "(\<And>s. c_forward (s_client (f s)) = c_forward (s_client s)) \<Longrightarrow> unspoilt (modify f)"
  by (simp add: spares_def)

lemma unspoilt_set_client [spare]: "(\<And>c. c_forward (f c) = c_forward c) \<Longrightarrow> unspoilt (set_client f)"
  unfolding set_client_def by (rule unspoilt_modify) simp

lemma unspoilt_on_buf [spare]: "w = Reverse \<Longrightarrow> unspoilt (on_buf w m :: ('w st, 'a) prog)"
  unfolding spares_def
proof
  fix s :: "'w st" assume w: "w = Reverse"
  show "case on_buf w m s of Some (Ok a t) \<Rightarrow> c_forward (s_client t) = c_forward (s_client s) \<and> True
    | Some (Err c t) \<Rightarrow> c_forward (s_client t) = c_forward (s_client s) | _ \<Rightarrow> True"
  proof (cases "m (get_buf w (s_client s))")
    case (Some out)
    then show ?thesis using w by (cases out) (simp_all add: on_buf_Ok on_buf_Err on_buf_Crash)
  qed (use w in \<open>simp add: on_buf_def on_client_def zoom_def\<close>)
qed

lemma unspoilt_flag [spare]:
  fixes m :: "('w st, 'a) prog"
  assumes "unspoilt m"
  shows "unspoilt (with_flag b m)"
  unfolding spares_def
proof
  fix s :: "'w st"
  show "case with_flag b m s of Some (Ok a t) \<Rightarrow> c_forward (s_client t) = c_forward (s_client s) \<and> True
    | Some (Err c t) \<Rightarrow> c_forward (s_client t) = c_forward (s_client s) | _ \<Rightarrow> True"
  proof (cases "m (s\<lparr>s_bad := b\<rparr>)")
    case (Some out)
    show ?thesis
    proof (cases out)
      case (Ok a t)
      with Some sparesD(1)[OF assms, of "s\<lparr>s_bad := b\<rparr>" a t] show ?thesis by (simp add: with_flag_def)
    next
      case (Err c t)
      with Some sparesD(2)[OF assms, of "s\<lparr>s_bad := b\<rparr>" c t] show ?thesis by (simp add: with_flag_def)
    qed (use Some in \<open>simp add: with_flag_def\<close>)
  qed (simp add: with_flag_def)
qed

lemma unspoilt_status_of [spare]:
  fixes m :: "('w st, 'a) prog"
  assumes "unspoilt m"
  shows "unspoilt (status_of m)"
  unfolding spares_def
proof
  fix s :: "'w st"
  show "case status_of m s of Some (Ok a t) \<Rightarrow> c_forward (s_client t) = c_forward (s_client s) \<and> True
    | Some (Err c t) \<Rightarrow> c_forward (s_client t) = c_forward (s_client s) | _ \<Rightarrow> True"
  proof (cases "m s")
    case (Some out)
    show ?thesis
    proof (cases out)
      case (Ok a t)
      with Some sparesD(1)[OF assms, of s a t] show ?thesis by (simp add: status_of_def)
    next
      case (Err c t)
      with Some sparesD(2)[OF assms, of s c t] show ?thesis by (simp add: status_of_def)
    qed (use Some in \<open>simp add: status_of_def\<close>)
  qed (simp add: status_of_def)
qed

lemma unspoilt_if [spare]: "(b \<Longrightarrow> unspoilt m) \<Longrightarrow> (\<not> b \<Longrightarrow> unspoilt n) \<Longrightarrow> unspoilt (if b then m else n)"
  by simp

lemma unspoilt_cases [spare]:
  "(\<And>x y. p = (x, y) \<Longrightarrow> unspoilt (f x y)) \<Longrightarrow> unspoilt (case p of (x, y) \<Rightarrow> f x y)"
  "unspoilt n \<Longrightarrow> (\<And>x. unspoilt (g x)) \<Longrightarrow> unspoilt (case v of None \<Rightarrow> n | Some x \<Rightarrow> g x)"
  "(\<And>x. unspoilt (m1 x)) \<Longrightarrow> (\<And>x. unspoilt (m2 x)) \<Longrightarrow> unspoilt (case z of Inl x \<Rightarrow> m1 x | Inr x \<Rightarrow> m2 x)"
  "unspoilt (k l) \<Longrightarrow> unspoilt (let x = l in k x)"
  by (auto split: prod.split option.split sum.split simp: Let_def)

lemma unspoilt_seqs [spare]: "unspoilt (seqs [])" "unspoilt m \<Longrightarrow> unspoilt (seqs ms) \<Longrightarrow> unspoilt (seqs (m # ms))"
  unfolding seqs.simps by (intro spare)+

lemma unspoilt_normalize [spare]:
  assumes "\<And>x c. c_forward (upd x c) = c_forward c"
  shows "unspoilt (normalize field upd x)"
  unfolding normalize_def by (rule unspoilt_set_client) (simp add: assms)

lemma unspoilt_collect [spare]: "unspoilt m \<Longrightarrow> unspoilt (collect n m)"
  by (induction n) (simp_all only: collect.simps, intro spare, intro spare)

text \<open>Steps that build a request in \<^verbatim>\<open>reverse\<close>.\<close>

definition spares_push :: "'w push \<Rightarrow> bool" where
  "spares_push f \<longleftrightarrow> (\<forall>r. r_b r = Reverse \<longrightarrow> spares (\<lambda>r. r_b r = Reverse) (f r))"

lemma spares_push_on_b [spare]: "spares_push (on_b m)"
  unfolding spares_push_def on_b_def by (intro allI impI spares_bnd[OF unspoilt_on_buf]) (simp_all add: spares_def)

lemma spares_push_op [spare]: "spares_push (push_op op)"
  unfolding spares_push_def push_op_def by (intro allI impI spares_bnd[OF unspoilt_on_buf]) (simp_all add: spares_def)

lemma spares_push_update [spare]: "(\<And>c. c_forward (f c) = c_forward c) \<Longrightarrow> spares_push (update_client f)"
  by (simp add: spares_push_def update_client_def spares_def bnd_def)

lemma spares_push_client [spare]: "(\<And>c. spares_push (k c)) \<Longrightarrow> spares_push (from_client k)"
  by (auto simp: spares_push_def from_client_def spares_def split: option.split out.split)

lemma spares_push_chain [spare]:
  "spares_push (chain [])" "spares_push f \<Longrightarrow> spares_push (chain fs) \<Longrightarrow> spares_push (chain (f # fs))"
proof -
  show "spares_push (chain [])" by (simp add: spares_push_def spares_def)
  show "spares_push (chain (f # fs))" if "spares_push f" "spares_push (chain fs)"
    using that unfolding spares_push_def chain.simps by (blast intro: spares_bnd)
qed

lemma unspoilt_allocate: "spares (\<lambda>r. r_b r = Reverse) (allocate_rpc Reverse)"
  unfolding allocate_rpc_def
  by (intro spares_bnd[OF unspoilt_on_buf] spares_bnd[OF unspoilt_set_client] spares_bnd[OF unspoilt_simple(4)])
    (simp_all add: spares_def)

lemma spares_request: "spares_push f \<Longrightarrow> spares (\<lambda>r. r_b r = Reverse) (bnd (allocate_rpc Reverse) f)"
  by (rule spares_bnd[OF unspoilt_allocate]) (simp add: spares_push_def)

lemmas push_defs = push_exchange_id_def exchange_id_args_def push_create_session_def push_client_id_def
  push_channel_attrs_def push_sequence_def push_session_id_def

lemma spares_requests:
  "spares (\<lambda>r. r_b r = Reverse) (exchange_id_request os)" "spares (\<lambda>r. r_b r = Reverse) create_session_request"
  "spares (\<lambda>r. r_b r = Reverse) get_root_fh_request" "spares (\<lambda>r. r_b r = Reverse) reclaim_complete_request"
proof -
  have "unspoilt (fill_random os 16)" unfolding fill_random_def by (intro spare) 
  then have "spares_push (push_exchange_id os)"
    unfolding spares_push_def push_exchange_id_def
    by (intro allI impI spares_bnd[where Q = "\<lambda>_. True"])
      (assumption, unfold exchange_id_args_def, rule spares_push_def[THEN iffD1, rule_format], intro spare, assumption)
  then show "spares (\<lambda>r. r_b r = Reverse) (exchange_id_request os)"
    unfolding exchange_id_request_def by (rule spares_request)
  show "spares (\<lambda>r. r_b r = Reverse) create_session_request"
    unfolding create_session_request_def push_create_session_def push_client_id_def push_channel_attrs_def
    by (intro spares_request spare) simp_all
  show "spares (\<lambda>r. r_b r = Reverse) get_root_fh_request"
    unfolding get_root_fh_request_def push_sequence_def push_session_id_def by (intro spares_request spare) simp_all
  show "spares (\<lambda>r. r_b r = Reverse) reclaim_complete_request"
    unfolding reclaim_complete_request_def push_sequence_def push_session_id_def by (intro spares_request spare) simp_all
qed

section \<open>The new connection\<close>

lemma read_fully_spares:
  assumes "read_fully os fd n off sz mem s = Some out"
  shows "case out of Ok a t \<Rightarrow> s_client t = s_client s | Err c t \<Rightarrow> s_client t = s_client s | Crash f \<Rightarrow> True"
proof (rule read_fully.raw_induct[OF _ assms])
  fix loop :: "'a os \<Rightarrow> int \<Rightarrow> nat \<Rightarrow> nat \<Rightarrow> nat \<Rightarrow> cells \<Rightarrow> 'a st \<Rightarrow> ('a st, nat option \<times> cells) out option"
    and os :: "'a os" and fd n off sz mem s out
  assume IH: "\<And>os fd n off sz mem s out. loop os fd n off sz mem s = Some out \<Longrightarrow>
      case out of Ok a t \<Rightarrow> s_client t = s_client s | Err c t \<Rightarrow> s_client t = s_client s | Crash f \<Rightarrow> True"
    and run: "(if sz < n then case os_read os fd n (s_world s) of
        (None, w) \<Rightarrow> Some (Ok (None, mem) (s\<lparr>s_world := w\<rparr>))
      | (Some bs, w) \<Rightarrow> (case mem_store (off + sz) (cells_of bs) mem of None \<Rightarrow> Some (Crash Out_of_bounds)
          | Some mem' \<Rightarrow> loop os fd n off (sz + length bs) mem' (s\<lparr>s_world := w\<rparr>))
      else Some (Ok (Some sz, mem) s)) = Some out"
  show "case out of Ok a t \<Rightarrow> s_client t = s_client s | Err c t \<Rightarrow> s_client t = s_client s | Crash f \<Rightarrow> True"
    using run by (auto split: if_splits prod.splits option.splits out.splits dest!: IH)
qed

lemma unspoilt_read_fully [spare]: "unspoilt (read_fully os fd n off sz mem)"
  by (rule sparesI) (auto dest: read_fully_spares)

lemma unspoilt_read_response [spare]: "unspoilt (read_response os Reverse)"
  unfolding read_response_def by (intro spare) simp_all

lemma read_until_spares:
  assumes "read_until_loop w which s = Some out"
  shows "w = Reverse \<longrightarrow> (case out of Ok a t \<Rightarrow> c_forward (s_client t) = c_forward (s_client s)
    | Err c t \<Rightarrow> c_forward (s_client t) = c_forward (s_client s) | Crash f \<Rightarrow> True)"
proof (rule read_until_loop.raw_induct[OF _ assms], rule impI)
  fix loop :: "bufref \<Rightarrow> u32 \<Rightarrow> 'a st \<Rightarrow> ('a st, unit) out option" and w which s out
  let ?body = "bnd (on_buf w read_beu32) (\<lambda>op.
       if op = which then ret ()
       else
       bnd (on_buf w read_beu32) (\<lambda>code.
         if code \<noteq> 0 then nfs_error code
         else if op = OP_SEQUENCE then
           bnd (on_buf w (skip (word_of_nat NFS4_SESSIONID_SIZE))) (\<lambda>_.
           bnd (on_buf w read_beu32) (\<lambda>seq.
           bnd (on_buf w (skip 16)) (\<lambda>_. loop w which)))
         else if op = OP_PUTROOTFH then loop w which
         else if op = OP_PUTFH then loop w which
         else if op = OP_LOOKUP then loop w which
         else err ''unhandled scan code''))"
  assume IH: "\<And>w which s out. loop w which s = Some out \<Longrightarrow> w = Reverse \<longrightarrow>
      (case out of Ok a t \<Rightarrow> c_forward (s_client t) = c_forward (s_client s)
       | Err c t \<Rightarrow> c_forward (s_client t) = c_forward (s_client s) | Crash f \<Rightarrow> True)"
    and run: "?body s = Some out" and w: "w = Reverse"
  have "unspoilt (loop w which)" by (rule sparesI) (use w in \<open>auto dest!: IH\<close>)
  then have "unspoilt ?body" using w by (intro spare)
  from sparesD[OF this] run
  show "case out of Ok a t \<Rightarrow> c_forward (s_client t) = c_forward (s_client s)
      | Err c t \<Rightarrow> c_forward (s_client t) = c_forward (s_client s) | Crash f \<Rightarrow> True" by (cases out) auto
qed

lemma unspoilt_read_until [spare]: "unspoilt (read_until Reverse which)"
  unfolding read_until_def
  by (intro spare, simp, rule sparesI) (auto dest!: read_until_spares)

lemma unspoilt_parse_rpc [spare]: "unspoilt (parse_rpc Reverse)"
  unfolding parse_rpc_def by (intro spare) simp_all

lemma unspoilt_receive [spare]: "unspoilt (receive os op Reverse)"
  unfolding receive_def by (intro spare) simp_all

lemma unspoilt_base: "r_b r = Reverse \<Longrightarrow> unspoilt (base_transact os r op Reverse)"
  unfolding base_transact_alt rpc_send_def by (intro spare) simp_all

lemma unspoilt_parsers [spare]:
  "unspoilt (parse_exchange_id Reverse)" "unspoilt (parse_create_session Reverse)" "unspoilt (nfs4_connect os)"
  unfolding parse_exchange_id_def parse_create_session_def nfs4_connect_def by (intro spare; simp)+

lemma unspoilt_call:
  assumes "spares (\<lambda>r. r_b r = Reverse) m" and "\<And>r. r_b r = Reverse \<Longrightarrow> unspoilt (k r)"
  shows "unspoilt (bnd m k)"
  using assms by (rule spares_bnd)

lemma unspoilt_connection_with:
  assumes "\<And>r op. r_b r = Reverse \<Longrightarrow> unspoilt (again r op Reverse)"
  shows "unspoilt (rpc_connection_with os again)"
  unfolding rpc_connection_with_def exchange_id_def create_session_with_def get_root_fh_def reclaim_complete_def
  by (intro spare unspoilt_call[OF spares_requests(1)] unspoilt_call[OF spares_requests(2)] unspoilt_call[OF spares_requests(3)]
      unspoilt_call[OF spares_requests(4)] unspoilt_base assms) simp_all

lemma unspoilt_replay: "r_b r = Reverse \<Longrightarrow> unspoilt (replay_rpc r)"
  unfolding replay_rpc_def Let_def by (intro spare) simp_all

lemma transact_loop_spares:
  assumes "transact_loop os r op w tries st s = Some out"
  shows "r_b r = Reverse \<and> w = Reverse \<longrightarrow> (case out of Ok a t \<Rightarrow> c_forward (s_client t) = c_forward (s_client s)
    | Err c t \<Rightarrow> c_forward (s_client t) = c_forward (s_client s) | Crash f \<Rightarrow> True)"
proof (rule transact_loop.raw_induct[OF _ assms], rule impI)
  fix loop :: "'a os \<Rightarrow> rpc \<Rightarrow> u32 \<Rightarrow> bufref \<Rightarrow> nat \<Rightarrow> string option \<Rightarrow> 'a st \<Rightarrow> ('a st, unit) out option"
    and os r op w tries st s out
  let ?body = "bnd (status_of (base_transact os r op w)) (\<lambda>st.
        bnd (gets s_bad) (\<lambda>bad.
          if bad then
            bnd (rpc_connection_with os (\<lambda>r op w. with_flag True (loop os r op w 0 None))) (\<lambda>_.
            bnd (replay_rpc r) (\<lambda>_.
            loop os r op w (Suc tries) st))
          else loop os r op w tries st))"
  assume IH: "\<And>os r op w tries st s out. loop os r op w tries st s = Some out \<Longrightarrow> r_b r = Reverse \<and> w = Reverse \<longrightarrow>
      (case out of Ok a t \<Rightarrow> c_forward (s_client t) = c_forward (s_client s)
       | Err c t \<Rightarrow> c_forward (s_client t) = c_forward (s_client s) | Crash f \<Rightarrow> True)"
    and run: "(if tries < 2 \<and> s_bad s then ?body s else of_status st s) = Some out"
    and r: "r_b r = Reverse \<and> w = Reverse"
  have loop: "unspoilt (loop os r op Reverse tries st)" if "r_b r = Reverse" for os r op tries st
    by (rule sparesI) (use that in \<open>auto dest!: IH\<close>)
  have "unspoilt ?body"
    using r by (auto intro!: spare unspoilt_base loop unspoilt_replay unspoilt_connection_with)
  moreover have "unspoilt (of_status st)" by (rule spare)
  ultimately show "case out of Ok a t \<Rightarrow> c_forward (s_client t) = c_forward (s_client s)
      | Err c t \<Rightarrow> c_forward (s_client t) = c_forward (s_client s) | Crash f \<Rightarrow> True"
    using run sparesD[of "\<lambda>_. True" ?body s] sparesD[of "\<lambda>_. True" "of_status st" s]
    by (cases out) (auto split: if_splits)
qed

lemma unspoilt_connection: "unspoilt (rpc_connection os)"
  unfolding rpc_connection_knot
proof (rule unspoilt_connection_with)
  fix r :: rpc and op assume r: "r_b r = Reverse"
  have "unspoilt (transact_loop os r op Reverse 0 None)"
    by (rule sparesI) (use r in \<open>auto dest!: transact_loop_spares\<close>)
  then show "unspoilt (transact os r op Reverse)" unfolding transact_def by (rule spare)
qed

section \<open>A lost session\<close>

text \<open>
  \<open>lost_session os lost W\<close>: the server has forgotten the session \<open>lost\<close>; to every request that begins
  with a \<^verbatim>\<open>SEQUENCE\<close> on it, it answers \<^verbatim>\<open>NFS4ERR_BADSESSION\<close>. \<open>reconnects os h N W\<close>: a client of
  the host \<open>h\<close> can always set up a connection, and gets one of the sessions \<open>N\<close>. The worlds stay in \<open>W\<close>.
\<close>

definition lost_session :: "'w os \<Rightarrow> cells \<Rightarrow> 'w set \<Rightarrow> bool" where
  "lost_session os lost W \<longleftrightarrow> (\<forall>w \<in> W. \<forall>fd x mark t n rest. length mark = 4 \<longrightarrow> length t = 80 \<longrightarrow>
     (\<exists>w' \<in> W. responds os fd (mark @ x32 x @ t @ x32 n @ x32 OP_SEQUENCE @ lost @ rest)
        (refusal x NFS4ERR_BADSESSION []) w w'))"

definition reconnects :: "'w os \<Rightarrow> buffer \<Rightarrow> cells set \<Rightarrow> 'w set \<Rightarrow> bool" where
  "reconnects os h N W \<longleftrightarrow> (\<forall>s. idle (s_client s) \<longrightarrow> c_hostname (s_client s) = h \<longrightarrow> s_world s \<in> W \<longrightarrow>
     (\<exists>d. reaches (rpc_connection os) s d W \<and> c_hostname d = h \<and> c_session d \<in> N))"

text \<open>The request in \<^verbatim>\<open>forward\<close>, with the transaction of the client, on the lost session.\<close>

definition holds_request :: "cells \<Rightarrow> client \<Rightarrow> bool" where
  "holds_request lost c \<longleftrightarrow> (\<exists>mark t stale rest. length mark = 4 \<and> length t = 80 \<and> length stale = 4 \<and>
     rep (c_forward c) (mark @ x32 (c_xid c) @ t @ stale @ x32 OP_SEQUENCE @ lost @ rest))"

lemma codestring_bad_session: "codestring nfsstatus NFS4ERR_BADSESSION = Some ''bad session''"
  by (simp add: nfsstatus_def NFS4ERR_BADSESSION_def)

lemma apart_hostname: "apart c d \<Longrightarrow> c_hostname c = c_hostname d"
  by (erule apart_field) (simp add: bare_def)

lemma idle_forward: "idle c \<Longrightarrow> rep b msg \<Longrightarrow> 92 \<le> length msg \<Longrightarrow> idle (c\<lparr>c_forward := b\<rparr>)"
  using ready_rep[of b msg c Forward] ready_other[of Reverse Forward b c]
  by (simp add: idle_def) (auto simp: ready_def)

text \<open>An attempt on the lost session.\<close>

lemma attempt_refused:
  assumes c: "idle (s_client s)" "holds_request lost (s_client s)" and W: "s_world s \<in> W" "lost_session os lost W"
  obtains d w where "base_transact os \<lparr>r_opcountloc = 88, r_opcount = k, r_b = Forward\<rparr> op Reverse s =
      Some (Err ''bad session'' (s\<lparr>s_client := d, s_bad := True, s_world := w\<rparr>))"
    and "w \<in> W" and "idle d" and "apart d (s_client s)" and "holds_request lost d"
proof -
  let ?c = "s_client s" and ?r = "\<lparr>r_opcountloc = 88, r_opcount = k, r_b = Forward\<rparr>"
  obtain mark t stale rest where h: "length mark = 4" "length t = 80" "length stale = 4"
      "rep (c_forward ?c) (mark @ (x32 (c_xid ?c) @ t) @ stale @ x32 OP_SEQUENCE @ lost @ rest)"
    using c(2) unfolding holds_request_def by auto
  define m where "m = x32 (0x80000000 + word_of_nat (88 + length (x32 OP_SEQUENCE @ lost @ rest)))"
  let ?msg = "m @ (x32 (c_xid ?c) @ t) @ x32 k @ x32 OP_SEQUENCE @ lost @ rest"
  have m: "length m = 4" by (simp add: m_def)
  have "sends os Forward (rpc_send os ?r) s ?msg ?c"
    by (rule rpc_send_any[where hdr = "x32 (c_xid ?c) @ t" and body = "x32 OP_SEQUENCE @ lost @ rest", OF refl _ h(1) _ h(3)])
      (use h in \<open>simp_all add: m_def\<close>)
  moreover obtain w2 where w2: "w2 \<in> W" "responds os (c_fd ?c) ?msg (refusal (c_xid ?c) NFS4ERR_BADSESSION []) (s_world s) w2"
    using W m h(2) unfolding lost_session_def append_assoc by blast
  then obtain w1 where w1: "os_write os (c_fd ?c) ?msg (s_world s) = (int (length ?msg), w1)"
      "answers os (c_fd ?c) (refusal (c_xid ?c) NFS4ERR_BADSESSION []) w1 w2"
    unfolding responds_def by blast
  ultimately obtain b where b: "rep b ?msg" "rpc_send os ?r s = Some (Ok () (s\<lparr>s_client := ?c\<lparr>c_forward := b\<rparr>, s_world := w1\<rparr>))"
    by (auto simp: sends_def Let_def)
  let ?s1 = "s\<lparr>s_client := ?c\<lparr>c_forward := b\<rparr>, s_world := w1\<rparr>"
  have i1: "idle (s_client ?s1)" using idle_forward[OF c(1) b(1)] h(2) m by simp
  have len: "length (refusal (c_xid ?c) NFS4ERR_BADSESSION []) \<le> limit"
    by (simp add: refusal_def reply_head_def limit_def)
  have "\<exists>b2 s'. receive os op Reverse ?s1 = Some (Err ''bad session'' s') \<and>
      at Reverse s' (received Reverse b2 w2 (NFS4ERR_BADSESSION = NFS4ERR_BADSESSION) ?s1) [] \<and>
      wf_buf b2 \<and> b_capacity (get_buf Reverse (s_client ?s1)) \<le> b_capacity b2"
    by (rule receive_refused) (use w1(2) len idle_wf[OF i1, of Reverse] codestring_bad_session in
        \<open>simp_all add: NFS4_OK_def NFS4ERR_BADSESSION_def\<close>)
  then obtain b2 s' where r: "receive os op Reverse ?s1 = Some (Err ''bad session'' s')"
      "at Reverse s' (received Reverse b2 w2 True ?s1) []" "wf_buf b2" "b_capacity (c_reverse ?c) \<le> b_capacity b2"
    by auto
  have "idle (s_client (received Reverse b2 w2 True ?s1))" using idle_received[OF i1 r(3), of Reverse] r(4) by simp
  with r(2) obtain d where d: "s' = (received Reverse b2 w2 True ?s1)\<lparr>s_client := d\<rparr>" "apart d (s_client (received Reverse b2 w2 True ?s1))" "idle d"
    by (rule at_idle)
  have a: "apart d ?c" using d(2) apart_set_buf[of Reverse b2 "?c\<lparr>c_forward := b\<rparr>" ?c] apart_set_buf[of Forward b ?c ?c]
    by (simp add: apart_def bare_def)
  have s': "s' = s\<lparr>s_client := d, s_bad := True, s_world := w2\<rparr>" unfolding d(1) by (simp add: received_def)
  have "c_forward (s_client s') = c_forward (s_client ?s1)" by (rule sparesD(2)[OF unspoilt_receive r(1)])
  then have "rep (c_forward d) (m @ x32 (c_xid d) @ t @ x32 k @ x32 OP_SEQUENCE @ lost @ rest)"
    using b(1) s' apart_fields(2)[OF a] by simp
  then have "holds_request lost d" unfolding holds_request_def using m h(2) by (metis length_x32)
  moreover have "base_transact os ?r op Reverse s = Some (Err ''bad session'' s')"
    unfolding base_transact_alt using r(1) b(2) by (simp add: bnd_Ok[where m = "rpc_send os ?r", OF b(2)])
  ultimately show thesis using that w2(1) d(3) a s' by blast
qed

text \<open>The new connection and the patched request.\<close>

lemma reconnected:
  assumes c: "idle (s_client s)" "holds_request lost (s_client s)" "c_hostname (s_client s) = h"
    and W: "s_world s \<in> W" "reconnects os h N W"
  obtains d w where "bnd (rpc_connection os) (\<lambda>_. replay_rpc \<lparr>r_opcountloc = 88, r_opcount = k, r_b = Forward\<rparr>) s =
      Some (Ok () (s\<lparr>s_client := d, s_world := w\<rparr>))"
    and "w \<in> W" and "idle d" and "c_hostname d = h" and "c_session d \<in> N" and "holds_request lost d"
proof -
  let ?r = "\<lparr>r_opcountloc = 88, r_opcount = k, r_b = Forward\<rparr>"
  obtain d0 where d0: "reaches (rpc_connection os) s d0 W" "c_hostname d0 = h" "c_session d0 \<in> N"
    using W c unfolding reconnects_def by blast
  then obtain w d where d: "w \<in> W" "rpc_connection os s = Some (Ok () (s\<lparr>s_client := d, s_world := w\<rparr>))"
      "apart d d0" "idle d" by (auto simp: reaches_def leaves_def)
  let ?s = "s\<lparr>s_client := d, s_world := w\<rparr>"
  have f: "c_forward d = c_forward (s_client s)"
    using sparesD(1)[OF unspoilt_connection d(2)] by simp
  obtain mark t stale rest x where h: "length mark = 4" "length t = 80" "length stale = 4"
      "rep (c_forward d) (mark @ x32 x @ t @ stale @ x32 OP_SEQUENCE @ lost @ rest)"
    using c(2) unfolding holds_request_def f by auto
  let ?msg = "mark @ x32 x @ t @ stale @ x32 OP_SEQUENCE @ lost @ rest"
  have sess: "length (c_session d) = 16" using d(4) by (simp add: idle_def ready_def wf_client_def size_defs)
  obtain b where b: "replay_rpc ?r ?s = Some (Ok () (?s\<lparr>s_client := set_buf Forward b (replayed d)\<rparr>))"
      "rep b (patched d ?msg)"
    using replay_run[of ?r ?s ?msg] h sess by auto
  let ?d = "(replayed d)\<lparr>c_forward := b\<rparr>"
  let ?t = "take 52 t @ c_session d @ x32 (c_sequence d) @ drop 72 t"
  have p: "patched d ?msg = mark @ x32 (c_xid ?d) @ ?t @ stale @ x32 OP_SEQUENCE @ lost @ rest"
    using h(1-3) by (simp add: patched_def replayed_def)
  have t: "length ?t = 80" using h(2) sess by simp
  have "bufless replayed" unfolding bufless_def wf_client_def replayed_def by (intro conjI allI; case_tac w; simp)
  then have "idle ?d" using idle_forward[OF idle_update[OF _ d(4)] b(2)] h(1-3) p t by simp
  moreover have "rep (c_forward ?d) (mark @ x32 (c_xid ?d) @ ?t @ stale @ x32 OP_SEQUENCE @ lost @ rest)"
    using b(2)[unfolded p] by simp
  then have "holds_request lost ?d" using h(1,3) t unfolding holds_request_def by blast
  moreover have "c_hostname ?d = h" "c_session ?d \<in> N"
    using apart_hostname[OF d(3)] apart_fields(3)[OF d(3)] d0 by (simp_all add: replayed_def)
  moreover have "bnd (rpc_connection os) (\<lambda>_. replay_rpc ?r) s = Some (Ok () (s\<lparr>s_client := ?d, s_world := w\<rparr>))"
    using b(1) by (simp add: bnd_Ok[where m = "rpc_connection os", OF d(2)])
  ultimately show thesis using that d(1) by blast
qed

text \<open>\<^verbatim>\<open>transact\<close> tries twice, and reports the error of the second attempt.\<close>

lemma transact_fails:
  assumes c: "idle (s_client s)" "holds_request lost (s_client s)" "c_hostname (s_client s) = h"
    and W: "s_world s \<in> W" "lost_session os lost W" "reconnects os h N W"
  obtains d w where "transact os \<lparr>r_opcountloc = 88, r_opcount = k, r_b = Forward\<rparr> op Reverse s =
      Some (Err ''bad session'' (s\<lparr>s_client := d, s_world := w\<rparr>))"
    and "w \<in> W" and "idle d" and "c_session d \<in> N"
proof -
  let ?r = "\<lparr>r_opcountloc = 88, r_opcount = k, r_b = Forward\<rparr>" and ?loop = "\<lambda>n. transact_loop os \<lparr>r_opcountloc = 88, r_opcount = k, r_b = Forward\<rparr> op Reverse n"
  have round: "\<exists>d w. ?loop n st (s\<lparr>s_client := c, s_bad := True, s_world := v\<rparr>) =
        ?loop (Suc n) (Some ''bad session'') (s\<lparr>s_client := d, s_bad := True, s_world := w\<rparr>) \<and>
      w \<in> W \<and> idle d \<and> holds_request lost d \<and> c_hostname d = h \<and> c_session d \<in> N"
    if n: "n < 2" and v: "idle c" "holds_request lost c" "c_hostname c = h" "v \<in> W" for n st c v
  proof -
    let ?s = "s\<lparr>s_client := c, s_bad := True, s_world := v\<rparr>"
    obtain d1 w1 where 1: "base_transact os ?r op Reverse ?s = Some (Err ''bad session'' (?s\<lparr>s_client := d1, s_bad := True, s_world := w1\<rparr>))"
        "w1 \<in> W" "idle d1" "apart d1 c" "holds_request lost d1"
      by (rule attempt_refused[of ?s lost W os]) (use v W in auto)
    let ?s1 = "s\<lparr>s_client := d1, s_bad := True, s_world := w1\<rparr>"
    obtain d2 w2 where 2: "bnd (rpc_connection os) (\<lambda>_. replay_rpc ?r) ?s1 = Some (Ok () (?s1\<lparr>s_client := d2, s_world := w2\<rparr>))"
        "w2 \<in> W" "idle d2" "c_hostname d2 = h" "c_session d2 \<in> N" "holds_request lost d2"
      by (rule reconnected[of ?s1 lost h W os N]) (use 1 v W apart_hostname[OF 1(4)] in auto)
    have "status_of (base_transact os ?r op Reverse) ?s = Some (Ok (Some ''bad session'') ?s1)"
      using 1(1) by (simp add: status_of_def)
    then have "?loop n st ?s = bnd (rpc_connection os) (\<lambda>_. bnd (replay_rpc ?r) (\<lambda>_. ?loop (Suc n) (Some ''bad session''))) ?s1"
      using n by (subst transact_loop_step) (simp add: bnd_Ok[where m = "status_of (base_transact os ?r op Reverse)"] rpc_connection_knot)
    also have "\<dots> = bnd (bnd (rpc_connection os) (\<lambda>_. replay_rpc ?r)) (\<lambda>_. ?loop (Suc n) (Some ''bad session'')) ?s1"
      by (simp add: bnd_assoc)
    also have "\<dots> = ?loop (Suc n) (Some ''bad session'') (s\<lparr>s_client := d2, s_bad := True, s_world := w2\<rparr>)"
      by (subst bnd_Ok[where m = "bnd (rpc_connection os) (\<lambda>_. replay_rpc ?r)", OF 2(1)]) simp
    finally show ?thesis using 2 by blast
  qed
  have s: "s\<lparr>s_bad := True\<rparr> = s\<lparr>s_client := s_client s, s_bad := True, s_world := s_world s\<rparr>" by simp
  obtain d1 w1 where 1: "?loop 0 None (s\<lparr>s_bad := True\<rparr>) = ?loop 1 (Some ''bad session'') (s\<lparr>s_client := d1, s_bad := True, s_world := w1\<rparr>)"
      "w1 \<in> W" "idle d1" "holds_request lost d1" "c_hostname d1 = h"
    using round[of 0 "s_client s" "s_world s" None] c W(1) unfolding s by auto
  obtain d2 w2 where 2: "?loop 1 (Some ''bad session'') (s\<lparr>s_client := d1, s_bad := True, s_world := w1\<rparr>) =
        ?loop 2 (Some ''bad session'') (s\<lparr>s_client := d2, s_bad := True, s_world := w2\<rparr>)"
      "w2 \<in> W" "idle d2" "c_session d2 \<in> N"
    using round[of 1 d1 w1 "Some ''bad session''"] 1 by (auto simp: numeral_2_eq_2)
  have "?loop 2 (Some ''bad session'') (s\<lparr>s_client := d2, s_bad := True, s_world := w2\<rparr>) =
      Some (Err ''bad session'' (s\<lparr>s_client := d2, s_bad := True, s_world := w2\<rparr>))"
    by (subst transact_loop_step) (simp add: of_status_def)
  with 1(1) 2(1) have "?loop 0 None (s\<lparr>s_bad := True\<rparr>) = Some (Err ''bad session'' (s\<lparr>s_client := d2, s_bad := True, s_world := w2\<rparr>))"
    by simp
  then have "transact os ?r op Reverse s = Some (Err ''bad session'' (s\<lparr>s_client := d2, s_world := w2\<rparr>))"
    unfolding transact_def with_flag_def by (cases s) simp
  with that 2 show thesis by blast
qed

lemma file_request_lost:
  assumes c: "idle (s_client s)" "c_hostname (s_client s) = h" and f: "wf_file (s_file s)"
    and e: "emits (s_heap s, s_file s) (chain gs) (\<lambda>c. x_op (op c)) 1 (\<lambda>c. c)"
    and len: "300 + length (x_op (op (used_slot (s_client s)))) \<le> limit"
    and W: "s_world s \<in> W" "lost_session os (c_session (s_client s)) W" "reconnects os h N W"
  obtains d w where "bnd (bnd (file_rpc os) (chain gs)) (\<lambda>r. bnd (transact os r code Reverse) k) s =
      Some (Err ''bad session'' (s\<lparr>s_client := d, s_world := w\<rparr>))"
    and "w \<in> W" and "idle d" and "c_session d \<in> N"
proof -
  let ?c = "s_client s" and ?r = "\<lparr>r_opcountloc = 88, r_opcount = 3, r_b = Forward\<rparr>"
  obtain b stale where b: "bnd (file_rpc os) (chain gs) s = Some (Ok ?r (s\<lparr>s_client := set_buf Forward b (used_slot ?c)\<rparr>))"
      "rep b (x32 0 @ call_header (c_xid ?c + 1) @ stale @ concat (map x_op (file_ops (s_file s) op ?c)))" "length stale = 4"
    using file_request_built[OF idle_ready[OF c(1)] f e len] by metis
  let ?d = "(used_slot ?c)\<lparr>c_forward := b\<rparr>" and ?s = "s\<lparr>s_client := (used_slot (s_client s))\<lparr>c_forward := b\<rparr>\<rparr>"
  obtain t where t: "call_header (c_xid ?c + 1) = x32 (c_xid ?c + 1) @ t" "length t = 80"
  proof -
    obtain t where "call_header (c_xid ?c + 1) = x32 (c_xid ?c + 1) @ t" by (simp add: call_header_def)
    moreover from arg_cong[OF this, of length] have "length t = 80" by simp
    ultimately show thesis using that by blast
  qed
  have "x_op (op_sequence ?c) = x32 OP_SEQUENCE @ c_session ?c @ drop 20 (x_op (op_sequence ?c))"
    using idle_wf[OF c(1)] c(1) by (simp add: op_sequence_def xfixed_def idle_def ready_def wf_client_def size_defs)
  then obtain rest where "concat (map x_op (file_ops (s_file s) op ?c)) = x32 OP_SEQUENCE @ c_session ?c @ rest"
    unfolding file_ops_def by (metis append_assoc concat.simps(2) list.simps(9))
  with b(2) t have rep: "rep b (x32 0 @ x32 (c_xid ?c + 1) @ t @ stale @ x32 OP_SEQUENCE @ c_session ?c @ rest)" by simp
  have 1: "holds_request (c_session ?c) (s_client ?s)"
    unfolding holds_request_def using rep t(2) b(3)
    by (intro exI[of _ "x32 0"] exI[of _ t] exI[of _ stale] exI[of _ rest]) simp
  have 2: "idle (s_client ?s)" using idle_forward[OF idle_used_slot[OF c(1)] rep] b(3) t(2) by simp
  have 3: "c_hostname (s_client ?s) = h" using c(2) by (simp add: used_slot_def)
  obtain d w where d: "transact os ?r code Reverse ?s = Some (Err ''bad session'' (?s\<lparr>s_client := d, s_world := w\<rparr>))"
      "w \<in> W" "idle d" "c_session d \<in> N"
    by (rule transact_fails[OF 2 1 3 _ W(2,3)]) (use W(1) in simp_all)
  have "bnd (bnd (file_rpc os) (chain gs)) (\<lambda>r. bnd (transact os r code Reverse) k) s = bnd (transact os ?r code Reverse) k ?s"
    using b(1) by (simp add: bnd_Ok[where m = "bnd (file_rpc os) (chain gs)"])
  with d that show thesis by (simp add: bnd_Err[where m = "transact os ?r code Reverse"])
qed

end
