(* ===== verification/Recovery_Properties.thy ===== *)
theory Recovery_Properties
  imports Recovery Sample
begin

text \<open>
  What becomes of a call when the server has forgotten the session: the client connects again, but
  the call fails.
\<close>

text \<open>C11: The recovery from a lost session does not recover the call. The server answers requests on the
  session it lost with \<^verbatim>\<open>NFS4ERR_BADSESSION\<close>, and gives the client a new session whenever it
  connects: \<^verbatim>\<open>read_chunk\<close> returns with that error all the same, since the request that is sent
  again still names the old session; the caller's memory is unchanged and the client has one of the
  new sessions \<open>N\<close> and is ready for the next call.\<close>

theorem lost_session_not_recovered:
  assumes "idle (s_client s)" and "wf_file (s_file s)" and "s_world s \<in> W"
    and "lost_session os (c_session (s_client s)) W" and "reconnects os (c_hostname (s_client s)) N W"
  shows "\<exists>c w. read_chunk os dest off n s = Some (Err ''bad session'' (s\<lparr>s_client := c, s_world := w\<rparr>)) \<and>
    idle c \<and> c_session c \<in> N \<and> w \<in> W"
proof -
  let ?gs = "[push_op OP_READ, from_file (\<lambda>f. push_stateid (f_latest_sid f)), on_b (push_be64 off), on_b (push_be32 n)]"
  have e: "emits (s_heap s, s_file s) (chain ?gs) (\<lambda>c. x_op (Read (f_latest_sid (s_file s)) off n)) 1 (\<lambda>c. c)"
    by (rule emits_cong, (rule emit wf_fileD assms(2))+) simp_all
  have len: "300 + length (x_op (Read (f_latest_sid (s_file s)) off n)) \<le> limit"
    by (simp add: length_x_stateid wf_fileD assms(2) limit_def)
  show ?thesis
    unfolding read_chunk_def read_request_def
    by (rule file_request_lost[where op = "\<lambda>_. Read (f_latest_sid (s_file s)) off n", OF assms(1) refl assms(2) e len assms(3-5)])
      blast
qed

section \<open>A server that restarts\<close>

text \<open>
  It answers the handshake with the session \<open>new\<close> and refuses the session \<open>old\<close>. The world is what is still to
  be read from the socket.
\<close>

definition new_sess :: "u8 list" where
  "new_sess = replicate 16 8"

definition restarted :: "u8 list \<Rightarrow> cells \<Rightarrow> u8 list" where
  "restarted old msg =
     (let x = of_be32 (bytes_at 4 4 msg); at32 = (\<lambda>off. of_be32 (bytes_at off 4 msg)) in
      if at32 92 = OP_EXCHANGE_ID then reply x [] OP_EXCHANGE_ID 0 (replicate 8 9 @ be32 1 @ be32 0)
      else if at32 92 = OP_CREATE_SESSION then
        reply x [] OP_CREATE_SESSION 0 (session_reply new_sess 1 0 0 1024 1024 1024 16 16 0 [])
      else if bytes_at 96 16 msg = old then refusal x NFS4ERR_BADSESSION []
      else if at32 128 = OP_PUTROOTFH then
        reply x [Past_sequence new_sess 1 (replicate 16 0), Past_putrootfh] OP_GETFH 0 (be32 4 @ [1, 2, 3, 4])
      else reply x [Past_sequence new_sess 1 (replicate 16 0)] OP_RECLAIM_COMPLETE 0 [])"

definition restarted_os :: "u8 list \<Rightarrow> u8 list os" where
  "restarted_os old = tape_os\<lparr>os_write := \<lambda>fd msg w. (int (length msg), framed (restarted old msg))\<rparr>"

lemma restarted_responds:
  assumes "restarted old msg = payload" and "payload \<noteq> []" and "length payload < 2 ^ 31"
  shows "responds (restarted_os old) fd msg payload [] []"
proof -
  let ?os = "restarted_os old" and ?mark = "0x80000000 OR word_of_nat (length payload) :: u32"
  have "delivers ?os fd 4 (be32 ?mark) (framed payload) payload"
    by (intro delivers_once) (simp_all add: restarted_os_def tape_os_def framed_def, simp add: be32_def)
  moreover have "delivers ?os fd (length payload) payload payload []"
    using assms(2) by (intro delivers_once) (simp_all add: restarted_os_def tape_os_def)
  ultimately show ?thesis
    unfolding responds_def answers_def using frame_mark[OF assms(3)] assms(1) by (auto simp: restarted_os_def)
qed

lemma restarted_awaits:
  assumes "restarted old msg = reply x ds op 0 rest" and "list_all wf_past ds"
    and "length (reply x ds op 0 rest) \<le> limit"
  shows "awaits (restarted_os old) fd {[]} msg x op rest {[]}"
proof -
  have "reply x ds op 0 rest \<noteq> []" by (simp add: reply_def reply_head_def be32_def)
  then have "responds (restarted_os old) fd msg (reply x ds op 0 rest) [] []"
    using assms(3) by (intro restarted_responds[OF assms(1)]) (simp_all add: limit_def)
  then show ?thesis using assms by (auto simp: awaits_def answered_def)
qed

lemma request_fields:
  assumes "length mark = 4" and "length t = 80"
  shows "bytes_at 4 4 (mark @ x32 x @ t @ x32 n @ x32 code @ rest) = be32 x"
    and "bytes_at 92 4 (mark @ x32 x @ t @ x32 n @ x32 code @ rest) = be32 code"
    and "length sess = 16 \<Longrightarrow> bytes_at 96 16 (mark @ x32 x @ t @ x32 n @ x32 code @ cells_of sess @ rest) = sess"
  using assms by (simp_all add: bytes_at_def x32_def)

lemma x_call_fields:
  obtains mark t where "x_call x (o1 # ops) = mark @ x32 x @ t @ x32 (word_of_nat (length (o1 # ops))) @ x_op o1 @ concat (map x_op ops)"
    and "length mark = 4" and "length t = 80"
proof -
  obtain t where t: "call_header x = x32 x @ t" by (simp add: call_header_def)
  from arg_cong[OF this, of length] have "length t = 80" by simp
  with t that show thesis by (simp add: x_call_def Let_def)
qed

lemma restarted_sequence:
  assumes "length sess = 16" and "sess \<noteq> old" and "x_op o2 = x32 code @ args"
  shows "restarted old (x_call x (Sequence (cells_of sess) sq 0 0 False # o2 # ops)) =
    (if code = OP_PUTROOTFH then
        reply x [Past_sequence new_sess 1 (replicate 16 0), Past_putrootfh] OP_GETFH 0 (be32 4 @ [1, 2, 3, 4])
      else reply x [Past_sequence new_sess 1 (replicate 16 0)] OP_RECLAIM_COMPLETE 0 [])"
proof -
  let ?msg = "x_call x (Sequence (cells_of sess) sq 0 0 False # o2 # ops)"
  obtain mark t where m: "?msg = mark @ x32 x @ t @ x32 (word_of_nat (Suc (Suc (length ops)))) @ x32 OP_SEQUENCE @
        cells_of sess @ (x32 sq @ x32 0 @ x32 0 @ xbool False) @ x32 code @ args @ concat (map x_op ops)"
      and l: "length mark = 4" "length t = 80"
    using x_call_fields[of x "Sequence (cells_of sess) sq 0 0 False" "o2 # ops"] assms(1,3)
    by (auto simp: xfixed_def fill_def)
  have "bytes_at 128 4 ?msg = be32 code" unfolding m using l assms(1) by (simp add: bytes_at_def x32_def)
  then show ?thesis
    unfolding restarted_def Let_def unfolding m request_fields[OF l] request_fields(3)[OF l assms(1)]
    using assms(2) by (simp add: be_inverse OP_SEQUENCE_def OP_EXCHANGE_ID_def OP_CREATE_SESSION_def)
qed

lemma x_call_code:
  assumes "x_op o1 = x32 code @ args"
  shows "of_be32 (bytes_at 4 4 (x_call x (o1 # ops))) = x" and "of_be32 (bytes_at 92 4 (x_call x (o1 # ops))) = code"
proof -
  obtain mark t where m: "x_call x (o1 # ops) = mark @ x32 x @ t @ x32 (word_of_nat (length (o1 # ops))) @ x32 code @ args @ concat (map x_op ops)"
      and l: "length mark = 4" "length t = 80"
    by (rule x_call_fields[of x o1 ops]) (simp add: assms)
  show "of_be32 (bytes_at 4 4 (x_call x (o1 # ops))) = x" "of_be32 (bytes_at 92 4 (x_call x (o1 # ops))) = code"
    unfolding m request_fields[OF l] by (simp_all add: be_inverse)
qed

lemma restarted_first:
  "restarted old (x_call x [op_exchange_id name c]) = reply x [] OP_EXCHANGE_ID 0 (replicate 8 9 @ be32 1 @ be32 0)"
  "restarted old (x_call x [op_create_session c]) =
     reply x [] OP_CREATE_SESSION 0 (session_reply new_sess 1 0 0 1024 1024 1024 16 16 0 [])"
proof -
  have e: "x_op (op_exchange_id name c) = x32 OP_EXCHANGE_ID @ drop 4 (x_op (op_exchange_id name c))"
    by (simp add: op_exchange_id_def)
  have k: "x_op (op_create_session c) = x32 OP_CREATE_SESSION @ drop 4 (x_op (op_create_session c))"
    by (simp add: op_create_session_def)
  show "restarted old (x_call x [op_exchange_id name c]) = reply x [] OP_EXCHANGE_ID 0 (replicate 8 9 @ be32 1 @ be32 0)"
    unfolding restarted_def Let_def x_call_code[OF e] by simp
  show "restarted old (x_call x [op_create_session c]) =
     reply x [] OP_CREATE_SESSION 0 (session_reply new_sess 1 0 0 1024 1024 1024 16 16 0 [])"
    unfolding restarted_def Let_def x_call_code[OF k] by (simp add: OP_EXCHANGE_ID_def OP_CREATE_SESSION_def)
qed

lemma restarted_loses:
  assumes "length old = 16"
  shows "lost_session (restarted_os old) (cells_of old) {[]}"
  unfolding lost_session_def
proof (intro ballI allI impI)
  fix w :: "u8 list" and fd x and mark t rest :: cells and n
  assume w: "w \<in> {[]}" and l: "length mark = 4" "length t = 80"
  let ?msg = "mark @ x32 x @ t @ x32 n @ x32 OP_SEQUENCE @ cells_of old @ rest"
  have "restarted old ?msg = refusal x NFS4ERR_BADSESSION []"
    unfolding restarted_def Let_def request_fields[OF l] request_fields(3)[OF l assms]
    by (simp add: be_inverse OP_SEQUENCE_def OP_EXCHANGE_ID_def OP_CREATE_SESSION_def)
  then have "responds (restarted_os old) fd ?msg (refusal x NFS4ERR_BADSESSION []) [] []"
    by (rule restarted_responds) (simp_all add: refusal_def reply_head_def be32_def)
  with w show "\<exists>w' \<in> {[]}. responds (restarted_os old) fd ?msg (refusal x NFS4ERR_BADSESSION []) w w'" by simp
qed

lemma restarted_connects:
  assumes "old \<noteq> new_sess" and "c_string (b_contents h) = Inr name"
  shows "reconnects (restarted_os old) h {cells_of new_sess} {[]}"
  unfolding reconnects_def
proof (intro allI impI)
  fix s :: "u8 list st" assume s: "idle (s_client s)" "c_hostname (s_client s) = h" "s_world s \<in> {[]}"
  let ?os = "restarted_os old"
  let ?c1 = "connected [127, 0, 0, 1] 1 (s_client s)"
  let ?c2 = "identified (replicate 8 9) 1 ?c1"
  let ?c3 = "session_limits (cells_of new_sess) 1024 1024 16 16 (session_started ?c2)"
  let ?c4 = "rooted [1, 2, 3, 4] (used_slot ?c3)"
  have sess: "c_session ?c3 = cells_of new_sess" "c_session ?c4 = cells_of new_sess" by (simp_all add: session_limits_def rooted_def used_slot_def)
  have l: "length new_sess = 16" "new_sess \<noteq> old" using assms(1) by (auto simp: new_sess_def)
  have a: "awaits ?os 1 {[]} (x_call x [op_exchange_id name c]) x OP_EXCHANGE_ID (replicate 8 9 @ be32 1 @ be32 0 @ []) {[]}"
      "awaits ?os 1 {[]} (x_call x [op_create_session c]) x OP_CREATE_SESSION
        (session_reply new_sess 1 0 0 1024 1024 1024 16 16 0 []) {[]}" for x c name
    by (rule restarted_awaits, simp add: restarted_first, simp, simp add: reply_def reply_head_def session_reply_def limit_def new_sess_def)+
  have b: "awaits ?os 1 {[]} (x_call x [op_sequence ?c3, Putrootfh, Getfh]) x OP_GETFH
        (be32 (word_of_nat (length [1, 2, 3, 4 :: u8])) @ [1, 2, 3, 4] @ []) {[]}" for x
    by (rule restarted_awaits[where ds = "[Past_sequence new_sess 1 (replicate 16 0), Past_putrootfh]"])
      (simp_all add: op_sequence_def sess restarted_sequence[OF l, of Putrootfh OP_PUTROOTFH "[]"] l reply_def reply_head_def limit_def)
  have c: "awaits ?os 1 {[]} (x_call x [op_sequence ?c4, Reclaim_complete False]) x OP_RECLAIM_COMPLETE [] {[]}" for x
    by (rule restarted_awaits[where ds = "[Past_sequence new_sess 1 (replicate 16 0)]"])
      (simp_all add: op_sequence_def sess restarted_sequence[OF l, of "Reclaim_complete False" OP_RECLAIM_COMPLETE "xbool False"] l
        reply_def reply_head_def limit_def OP_RECLAIM_COMPLETE_def OP_PUTROOTFH_def)
  have "reaches (rpc_connection ?os) s (used_slot ?c4) {[]}"
    by (rule rpc_connection_ok[where name = name and fd = 1 and addr = "[127, 0, 0, 1]", OF s(1) _ _ _ refl _ _ _ refl a(1) _ refl a(2) l(1) refl b _ refl c])
      (use s assms(2) in \<open>simp_all add: restarted_os_def tape_os_def size_defs\<close>)
  moreover have "c_hostname (used_slot ?c4) = h" "c_session (used_slot ?c4) = cells_of new_sess"
    using s(2) sess(2) by (simp_all add: used_slot_def rooted_def session_limits_def session_started_def identified_def next_call_def connected_def)
  ultimately show "\<exists>d. reaches (rpc_connection ?os) s d {[]} \<and> c_hostname d = h \<and> c_session d \<in> {cells_of new_sess}" by auto
qed

lemma lost_session_not_recovered_witness:
  "\<exists>c. read_chunk (restarted_os (replicate 16 3)) 0 0 4
      ((sample_st 1 [0, 0, 0, 0] [])\<lparr>s_client := (sample_client 1)\<lparr>c_hostname := host_name [104]\<rparr>\<rparr>) =
    Some (Err ''bad session'' ((sample_st 1 [0, 0, 0, 0] [])\<lparr>s_client := c\<rparr>)) \<and> c_session c = cells_of new_sess"
proof -
  let ?c = "(sample_client 1)\<lparr>c_hostname := host_name [104]\<rparr>"
  let ?s = "(sample_st 1 [0, 0, 0, 0] [])\<lparr>s_client := ?c\<rparr>"
  have i: "idle ?c" using idle_sample[of 1] by (simp add: idle_def ready_def wf_client_def)
  have "\<exists>c w. read_chunk (restarted_os (replicate 16 3)) 0 0 4 ?s = Some (Err ''bad session'' (?s\<lparr>s_client := c, s_world := w\<rparr>)) \<and>
      idle c \<and> c_session c \<in> {cells_of new_sess} \<and> w \<in> {[]}"
  proof (rule lost_session_not_recovered)
    show "lost_session (restarted_os (replicate 16 3)) (c_session (s_client ?s)) {[]}"
      using restarted_loses[of "replicate 16 3"] by simp
    have "replicate 16 (3 :: u8) \<noteq> new_sess" by (simp add: new_sess_def)
    moreover have "c_string (b_contents (c_hostname (s_client ?s))) = Inr [104]" by (simp add: host_name_def)
    ultimately show "reconnects (restarted_os (replicate 16 3)) (c_hostname (s_client ?s)) {cells_of new_sess} {[]}"
      by (rule restarted_connects)
  qed (use i in simp_all)
  then obtain c where "read_chunk (restarted_os (replicate 16 3)) 0 0 4 ?s = Some (Err ''bad session'' (?s\<lparr>s_client := c, s_world := []\<rparr>))"
      "c_session c = cells_of new_sess" by blast
  moreover have "?s\<lparr>s_client := c, s_world := []\<rparr> = (sample_st 1 [0, 0, 0, 0] [])\<lparr>s_client := c\<rparr>" for c
    by (simp add: sample_st_def)
  ultimately show ?thesis by metis
qed

end
