(* ===== verification/Threads.thy ===== *)
theory Threads
  imports Files
begin

text \<open>
  Threads that share a client, as those of the benchmark do when they open their files on the same
  server. Nothing in the code keeps their calls apart. A call is split where it waits for the
  socket: \<open>read_begin\<close> builds and sends the request of \<^verbatim>\<open>read_chunk\<close>, \<open>read_end\<close> receives the
  reply and copies the data; \<open>thread_step\<close> runs one of these steps of any thread. A lost session or a failed write ends the thread's run here.
\<close>

definition read_begin :: "'w os \<Rightarrow> u64 \<Rightarrow> u32 \<Rightarrow> ('w st, unit) prog" where
  "read_begin os offset count = bnd (read_request os offset count) (rpc_send os)"

definition read_result :: "nat \<Rightarrow> ('w st, unit) prog" where
  "read_result dest =
     bnd (on_buf Reverse (skip 4)) (\<lambda>_.
     bnd (on_buf Reverse read_beu32) (\<lambda>len.
     bnd (on_buf Reverse (load_start (unat len))) (\<lambda>xs.
     bnd (gets (\<lambda>s. mem_store dest xs (s_mem s))) (\<lambda>mem.
     case mem of
       None \<Rightarrow> crash Out_of_bounds
     | Some mem \<Rightarrow> modify (\<lambda>s. s\<lparr>s_mem := mem\<rparr>)))))"

definition read_end :: "'w os \<Rightarrow> nat \<Rightarrow> ('w st, unit) prog" where
  "read_end os dest = bnd (receive os OP_READ Reverse) (\<lambda>_. read_result dest)"

text \<open>Without a lost session the two steps make up \<^verbatim>\<open>read_chunk\<close>.\<close>

lemma read_chunk_steps:
  assumes "read_request os off n s = Some (Ok r s0)" and "rpc_send os r (s0\<lparr>s_bad := True\<rparr>) = Some (Ok () s1)"
    and "receive os OP_READ Reverse s1 = Some (Ok () s2)" and "\<not> s_bad s2"
  shows "read_chunk os dest off n s = read_result dest (s2\<lparr>s_bad := s_bad s0\<rparr>)"
proof -
  have "base_transact os r OP_READ Reverse (s0\<lparr>s_bad := True\<rparr>) = Some (Ok () s2)"
    unfolding base_transact_alt using assms(2,3) by (simp add: bnd_Ok[where m = "rpc_send os r"])
  from transact_Ok[OF this assms(4)] show ?thesis
    unfolding read_chunk_def read_result_def[symmetric] using assms(1)
    by (simp add: bnd_Ok[where m = "read_request os off n"] bnd_Ok[where m = "transact os r OP_READ Reverse"])
qed

section \<open>Steps of threads\<close>

datatype phase = Waiting | Sent | Finished | Failed string

record call_args =
  a_dest :: nat
  a_offset :: u64
  a_count :: u32

inductive thread_step ::
    "'w os \<Rightarrow> (nat \<Rightarrow> call_args) \<Rightarrow> 'w st \<times> (nat \<Rightarrow> phase) \<Rightarrow> 'w st \<times> (nat \<Rightarrow> phase) \<Rightarrow> bool" for os args where
  send: "ph i = Waiting \<Longrightarrow> read_begin os (a_offset (args i)) (a_count (args i)) s = Some (Ok () t) \<Longrightarrow>
    thread_step os args (s, ph) (t, ph(i := Sent))"
| finish: "ph i = Sent \<Longrightarrow> read_end os (a_dest (args i)) s = Some (Ok () t) \<Longrightarrow>
    thread_step os args (s, ph) (t, ph(i := Finished))"
| fail: "ph i = Sent \<Longrightarrow> read_end os (a_dest (args i)) s = Some (Err c t) \<Longrightarrow> \<not> s_bad t \<Longrightarrow>
    thread_step os args (s, ph) (t, ph(i := Failed c))"

abbreviation thread_steps ::
    "'w os \<Rightarrow> (nat \<Rightarrow> call_args) \<Rightarrow> 'w st \<times> (nat \<Rightarrow> phase) \<Rightarrow> 'w st \<times> (nat \<Rightarrow> phase) \<Rightarrow> bool" where
  "thread_steps os args \<equiv> (thread_step os args)\<^sup>*\<^sup>*"

section \<open>The steps of a call\<close>

definition read_msg :: "nfs_file \<Rightarrow> client \<Rightarrow> call_args \<Rightarrow> cells" where
  "read_msg f c a = x_call (c_xid c + 1) [op_sequence c, Putfh (handle f), Read (f_latest_sid f) (a_offset a) (a_count a)]"

lemma read_begin_ok:
  assumes c: "idle (s_client s)" and f: "wf_file (s_file s)"
    and wr: "os_write os (c_fd (s_client s)) (read_msg (s_file s) (s_client s) a) (s_world s) =
      (int (length (read_msg (s_file s) (s_client s) a)), w)"
  obtains c' where "read_begin os (a_offset a) (a_count a) s = Some (Ok () (s\<lparr>s_client := c', s_world := w\<rparr>))"
    and "apart c' (used_slot (s_client s))" and "idle c'"
proof -
  let ?msg = "read_msg (s_file s) (s_client s) a"
  have "sends os Forward (read_begin os (a_offset a) (a_count a)) s ?msg (used_slot (s_client s))"
    unfolding read_begin_def read_msg_def by (rule read_request_sends[OF idle_ready[OF c] f])
  then obtain b where b: "rep b ?msg"
      "read_begin os (a_offset a) (a_count a) s = Some (Ok () (s\<lparr>s_client := set_buf Forward b (used_slot (s_client s)), s_world := w\<rparr>))"
    using wr by (auto simp: sends_def Let_def)
  have "92 \<le> length ?msg" unfolding read_msg_def by (rule long_x_call)
  then have "idle (set_buf Forward b (used_slot (s_client s)))"
    using idle_used_slot[OF c] ready_rep[OF b(1), of "used_slot (s_client s)" Forward] ready_other[of Reverse Forward b "used_slot (s_client s)"]
    by (auto simp: idle_def ready_def)
  moreover have "apart (set_buf Forward b (used_slot (s_client s))) (used_slot (s_client s))"
    by (simp only: apart_set_buf apart_refl)
  ultimately show thesis using that[OF b(2)] by blast
qed

lemma fails_verify:
  assumes "u \<noteq> v"
  shows "fails w (on_buf w (verify_and_adv v)) t (be32 u @ bs) ''encoding mismatch'' t bs"
  by (rule fails_refines[OF refines_on_buf[OF parses_verify]]) (use assms in \<open>simp add: bytes_left_def zoom_def expect32_def bnd_def\<close>)

text \<open>The reply to another request.\<close>

lemma read_end_mismatch:
  assumes c: "idle (s_client s)" and x: "x \<noteq> c_xid (s_client s)"
    and ans: "answers os (c_fd (s_client s)) (reply x ds op 0 rest) (s_world s) w" and len: "length (reply x ds op 0 rest) \<le> limit"
  obtains c' where "read_end os dest s = Some (Err ''encoding mismatch'' (s\<lparr>s_client := c', s_bad := False, s_world := w\<rparr>))"
    and "apart c' (s_client s)" and "idle c'"
proof -
  obtain b s1 where b: "receive os OP_READ Reverse s = bnd (parse_rpc Reverse) (\<lambda>_. bnd (read_until Reverse OP_READ) (\<lambda>_.
      bnd (on_buf Reverse read_beu32) (\<lambda>code. if code = 0 then ret () else nfs_error code))) s1"
      "at Reverse s1 (received Reverse b w (s_bad s) s) (reply x ds op 0 rest)"
      "wf_buf b" "b_capacity (get_buf Reverse (s_client s)) \<le> b_capacity b"
    using receive_reads[OF ans idle_wf[OF c] len] .
  let ?t = "received Reverse b w (s_bad s) s" and ?u = "received Reverse b w False s"
  obtain bs where bs: "reply x ds op 0 rest = be32 x @ bs" by (simp add: reply_def reply_head_def)
  have xid: "goes Reverse (gets (\<lambda>s. c_xid (s_client s))) ?u (be32 x @ bs) (c_xid (s_client s)) ?u (be32 x @ bs)"
    using goes_client[of c_xid Reverse ?u "be32 x @ bs"] by simp
  have "fails Reverse (parse_rpc Reverse) ?t (be32 x @ bs) ''encoding mismatch'' ?u bs"
    unfolding parse_rpc_def
    by (rule fails_bnd_later[OF goes_modify[OF bufless_flag]], unfold received_bad, rule fails_bnd_later[OF xid],
        rule fails_bnd_here, rule fails_verify[OF x])
  from failsD[OF this b(2)[unfolded bs]] obtain s2 where
    s2: "parse_rpc Reverse s1 = Some (Err ''encoding mismatch'' s2)" "at Reverse s2 ?u bs" by blast
  have "idle (s_client ?u)" by (rule idle_received[OF c b(3,4)])
  with s2(2) obtain c' where c': "s2 = ?u\<lparr>s_client := c'\<rparr>" "apart c' (s_client ?u)" "idle c'" by (rule at_idle)
  have "read_end os dest s = Some (Err ''encoding mismatch'' s2)"
    unfolding read_end_def b(1) bnd_Err
    by (simp add: bnd_Err[where m = "receive os OP_READ Reverse"] b(1) bnd_Err[where m = "parse_rpc Reverse", OF s2(1)])
  moreover have "s2 = s\<lparr>s_client := c', s_bad := False, s_world := w\<rparr>" unfolding c'(1) by (simp add: received_def)
  moreover have "apart c' (s_client s)" using c'(2) apart_set_buf[of Reverse b "s_client s" "s_client s"]
    by (simp add: received_def apart_def)
  ultimately show thesis using that[of c'] c'(3) by blast
qed

text \<open>The reply with the number of the last request.\<close>

lemma read_end_ok:
  assumes c: "idle (s_client s)" and mem: "dest + length got \<le> length (s_mem s)" and n: "length got < 2 ^ 32"
    and ans: "answers os (c_fd (s_client s)) (reply (c_xid (s_client s)) ds OP_READ 0
      (be32 eof @ be32 (word_of_nat (length got)) @ got)) (s_world s) w"
    and len: "length (reply (c_xid (s_client s)) ds OP_READ 0 (be32 eof @ be32 (word_of_nat (length got)) @ got)) \<le> limit"
    and ds: "list_all wf_past ds"
  obtains t where "read_end os dest s = Some (Ok () t)"
    and "s_mem t = take dest (s_mem s) @ cells_of got @ drop (dest + length got) (s_mem s)"
proof -
  let ?rest = "be32 eof @ be32 (word_of_nat (length got)) @ got"
  let ?mem = "take dest (s_mem s) @ cells_of got @ drop (dest + length got) (s_mem s)"
  have "OP_READ \<notin> stepped_over" by (simp add: stepped_over_def step_ops OP_READ_def)
  from receive_ok[OF ans idle_wf[OF c] len ds this] obtain b s1 where
    s1: "receive os OP_READ Reverse s = Some (Ok () s1)" "at Reverse s1 (received Reverse b w False s) ?rest" by blast
  let ?t = "received Reverse b w False s"
  have u: "length got = unat (word_of_nat (length got) :: u32)" using n by (simp add: unat_of_nat_small)
  have st: "mem_store dest (cells_of got) (s_mem ?t) = Some ?mem" using mem by (simp add: mem_store_def)
  have "goes Reverse (read_result dest) ?t ?rest () (?t\<lparr>s_mem := ?mem\<rparr>) (got @ [])"
    unfolding read_result_def
  proof (rule goes_bnd[OF goes_skip[of "be32 eof"]], simp, rule goes_bnd[OF goes_read32], subst append_Nil2[of got, symmetric],
      rule goes_bnd[OF goes_load[OF u]], rule goes_bnd[OF goes_gets])
    have "beside (\<lambda>s. s\<lparr>s_mem := ?mem\<rparr>)" by (simp add: beside_def)
    from goes_modify[OF this, of Reverse ?t "got @ []"]
    show "goes Reverse (case mem_store dest (cells_of got) (s_mem ?t) of
        None \<Rightarrow> crash Out_of_bounds | Some mem \<Rightarrow> modify (\<lambda>s. s\<lparr>s_mem := mem\<rparr>)) ?t (got @ []) () (?t\<lparr>s_mem := ?mem\<rparr>) (got @ [])"
      using st by simp
  qed simp
  from goesD[OF this s1(2)] obtain t where t: "read_result dest s1 = Some (Ok () t)" "at Reverse t (?t\<lparr>s_mem := ?mem\<rparr>) (got @ [])" by blast
  have "s_mem t = ?mem" using t(2) by (auto simp: at_def)
  with t(1) that show thesis by (simp add: read_end_def bnd_Ok[where m = "receive os OP_READ Reverse", OF s1(1)])
qed

end
