(* ===== verification/Thread_Properties.thy ===== *)
theory Thread_Properties
  imports Threads Sample
begin

text \<open>What may happen to two threads that read through the same client.\<close>

definition read_answer :: "u32 \<Rightarrow> past list \<Rightarrow> u32 \<Rightarrow> u8 list \<Rightarrow> u8 list" where
  "read_answer x ds eof got = reply x ds OP_READ 0 (be32 eof @ be32 (word_of_nat (length got)) @ got)"

text \<open>C12: Two threads that share a client can get each other's data. The first thread sends its request,
  the second sends one before the reply is there; the server answers both in order. If the second
  thread reads first it takes the first reply for a wrong one and fails, and the first thread then
  finds the second reply, which has the number the client counted last, and copies what the second
  thread asked for into its own buffer.\<close>

theorem crossed_replies:
  assumes c: "idle (s_client s)" and f: "wf_file (s_file s)"
    and send1: "os_write os (c_fd (s_client s)) (read_msg (s_file s) (s_client s) (args 1)) (s_world s) =
      (int (length (read_msg (s_file s) (s_client s) (args 1))), w1)"
    and send2: "os_write os (c_fd (s_client s)) (read_msg (s_file s) (used_slot (s_client s)) (args 2)) w1 =
      (int (length (read_msg (s_file s) (used_slot (s_client s)) (args 2))), w2)"
    and reply1: "answers os (c_fd (s_client s)) (read_answer (c_xid (s_client s) + 1) ds1 eof1 got1) w2 w3"
      "length (read_answer (c_xid (s_client s) + 1) ds1 eof1 got1) \<le> limit"
    and reply2: "answers os (c_fd (s_client s)) (read_answer (c_xid (s_client s) + 2) ds2 eof2 got2) w3 w4"
      "length (read_answer (c_xid (s_client s) + 2) ds2 eof2 got2) \<le> limit" "list_all wf_past ds2"
    and mem: "a_dest (args 1) + length got2 \<le> length (s_mem s)"
  shows "\<exists>t. thread_steps os args (s, \<lambda>_. Waiting)
      (t, (\<lambda>_. Waiting)(1 := Finished, 2 := Failed ''encoding mismatch'')) \<and>
    s_mem t = take (a_dest (args 1)) (s_mem s) @ cells_of got2 @ drop (a_dest (args 1) + length got2) (s_mem s)"
proof -
  let ?c = "s_client s" and ?ph = "\<lambda>_ :: nat. Waiting"
  obtain c1 where 1: "read_begin os (a_offset (args 1)) (a_count (args 1)) s = Some (Ok () (s\<lparr>s_client := c1, s_world := w1\<rparr>))"
      "apart c1 (used_slot ?c)" "idle c1"
    by (rule read_begin_ok[OF c f send1])
  let ?s1 = "s\<lparr>s_client := c1, s_world := w1\<rparr>"
  note a1 = apart_fields[OF 1(2)]
  have m: "read_msg (s_file s) c1 a = read_msg (s_file s) (used_slot ?c) a" for a
    by (simp add: read_msg_def a1 apart_ops(1)[OF 1(2)])
  obtain c2 where 2: "read_begin os (a_offset (args 2)) (a_count (args 2)) ?s1 = Some (Ok () (?s1\<lparr>s_client := c2, s_world := w2\<rparr>))"
      "apart c2 (used_slot c1)" "idle c2"
    by (rule read_begin_ok[of ?s1 os "args 2" w2]) (use 1(3) f send2 m a1 in simp_all)
  let ?s2 = "s\<lparr>s_client := c2, s_world := w2\<rparr>"
  have x2: "c_xid c2 = c_xid ?c + 2" "c_fd c2 = c_fd ?c" using apart_fields(1,2)[OF 2(2)] a1(1,2) by simp_all
  obtain c3 where 3: "read_end os (a_dest (args 2)) ?s2 = Some (Err ''encoding mismatch'' (?s2\<lparr>s_client := c3, s_bad := False, s_world := w3\<rparr>))"
      "apart c3 c2" "idle c3"
    by (rule read_end_mismatch[of ?s2 "c_xid ?c + 1" os ds1 OP_READ "be32 eof1 @ be32 (word_of_nat (length got1)) @ got1" w3])
      (use 2(3) x2 reply1 in \<open>simp_all add: read_answer_def\<close>)
  let ?s3 = "?s2\<lparr>s_client := c3, s_bad := False, s_world := w3\<rparr>"
  have x3: "c_xid c3 = c_xid ?c + 2" "c_fd c3 = c_fd ?c" using apart_fields(1,2)[OF 3(2)] x2 by simp_all
  have n: "length got2 < 2 ^ 32" using reply2(2) by (simp add: read_answer_def reply_def limit_def)
  obtain t where t: "read_end os (a_dest (args 1)) ?s3 = Some (Ok () t)"
      "s_mem t = take (a_dest (args 1)) (s_mem s) @ cells_of got2 @ drop (a_dest (args 1) + length got2) (s_mem s)"
    by (rule read_end_ok[of ?s3 "a_dest (args 1)" got2 os ds2 eof2 w4])
      (use 3(3) x3 n mem reply2 in \<open>simp_all add: read_answer_def\<close>)
  have "thread_step os args (s, ?ph) (?s1, ?ph(1 := Sent))" using send[of ?ph 1 os args s] 1(1) by simp
  moreover have "thread_step os args (?s1, ?ph(1 := Sent)) (?s2, ?ph(1 := Sent, 2 := Sent))"
    using send[of "?ph(1 := Sent)" 2 os args ?s1] 2(1) by simp
  moreover have "thread_step os args (?s2, ?ph(1 := Sent, 2 := Sent)) (?s3, ?ph(1 := Sent, 2 := Failed ''encoding mismatch''))"
    using fail[of "?ph(1 := Sent, 2 := Sent)" 2 os args ?s2] 3(1) by simp
  moreover have "thread_step os args (?s3, ?ph(1 := Sent, 2 := Failed ''encoding mismatch''))
      (t, ?ph(1 := Finished, 2 := Failed ''encoding mismatch''))"
    using finish[of "?ph(1 := Sent, 2 := Failed ''encoding mismatch'')" 1 os args ?s3 t] t(1) by (simp add: fun_upd_twist)
  ultimately have "thread_steps os args (s, ?ph) (t, ?ph(1 := Finished, 2 := Failed ''encoding mismatch''))"
    by (meson rtranclp.rtrancl_into_rtrancl rtranclp.rtrancl_refl)
  with t(2) show ?thesis by blast
qed

lemma crossed_replies_witness:
  "\<exists>t. thread_steps tape_os (\<lambda>i. \<lparr>a_dest = 2 * (i - 1), a_offset = word_of_nat i, a_count = 2\<rparr>)
      (sample_st 1 [0, 0, 0, 0] (framed (read_answer 6 [] 0 [1, 1]) @ framed (read_answer 7 [] 0 [2, 2])), \<lambda>_. Waiting)
      (t, (\<lambda>_. Waiting)(1 := Finished, 2 := Failed ''encoding mismatch'')) \<and> s_mem t = cells_of [2, 2, 0, 0]"
proof -
  let ?a = "\<lambda>i :: nat. \<lparr>a_dest = 2 * (i - 1), a_offset = word_of_nat i, a_count = 2\<rparr>"
  let ?r1 = "read_answer 6 [] 0 [1, 1]" and ?r2 = "read_answer 7 [] 0 [2, 2]"
  let ?s = "sample_st 1 [0, 0, 0, 0] (framed ?r1 @ framed ?r2)"
  have l: "length (read_answer x [] 0 [b, b]) = 54" for x b by (simp add: read_answer_def reply_def reply_head_def)
  have ans: "answers tape_os 1 p (framed p @ w) w" if "length p = 54" for p w
  proof -
    have "p \<noteq> []" using that by auto
    from tape_responds[OF this, of 1 "[]" w] that show ?thesis by (auto simp: responds_def tape_os_def)
  qed
  have ans1: "answers tape_os 1 ?r2 (framed ?r2) []" using ans[of ?r2 "[]"] l by simp
  have wr: "os_write tape_os fd msg w = (int (length msg), w)" for fd msg w by (simp add: tape_os_def)
  have "\<exists>t. thread_steps tape_os ?a (?s, \<lambda>_. Waiting) (t, (\<lambda>_. Waiting)(1 := Finished, 2 := Failed ''encoding mismatch'')) \<and>
      s_mem t = take (a_dest (?a 1)) (s_mem ?s) @ cells_of [2, 2] @ drop (a_dest (?a 1) + length [2, 2 :: u8]) (s_mem ?s)"
    by (rule crossed_replies[where ?w1.0 = "framed ?r1 @ framed ?r2" and ?w2.0 = "framed ?r1 @ framed ?r2" and ?w3.0 = "framed ?r2"
        and ?w4.0 = "[]" and ?got1.0 = "[1, 1]" and ?eof1.0 = 0 and ?eof2.0 = 0 and ?ds1.0 = "[]" and ?ds2.0 = "[]"])
      (use ans ans1 l wr in \<open>simp_all add: limit_def\<close>)
  then show ?thesis by simp
qed

end
