(* ===== verification/Spec2Isabelle.thy ===== *)
theory Spec2Isabelle
  imports Foundations File_Properties Session_Properties Lock_Properties Vfs_Properties Bench_Properties Log_Properties
    Recovery_Properties Thread_Properties
begin

text \<open>
  A verification library for the NFS version 4.1 client of \<^verbatim>\<open>ssqlite\<close> (directory
  \<^verbatim>\<open>src/nfsv4\<close>), which SQLite loads as a virtual file system (VFS). The program is written in C,
  for a little-endian machine with 64-bit pointers.

  \<^bold>\<open>The program.\<close> SQLite calls the methods of \<^verbatim>\<open>nfs4.c\<close>. They translate a path into a vector of
  components (\<^verbatim>\<open>vector.h\<close>), reads and writes into chunks of the negotiated size and lock levels into
  byte-range locks; each of these becomes one remote call of \<^verbatim>\<open>client.c\<close> and \<^verbatim>\<open>rpc.c\<close>: a request
  is built in the buffer \<^verbatim>\<open>forward\<close> (or \<^verbatim>\<open>reverse\<close>) with the encoders of \<^verbatim>\<open>xdr.c\<close>, sent over
  the socket, and its reply is read into \<^verbatim>\<open>reverse\<close> and parsed. A session with the server is set
  up in five steps when the first file is opened (\<^verbatim>\<open>rpc_connection\<close>) and again whenever a call
  reports that it was lost (\<^verbatim>\<open>transact\<close>).

  \<^bold>\<open>How code becomes definitions.\<close> A function of C is a \<open>('s, 'a) prog\<close>, a function from the state
  to one of: a value and a new state (\<open>Ok\<close>), an error status with its cause and a new state
  (\<open>Err\<close>), a fault (\<open>Crash\<close>: an access outside an object, a byte that was never written, a null
  pointer, a panic, a failed assertion), or \<open>None\<close>, which stands for a call that never returns.
  Loops that may not end are \<^verbatim>\<open>partial_function (option)\<close>; there is no fuel anywhere.
  Statements follow each other by \<open>bnd\<close>; \<open>zoom\<close>, \<open>on_buf\<close>, \<open>on_file\<close>, \<open>on_heap\<close> and
  \<open>on_local\<close> run a step on a part of the state. Memory is a list of cells, each a byte or
  uninitialised; \<^verbatim>\<open>u8\<close>, \<^verbatim>\<open>u32\<close> and \<^verbatim>\<open>u64\<close> are words of their width and wrap around as in C.
  The state \<open>st\<close> has the client, the open file, the heap of component buffers, the flag behind
  \<^verbatim>\<open>badsession\<close>, the caller's memory and the world. What is not in the repository is a parameter:
  the record \<open>os\<close> has the resolver, the socket calls, the environment, the clock and \<^verbatim>\<open>rand\<close>, each
  as a function on the world; \<open>sqlite\<close> has the values of SQLite's flags and \<open>parent_vfs\<close> the VFS
  some methods are forwarded to.

  \<^bold>\<open>Theories with the model\<close>, in the order of the code.
  \<^item> \<open>Prelude\<close>, \<open>Bytes\<close>: programs and their rules; byte orders, as the locale \<open>codec\<close> with its three
    interpretations; memory.
  \<^item> \<open>Buffer\<close> (\<^verbatim>\<open>buffer.h\<close>), \<open>Vector\<close> and \<open>Paths\<close> (\<^verbatim>\<open>vector.h\<close>), \<open>Runtime\<close> (\<^verbatim>\<open>runtime.h\<close>,
    \<^verbatim>\<open>ticks.h\<close>, \<^verbatim>\<open>codepoint.h\<close>), \<open>Nfs_Const\<close> (\<^verbatim>\<open>nfs4xdr.h\<close>): data structures, numbers, tables.
  \<^item> \<open>Internal\<close> (\<^verbatim>\<open>nfs4_internal.h\<close>), \<open>Xdr\<close> (\<^verbatim>\<open>xdr.c\<close>), \<open>Rpc\<close> (\<^verbatim>\<open>rpc.c\<close>, transport and
    sessions), \<open>Client\<close> (the rest of \<^verbatim>\<open>rpc.c\<close> and \<^verbatim>\<open>client.c\<close>).
  \<^item> \<open>Locking\<close>, \<open>Vfs\<close> and \<open>Methods\<close> (\<^verbatim>\<open>nfs4.c\<close>: locking, the other methods, the two tables).
  \<^item> \<open>Bench\<close> and \<open>Bench_Log\<close> (\<^verbatim>\<open>pyvfsbench/vfsbench.c\<close>): a benchmark that calls the methods through
    the tables, its entry point and its log.

  \<^bold>\<open>Theories with what the code is measured against, and the lemmas.\<close>
  \<^item> \<open>Wire\<close>: the operations of the protocol as a datatype and their XDR form, independent of the
    buffers of the code. \<open>Message\<close>, \<open>Replies\<close>, \<open>Requests\<close>: the encoders refine \<open>Wire\<close> (\<open>emits\<close>,
    \<open>sends\<close>), the decoders follow the bytes of a reply (\<open>goes\<close>, \<open>fails\<close>).
  \<^item> \<open>Transport\<close>, \<open>Calls\<close>, \<open>Connection\<close>: one exchange over the socket, accepted, refused or never
    answered (\<open>accepted\<close>, \<open>refusal\<close>, \<open>call_hangs\<close>); every remote call; the handshake; the replay.
  \<^item> \<open>Recovery\<close>: a call whose session is lost; which programs leave the buffer of the request alone
    (\<open>spares\<close>), and what \<^verbatim>\<open>transact\<close> therefore sends on the new connection.
  \<^item> \<open>Files\<close>: transfers in chunks for any per-chunk call that keeps the contract of the locale
    \<open>chunk_io\<close>, interpreted for reads and writes.
  \<^item> \<open>Threads\<close>: threads that share a client: a read split where it waits for the socket, and the
    steps of any thread in any order (\<open>thread_steps\<close>).
  \<^item> \<open>Lock_Safety\<close>: processes that run the scripts of \<open>Locking\<close> in any interleaving, with calls that
    succeed or fail; an \<^verbatim>\<open>nfs4Unlock\<close> that fails halfway can happen to the processes of a set \<open>F\<close>, and
    the others have an invariant proved in the locale \<open>lock_calls\<close> by induction on the steps.
    \<open>Lock_Service\<close> interprets it on the client over a server that grants or denies locks, and says
    which bytes a level has locked (\<open>level_locks\<close>).
  \<^item> \<open>Vfs_Calls\<close>: rules for the methods of the VFS. \<open>Sample\<close>: a small server and a recorded socket,
    used in the examples only.

  \<^bold>\<open>Properties.\<close> \<open>Foundations\<close>: buffers, vectors, paths, numbers and tables.
  \<open>File_Properties\<close>: reading, writing and sizes, with the ways they go wrong. \<open>Session_Properties\<close>:
  the handshake, the bytes on the wire, the parsing of replies, the replay. \<open>Lock_Properties\<close>:
  mutual exclusion, the levels of the locks, what failed calls leave behind. \<open>Vfs_Properties\<close>:
  opening, asking and deleting by path. \<open>Bench_Properties\<close>: the blocks the benchmark visits, its
  bounds and counts, and what it makes of the NFS methods; \<open>Log_Properties\<close>: its log is JSON.
  \<open>Recovery_Properties\<close>: what becomes of a call whose session the server lost.
  \<open>Thread_Properties\<close>: what two threads read that use one client at a time.
  Each property is followed by an application to a concrete state.

  \<^bold>\<open>Bounds.\<close> The theorems on messages ask that a request or a reply is at most \<open>limit\<close>
  (\<open>2 ^ 30 - 16\<close>) bytes long, so that the index arithmetic of \<^verbatim>\<open>buffer_extend\<close>, which doubles a
  32-bit capacity, does not wrap; chunks are at most \<open>2 ^ 29\<close> bytes. What happens outside is in the
  definitions, which wrap as the code does. Where a call is said to return, its result is given as
  \<open>Some (Ok ...)\<close>; where it hangs, as \<open>None\<close>.

  \<^bold>\<open>Hypotheses about the server\<close> (\<open>accepted\<close>, \<open>serves_reads\<close>, \<open>serves_locks\<close>, ...) say what it
  answers to a given request, byte for byte, as RFC 5661 lays replies out; the examples show servers
  that meet them. They are stronger than the RFC in two points: the servers accept the request of any
  session and sequence id, and those of the transfers answer with all bytes there are, where the RFC
  allows them to send or take fewer.

  \<^bold>\<open>Values nobody returned.\<close> Several functions end without the \<^verbatim>\<open>return\<close> they declare. Where the value
  is used as a status inside the client (\<^verbatim>\<open>parse_open\<close>) it is the parameter \<open>indet\<close>, and the theorems hold
  for each value of it; where a method hands it to its caller it is \<open>Indeterminate\<close>, whose use is a fault.

  \<^bold>\<open>Not modelled.\<close> Printing and tracing (\<^verbatim>\<open>eprintf\<close>, \<^verbatim>\<open>print_buffer\<close>, \<^verbatim>\<open>pf\<close>), which change
  no state of the program; giving memory back (\<^verbatim>\<open>deallocate\<close>; every \<^verbatim>\<open>malloc\<close> succeeds);
  \<^verbatim>\<open>ticks_to_float\<close> of \<^verbatim>\<open>ticks.h\<close>, which nothing calls and whose result depends on the floating
  point of the machine; the cycle counter behind \<^verbatim>\<open>rdtsc\<close> and the clock behind \<^verbatim>\<open>ktime\<close> are
  parameters. The scheduler of the benchmark's threads is a parameter of \<open>Bench\<close>, and \<open>Threads\<close> lets
  the threads share a client for reads only. The test programs (\<^verbatim>\<open>src/nfsv4/test\<close> and the shell
  scripts) and the deployment scripts use the program and are no part of it.
\<close>

end
